(* ===== verification/Prelude.thy ===== *)
theory Prelude
  imports Main "HOL-Library.AList" "HOL-Library.Word" "HOL-Library.Char_ord"
    "HOL-Library.List_Lexorder" "HOL-Library.Multiset"
begin

text \<open>
  Shared vocabulary of the development: bytes and UUIDs (\<open>[16]byte\<close> in Go), Go maps as
  association lists, Go's \<open>(value, error)\<close> results, generic transition systems, and the
  list and map lemmas the component theories have in common.
\<close>

section \<open>Fact collections\<close>

named_theorems go_map "lookup and update laws of Go maps"
named_theorems go_str "laws of the string functions"
named_theorems wf_intros "introduction rules for the components' invariants"

section \<open>Bytes and UUIDs\<close>

type_synonym byte = "8 word"

text \<open>\<open>uuid.UUID\<close> is the array type \<open>[16]byte\<close>; the type is represented by its sixteen bytes.\<close>

typedef uuid = "{bs :: byte list. length bs = 16}"
  by (rule exI [of _ "replicate 16 0"]) simp

definition uuid_bytes :: "uuid \<Rightarrow> byte list" where
  "uuid_bytes = Rep_uuid"

text \<open>\<open>copy(sid[:], data)\<close> into a zero array: missing bytes stay zero, surplus bytes are ignored.\<close>

definition mk_uuid :: "byte list \<Rightarrow> uuid" where
  "mk_uuid bs = Abs_uuid (take 16 (bs @ replicate 16 0))"

definition uuid_nil :: uuid where
  "uuid_nil = mk_uuid []"

lemma length_uuid_bytes [simp]: "length (uuid_bytes u) = 16"
  using Rep_uuid [of u] by (simp add: uuid_bytes_def)

lemma uuid_bytes_inject [simp]: "uuid_bytes a = uuid_bytes b \<longleftrightarrow> a = b"
  by (simp add: uuid_bytes_def Rep_uuid_inject)

lemma uuid_bytes_mk [simp]: "uuid_bytes (mk_uuid bs) = take 16 (bs @ replicate 16 0)"
  by (simp add: uuid_bytes_def mk_uuid_def Abs_uuid_inverse)

lemma mk_uuid_bytes [simp]: "mk_uuid (uuid_bytes u) = u"
  by (rule uuid_bytes_inject [THEN iffD1]) simp

lemma uuid_code [code abstype]: "Abs_uuid (uuid_bytes u) = u"
  by (simp add: uuid_bytes_def Rep_uuid_inverse)

lemma mk_uuid_code [code abstract]: "uuid_bytes (mk_uuid bs) = take 16 (bs @ replicate 16 0)"
  by simp

lemma mk_uuid_take [simp]: "16 \<le> length bs \<Longrightarrow> mk_uuid (take 16 bs) = mk_uuid bs"
  by (rule uuid_bytes_inject [THEN iffD1]) simp

lemma mk_uuid_eq_iff: "mk_uuid a = mk_uuid b \<longleftrightarrow>
    take 16 (a @ replicate 16 0) = take 16 (b @ replicate 16 0)"
  by (metis uuid_bytes_inject uuid_bytes_mk)

instantiation uuid :: equal
begin

definition equal_uuid :: "uuid \<Rightarrow> uuid \<Rightarrow> bool" where
  "equal_uuid a b \<longleftrightarrow> uuid_bytes a = uuid_bytes b"

instance
  by standard (simp add: equal_uuid_def)

end

section \<open>Go maps\<close>

text \<open>
  A Go map is an association list with distinct keys. Its order stands for the unspecified
  order of \<open>for k, v := range m\<close>: whatever is proved of a loop over the list is proved for
  every iteration order.
\<close>

type_synonym ('k, 'v) gomap = "('k \<times> 'v) list"

abbreviation mget :: "('k, 'v) gomap \<Rightarrow> 'k \<Rightarrow> 'v option" where
  "mget \<equiv> map_of"

abbreviation mput :: "'k \<Rightarrow> 'v \<Rightarrow> ('k, 'v) gomap \<Rightarrow> ('k, 'v) gomap" where
  "mput \<equiv> AList.update"

abbreviation mdel :: "'k \<Rightarrow> ('k, 'v) gomap \<Rightarrow> ('k, 'v) gomap" where
  "mdel \<equiv> AList.delete"

abbreviation mkeys :: "('k, 'v) gomap \<Rightarrow> 'k list" where
  "mkeys m \<equiv> map fst m"

abbreviation mvals :: "('k, 'v) gomap \<Rightarrow> 'v list" where
  "mvals m \<equiv> map snd m"

text \<open>Lookups stay lookups: they are not turned into membership in the representing list.\<close>

declare map_of_eq_Some_iff [simp del]

lemma mget_mput [go_map, simp]: "mget (mput k v m) k' = (if k' = k then Some v else mget m k')"
  by (simp add: update_conv')

lemma mget_mdel [go_map, simp]: "mget (mdel k m) k' = (if k' = k then None else mget m k')"
  by (simp add: delete_conv')

lemma mkeys_mput [go_map, simp]: "fst ` set (mput k v m) = insert k (fst ` set m)"
  by (simp add: dom_update)

lemma mkeys_mdel [go_map, simp]: "fst ` set (mdel k m) = fst ` set m - {k}"
  using delete_keys [of k m] by (metis list.set_map set_removeAll)

lemma distinct_mput [go_map, simp, intro]: "distinct (mkeys m) \<Longrightarrow> distinct (mkeys (mput k v m))"
  by (rule distinct_update)

lemma distinct_mdel [go_map, simp, intro]: "distinct (mkeys m) \<Longrightarrow> distinct (mkeys (mdel k m))"
  by (rule distinct_delete)

lemma mget_None_iff [go_map]: "mget m k = None \<longleftrightarrow> k \<notin> fst ` set m"
  by (rule map_of_eq_None_iff)

lemma in_keys: "mget m k = Some v \<Longrightarrow> k \<in> fst ` set m"
  by (metis mget_None_iff option.distinct(1))

lemma mget_SomeD: "mget m k = Some v \<Longrightarrow> (k, v) \<in> set m"
  by (rule map_of_SomeD)

lemma mget_Some_iff: "distinct (mkeys m) \<Longrightarrow> mget m k = Some v \<longleftrightarrow> (k, v) \<in> set m"
  by (rule map_of_eq_Some_iff)

lemma mdel_absent [simp]: "mget m k = None \<Longrightarrow> mdel k m = m"
  by (simp add: map_of_eq_None_iff)

lemma mput_absent: "mget m k = None \<Longrightarrow> mput k v m = m @ [(k, v)]"
  by (induction m) (auto split: if_splits)

lemma length_mdel: "distinct (mkeys m) \<Longrightarrow> mget m k = Some v \<Longrightarrow> Suc (length (mdel k m)) = length m"
proof (induction m)
  case (Cons p m)
  show ?case
  proof (cases "fst p = k")
    case True
    with Cons.prems have "mdel k m = m" by (auto intro: delete_id)
    with True show ?thesis by (cases p) simp
  next
    case False
    with Cons show ?thesis by (cases p) auto
  qed
qed simp

lemma set_mdel: "(k', v) \<in> set (mdel k m) \<longleftrightarrow> k' \<noteq> k \<and> (k', v) \<in> set m"
  by (auto simp: AList.delete_eq)

section \<open>Results\<close>

text \<open>A Go call that returns \<open>(value, error)\<close>: \<open>Inl\<close> the error, \<open>Inr\<close> the value.\<close>

abbreviation is_ok :: "'e + 'a \<Rightarrow> bool" where
  "is_ok r \<equiv> \<not> isl r"

section \<open>Transition systems\<close>

text \<open>
  The contract every state machine of the development fulfils: an invariant that holds in the
  initial states and that each step keeps. The clients' facts, reachability and runs, are proved
  once here.
\<close>

inductive reachable_from :: "('s \<Rightarrow> bool) \<Rightarrow> ('s \<Rightarrow> 's \<Rightarrow> bool) \<Rightarrow> 's \<Rightarrow> bool"
  for init :: "'s \<Rightarrow> bool" and step :: "'s \<Rightarrow> 's \<Rightarrow> bool" where
  start: "init s \<Longrightarrow> reachable_from init step s"
| step: "reachable_from init step s \<Longrightarrow> step s t \<Longrightarrow> reachable_from init step t"

locale invariant_system =
  fixes init :: "'s \<Rightarrow> bool"
    and step :: "'s \<Rightarrow> 's \<Rightarrow> bool"
    and inv :: "'s \<Rightarrow> bool"
  assumes init_inv: "init s \<Longrightarrow> inv s"
    and step_inv: "inv s \<Longrightarrow> step s t \<Longrightarrow> inv t"
begin

lemma reachable_inv: "reachable_from init step s \<Longrightarrow> inv s"
  by (induction rule: reachable_from.induct) (auto intro: init_inv step_inv)

lemma steps_inv: "inv s \<Longrightarrow> step\<^sup>*\<^sup>* s t \<Longrightarrow> inv t"
  by (rotate_tac, induction rule: rtranclp_induct) (auto intro: step_inv)

end

section \<open>Lists\<close>

lemma map_of_append_None: "map_of xs k = None \<Longrightarrow> map_of (xs @ ys) k = map_of ys k"
  by (simp add: map_add_def)

lemma list_all_in: "list_all P xs \<Longrightarrow> x \<in> set xs \<Longrightarrow> P x"
  by (simp add: list_all_iff)

end
