(* ===== verification/GoStd.thy ===== *)
theory GoStd
  imports Prelude
begin

text \<open>
  The parts of Go's standard library the program calls, on byte strings: \<open>strings.TrimSpace\<close>,
  \<open>ToLower\<close>, \<open>HasPrefix\<close>, \<open>Contains\<close>, \<open>Split\<close>; \<open>strconv.ParseInt\<close>, \<open>Atoi\<close>, \<open>FormatInt\<close>;
  \<open>net.SplitHostPort\<close>; \<open>encoding/hex\<close>; and 64-bit integer arithmetic. A Go string is a
  \<open>string\<close> whose characters are its bytes.
\<close>

section \<open>Bytes of a string\<close>

definition bytes_of :: "string \<Rightarrow> byte list" where
  "bytes_of s = map (\<lambda>c. of_nat (of_char c)) s"

definition string_of_bytes :: "byte list \<Rightarrow> string" where
  "string_of_bytes bs = map (\<lambda>b. char_of (unat b)) bs"

lemma of_char_less [simp]: "(of_char c :: nat) < 256"
  by (rule nat_of_char_less_256)

lemma byte_of_char_inj: "(of_nat (of_char a) :: byte) = of_nat (of_char b) \<longleftrightarrow> a = b"
proof
  assume "(of_nat (of_char a) :: byte) = of_nat (of_char b)"
  then have "(of_char a :: nat) mod 256 = of_char b mod 256"
    by (simp add: word_of_nat_eq_iff take_bit_eq_mod)
  then show "a = b" by simp
qed simp

lemma bytes_of_inject [go_str, simp]: "bytes_of a = bytes_of b \<longleftrightarrow> a = b"
  by (simp add: bytes_of_def inj_map_eq_map inj_def byte_of_char_inj)

lemma length_bytes_of [simp]: "length (bytes_of s) = length s"
  by (simp add: bytes_of_def)

section \<open>Prefixes, searching, splitting\<close>

definition has_prefix :: "string \<Rightarrow> string \<Rightarrow> bool" where
  "has_prefix s p \<longleftrightarrow> take (length p) s = p"

fun contains_str :: "string \<Rightarrow> string \<Rightarrow> bool" where
  "contains_str [] p \<longleftrightarrow> p = []"
| "contains_str (c # s) p \<longleftrightarrow> has_prefix (c # s) p \<or> contains_str s p"

fun index_byte :: "char \<Rightarrow> string \<Rightarrow> nat option" where
  "index_byte c [] = None"
| "index_byte c (x # xs) = (if x = c then Some 0 else map_option Suc (index_byte c xs))"

definition last_index :: "char \<Rightarrow> string \<Rightarrow> nat option" where
  "last_index c s = map_option (\<lambda>i. length s - 1 - i) (index_byte c (rev s))"

text \<open>\<open>strings.Split(s, sep)\<close> for a one-byte separator: always at least one piece.\<close>

fun split_on :: "char \<Rightarrow> string \<Rightarrow> string list" where
  "split_on c [] = [[]]"
| "split_on c (x # xs) =
     (if x = c then [] # split_on c xs
      else (case split_on c xs of [] \<Rightarrow> [[x]] | p # ps \<Rightarrow> (x # p) # ps))"

lemma has_prefix_append [go_str, simp]: "has_prefix (p @ s) p"
  by (simp add: has_prefix_def)

lemma has_prefixE: "has_prefix s p \<Longrightarrow> \<exists>t. s = p @ t"
  unfolding has_prefix_def by (metis append_take_drop_id)

lemma has_prefix_take: "has_prefix t p \<Longrightarrow> has_prefix (t @ u) p"
  by (metis append.assoc has_prefixE has_prefix_append)

lemma contains_str_prefix [go_str]: "contains_str (p @ s) p"
  using has_prefix_append [of p s] by (cases "p @ s") (auto simp del: has_prefix_append)

lemma contains_str_append: "contains_str s p \<Longrightarrow> contains_str (u @ s) p"
  by (induction u) auto

lemma index_byte_Some: "index_byte c s = Some i \<Longrightarrow> i < length s \<and> s ! i = c"
  by (induction s arbitrary: i) (auto split: if_splits)

lemma index_byte_None: "index_byte c s = None \<longleftrightarrow> c \<notin> set s"
  by (induction s) auto

lemma index_byte_append: "c \<notin> set s \<Longrightarrow> index_byte c (s @ c # t) = Some (length s)"
  by (induction s) auto

lemma last_index_append: "c \<notin> set t \<Longrightarrow> last_index c (s @ c # t) = Some (length s)"
  by (simp add: last_index_def index_byte_append)

lemma last_index_None: "last_index c s = None \<longleftrightarrow> c \<notin> set s"
  by (simp add: last_index_def index_byte_None)

lemma split_on_nonempty [simp]: "split_on c s \<noteq> []"
  by (cases s) (auto split: list.splits)

lemma split_on_no_sep: "p \<in> set (split_on c s) \<Longrightarrow> c \<notin> set p"
proof (induction s arbitrary: p)
  case (Cons x xs)
  then show ?case by (cases "split_on c xs") (auto split: if_splits)
qed simp

lemma split_on_atom [go_str]: "c \<notin> set s \<Longrightarrow> split_on c s = [s]"
  by (induction s) auto

lemma split_on_append [go_str]: "c \<notin> set s \<Longrightarrow> split_on c (s @ c # t) = s # split_on c t"
  by (induction s) auto

section \<open>TrimSpace\<close>

text \<open>
  \<open>unicode.IsSpace\<close> as the UTF-8 encodings of its runes: the ASCII blanks, U+0085, U+00A0,
  U+1680, U+2000 to U+200A, U+2028, U+2029, U+202F, U+205F and U+3000. Decoding the first (last)
  rune of a Go string gives one of them iff the string starts (ends) with its encoding.
\<close>

definition space_runes :: "string list" where
  "space_runes = map (map (char_of :: nat \<Rightarrow> char))
     ([[9], [10], [11], [12], [13], [32], [194, 133], [194, 160], [225, 154, 128]] @
      map (\<lambda>b. [226, 128, b]) [128, 129, 130, 131, 132, 133, 134, 135, 136, 137, 138, 168, 169, 175] @
      [[226, 129, 159], [227, 128, 128]])"

fun strip_rune :: "string list \<Rightarrow> string \<Rightarrow> string option" where
  "strip_rune [] s = None"
| "strip_rune (r # rs) s =
     (if r \<noteq> [] \<and> has_prefix s r then Some (drop (length r) s) else strip_rune rs s)"

lemma strip_rune_shorter: "strip_rune rs s = Some t \<Longrightarrow> length t < length s"
proof (induction rs)
  case (Cons r rs)
  show ?case
  proof (cases "r \<noteq> [] \<and> has_prefix s r")
    case True
    then have "s \<noteq> []" by (auto simp: has_prefix_def)
    with True Cons.prems show ?thesis by (auto intro: diff_less)
  next
    case False
    with Cons show ?thesis by simp
  qed
qed simp

function trim_with :: "string list \<Rightarrow> string \<Rightarrow> string" where
  "trim_with rs s = (case strip_rune rs s of None \<Rightarrow> s | Some t \<Rightarrow> trim_with rs t)"
  by pat_completeness auto
termination
  by (relation "measure (\<lambda>(rs, s). length s)") (auto dest: strip_rune_shorter)

declare trim_with.simps [simp del]

definition trim_left :: "string \<Rightarrow> string" where
  "trim_left s = trim_with space_runes s"

definition trim_right :: "string \<Rightarrow> string" where
  "trim_right s = rev (trim_with (map rev space_runes) (rev s))"

definition trim_space :: "string \<Rightarrow> string" where
  "trim_space s = trim_right (trim_left s)"

lemma trim_with_done: "strip_rune rs (trim_with rs s) = None"
proof (induction rs s rule: trim_with.induct)
  case (1 rs s)
  then show ?case
    by (cases "strip_rune rs s") (simp_all add: trim_with.simps [of rs s])
qed

lemma trim_with_id: "strip_rune rs s = None \<Longrightarrow> trim_with rs s = s"
  by (simp add: trim_with.simps)

lemma strip_rune_suffix: "strip_rune rs s = Some t \<Longrightarrow> \<exists>u. s = u @ t"
  by (induction rs) (auto split: if_splits, metis append_take_drop_id)

lemma trim_with_suffix: "\<exists>u. s = u @ trim_with rs s"
proof (induction rs s rule: trim_with.induct)
  case (1 rs s)
  show ?case
  proof (cases "strip_rune rs s")
    case None
    then show ?thesis by (simp add: trim_with_id)
  next
    case (Some t)
    with 1 obtain v where "t = v @ trim_with rs t" by blast
    moreover from Some obtain u where "s = u @ t" by (blast dest: strip_rune_suffix)
    moreover have "trim_with rs s = trim_with rs t" using Some by (simp add: trim_with.simps [of rs s])
    ultimately show ?thesis by (metis append.assoc)
  qed
qed

lemma strip_rune_None_prefix: "strip_rune rs (t @ u) = None \<Longrightarrow> strip_rune rs t = None"
  by (induction rs) (auto split: if_splits dest: has_prefix_take)

lemma trim_space_idem [go_str, simp]: "trim_space (trim_space s) = trim_space s"
proof -
  let ?l = "trim_left s"
  obtain u where u: "rev ?l = u @ trim_with (map rev space_runes) (rev ?l)"
    using trim_with_suffix by blast
  have l: "?l = trim_space s @ rev u"
    using arg_cong [OF u, of rev] by (simp add: trim_space_def trim_right_def)
  have "strip_rune space_runes ?l = None"
    by (simp add: trim_left_def trim_with_done)
  with l have "strip_rune space_runes (trim_space s) = None"
    by (metis strip_rune_None_prefix)
  then have "trim_left (trim_space s) = trim_space s"
    by (simp add: trim_left_def trim_with_id)
  moreover have "strip_rune (map rev space_runes) (rev (trim_space s)) = None"
    by (simp add: trim_space_def trim_right_def trim_with_done)
  then have "trim_right (trim_space s) = trim_space s"
    by (simp add: trim_right_def trim_with_id)
  ultimately show ?thesis by (simp add: trim_space_def [of "trim_space s"])
qed

text \<open>A string whose first and last byte begin and end no white-space rune is left alone.\<close>

definition space_heads :: "char set" where
  "space_heads = set (map hd space_runes)"

definition space_lasts :: "char set" where
  "space_lasts = set (map last space_runes)"

lemma strip_rune_None_hd: "hd s \<notin> set (map hd rs) \<Longrightarrow> strip_rune rs s = None"
proof (induction rs)
  case (Cons r rs)
  have "\<not> (r \<noteq> [] \<and> has_prefix s r)"
  proof
    assume "r \<noteq> [] \<and> has_prefix s r"
    then obtain t where "s = r @ t" "r \<noteq> []" by (blast dest: has_prefixE)
    then have "hd s = hd r" by simp
    with Cons.prems show False by simp
  qed
  with Cons show ?case by simp
qed simp

lemma strip_rune_Nil: "strip_rune rs [] = None"
  by (induction rs) (auto simp: has_prefix_def)

lemma trim_space_plain: "hd s \<notin> space_heads \<Longrightarrow> last s \<notin> space_lasts \<Longrightarrow> trim_space s = s"
proof (cases "s = []")
  case True
  then show ?thesis
    by (simp add: trim_space_def trim_left_def trim_right_def trim_with_id strip_rune_Nil)
next
  case False
  assume h: "hd s \<notin> space_heads" and l: "last s \<notin> space_lasts"
  from h have "trim_left s = s"
    by (simp add: trim_left_def trim_with_id strip_rune_None_hd space_heads_def)
  moreover have "hd ` set (map rev space_runes) = last ` set space_runes"
    by (simp add: space_runes_def)
  then have "trim_right s = s"
    using l False by (simp add: trim_right_def trim_with_id strip_rune_None_hd space_lasts_def hd_rev)
  ultimately show ?thesis by (simp add: trim_space_def)
qed

lemma trim_space_Nil [go_str, simp]: "trim_space [] = []"
  by (simp add: trim_space_def trim_left_def trim_right_def trim_with_id strip_rune_Nil)

lemma set_trim_space: "set (trim_space s) \<subseteq> set s"
proof -
  obtain u where "s = u @ trim_left s"
    unfolding trim_left_def using trim_with_suffix by blast
  moreover obtain v where v: "rev (trim_left s) = v @ trim_with (map rev space_runes) (rev (trim_left s))"
    using trim_with_suffix by blast
  have "set (trim_right (trim_left s)) \<subseteq> set (trim_left s)"
    using arg_cong [OF v, of set] by (auto simp: trim_right_def)
  ultimately show ?thesis unfolding trim_space_def by (metis Un_iff set_append subset_iff)
qed

section \<open>ToLower\<close>

text \<open>
  The ASCII part of \<open>strings.ToLower\<close>. No other rune is lowered to an ASCII letter except
  U+0130 (to \<open>i\<close>) and U+212A (to \<open>k\<close>); the program compares lowered strings with hexadecimal
  digits and with the scheme names http, https, ws and wss only, which contain neither.
\<close>

definition lower_char :: "char \<Rightarrow> char" where
  "lower_char c =
     (let n = of_char c :: nat in if 65 \<le> n \<and> n \<le> 90 then char_of (n + 32) else c)"

definition to_lower :: "string \<Rightarrow> string" where
  "to_lower s = map lower_char s"

lemma length_to_lower [simp]: "length (to_lower s) = length s"
  by (simp add: to_lower_def)

lemma to_lower_Nil [simp]: "to_lower [] = []"
  by (simp add: to_lower_def)

lemma to_lower_append [go_str]: "to_lower (s @ t) = to_lower s @ to_lower t"
  by (simp add: to_lower_def)

lemma lower_char_idem [simp]: "lower_char (lower_char c) = lower_char c"
proof (cases "65 \<le> (of_char c :: nat) \<and> (of_char c :: nat) \<le> 90")
  case True
  then have "(of_char (lower_char c) :: nat) = of_char c + 32"
    by (simp add: lower_char_def of_char_of)
  with True show ?thesis by (simp add: lower_char_def [of "lower_char c"])
next
  case False
  then have "lower_char c = c" by (auto simp: lower_char_def Let_def)
  then show ?thesis by simp
qed

lemma to_lower_idem [go_str, simp]: "to_lower (to_lower s) = to_lower s"
  by (simp add: to_lower_def)

section \<open>Integers\<close>

text \<open>Two's complement 64-bit arithmetic: the result of an \<open>int64\<close> operation.\<close>

definition i64 :: "int \<Rightarrow> int" where
  "i64 x = signed_take_bit 63 x"

definition in_int64 :: "int \<Rightarrow> bool" where
  "in_int64 x \<longleftrightarrow> - (2 ^ 63) \<le> x \<and> x < 2 ^ 63"

lemma i64_id: "in_int64 x \<Longrightarrow> i64 x = x"
  by (simp add: i64_def in_int64_def signed_take_bit_int_eq_self)

definition digit_char :: "nat \<Rightarrow> char" where
  "digit_char d = char_of (48 + d)"

definition is_digit :: "char \<Rightarrow> bool" where
  "is_digit c \<longleftrightarrow> 48 \<le> (of_char c :: nat) \<and> (of_char c :: nat) \<le> 57"

definition digit_val :: "char \<Rightarrow> nat" where
  "digit_val c = of_char c - 48"

fun nat_dec :: "nat \<Rightarrow> string" where
  "nat_dec n = (if n < 10 then [digit_char n] else nat_dec (n div 10) @ [digit_char (n mod 10)])"

declare nat_dec.simps [simp del]

text \<open>\<open>strconv.FormatInt(i, 10)\<close> and \<open>fmt\<close>'s \<open>%d\<close>.\<close>

definition itoa :: "int \<Rightarrow> string" where
  "itoa i = (if i < 0 then CHR ''-'' # nat_dec (nat (- i)) else nat_dec (nat i))"

definition dec_val :: "string \<Rightarrow> nat" where
  "dec_val s = foldl (\<lambda>a c. a * 10 + digit_val c) 0 s"

text \<open>\<open>strconv.ParseInt(s, 10, 64)\<close> (and \<open>Atoi\<close> on a 64-bit platform): \<open>None\<close> is an error,
  of syntax or of range.\<close>

definition parse_int :: "string \<Rightarrow> int option" where
  "parse_int s =
     (let neg = (s \<noteq> [] \<and> hd s = CHR ''-'');
          ds = (if s \<noteq> [] \<and> (hd s = CHR ''-'' \<or> hd s = CHR ''+'') then tl s else s);
          v = (if neg then - int (dec_val ds) else int (dec_val ds))
      in if ds = [] \<or> \<not> list_all is_digit ds then None
         else if in_int64 v then Some v else None)"

lemma of_char_digit_char [simp]: "d < 10 \<Longrightarrow> (of_char (digit_char d) :: nat) = 48 + d"
  by (simp add: digit_char_def of_char_of)

lemma digit_char_digit [simp]: "d < 10 \<Longrightarrow> is_digit (digit_char d)"
  by (simp add: is_digit_def)

lemma digit_val_char [simp]: "d < 10 \<Longrightarrow> digit_val (digit_char d) = d"
  by (simp add: digit_val_def)

lemma nat_dec_nonempty [simp]: "nat_dec n \<noteq> []"
  by (subst nat_dec.simps) simp

lemma nat_dec_digits: "list_all is_digit (nat_dec n)"
proof (induction n rule: nat_dec.induct)
  case (1 n)
  then show ?case by (subst nat_dec.simps) simp
qed

lemma dec_val_snoc: "dec_val (s @ [c]) = dec_val s * 10 + digit_val c"
  by (simp add: dec_val_def)

lemma dec_val_nat_dec: "dec_val (nat_dec n) = n"
proof (induction n rule: nat_dec.induct)
  case (1 n)
  show ?case
  proof (cases "n < 10")
    case True
    then show ?thesis by (subst nat_dec.simps) (simp add: dec_val_def)
  next
    case False
    with 1 have "dec_val (nat_dec (n div 10)) = n div 10" by simp
    with False show ?thesis by (subst nat_dec.simps) (simp add: dec_val_snoc)
  qed
qed

lemma is_digit_sign: "is_digit c \<Longrightarrow> c \<noteq> CHR ''-'' \<and> c \<noteq> CHR ''+''"
  by (auto simp: is_digit_def)

lemma hd_nat_dec_digit: "is_digit (hd (nat_dec n))"
  using nat_dec_digits [of n] by (cases "nat_dec n") auto

lemma parse_int_itoa [go_str]: "in_int64 i \<Longrightarrow> parse_int (itoa i) = Some i"
  using is_digit_sign [OF hd_nat_dec_digit, of "nat i"]
  by (simp add: parse_int_def itoa_def Let_def nat_dec_digits dec_val_nat_dec)

lemma char_eq_char_of: "c = char_of n \<longleftrightarrow> (of_char c :: nat) = n mod 256"
  by (metis char_of_char of_char_of)

lemma space_heads_code: "c \<in> space_heads \<longleftrightarrow>
    (of_char c :: nat) \<in> {9, 10, 11, 12, 13, 32, 194, 225, 226, 227}"
  by (simp add: space_heads_def space_runes_def char_eq_char_of disj_ac)

lemma space_lasts_code: "c \<in> space_lasts \<longleftrightarrow>
    (of_char c :: nat) \<in> {9, 10, 11, 12, 13, 32, 133, 160, 128, 129, 130, 131, 132, 134, 135, 136,
      137, 138, 168, 169, 175, 159}"
  by (simp add: space_lasts_def space_runes_def char_eq_char_of) blast

lemma space_heads_no_digit: "is_digit c \<Longrightarrow> c \<notin> space_heads \<and> c \<notin> space_lasts"
  by (auto simp: space_heads_code space_lasts_code is_digit_def)

lemma trim_space_itoa [go_str, simp]: "trim_space (itoa i) = itoa i"
proof (rule trim_space_plain)
  have d: "is_digit (last (nat_dec n))" for n
    using nat_dec_digits [of n] by (simp add: list_all_iff)
  show "last (itoa i) \<notin> space_lasts"
    using space_heads_no_digit [OF d] by (simp add: itoa_def)
  have "CHR ''-'' \<notin> space_heads"
    by (simp add: space_heads_code)
  then show "hd (itoa i) \<notin> space_heads"
    using space_heads_no_digit [OF hd_nat_dec_digit] by (simp add: itoa_def)
qed

lemma itoa_nonempty [simp]: "itoa i \<noteq> []"
  by (simp add: itoa_def)

section \<open>Hexadecimal\<close>

definition hex_digit :: "nat \<Rightarrow> char" where
  "hex_digit d = (if d < 10 then char_of (48 + d) else char_of (87 + d))"

text \<open>\<open>hex.EncodeToString\<close>: two lower-case digits per byte.\<close>

definition hex_encode :: "byte list \<Rightarrow> string" where
  "hex_encode bs = concat (map (\<lambda>b. [hex_digit (unat b div 16), hex_digit (unat b mod 16)]) bs)"

definition is_hex_char :: "char \<Rightarrow> bool" where
  "is_hex_char c \<longleftrightarrow> is_digit c \<or> 97 \<le> (of_char c :: nat) \<and> (of_char c :: nat) \<le> 102"

lemma length_hex_encode [simp]: "length (hex_encode bs) = 2 * length bs"
  by (induction bs) (auto simp: hex_encode_def)

lemma hex_digit_hex: "d < 16 \<Longrightarrow> is_hex_char (hex_digit d)"
  by (auto simp: is_hex_char_def is_digit_def hex_digit_def of_char_of)

lemma hex_encode_chars: "list_all is_hex_char (hex_encode bs)"
proof (induction bs)
  case (Cons b bs)
  have "unat b < 256" using unsigned_less [of b, where ?'a = nat] by simp
  then show ?case using Cons by (simp add: hex_encode_def hex_digit_hex)
qed (simp add: hex_encode_def)

lemma lower_char_hex: "is_hex_char c \<Longrightarrow> lower_char c = c"
  by (auto simp: is_hex_char_def is_digit_def lower_char_def)

lemma to_lower_hex [go_str, simp]: "to_lower (hex_encode bs) = hex_encode bs"
  using hex_encode_chars [of bs]
  by (simp add: to_lower_def map_idI list_all_iff lower_char_hex)

lemma hex_no_space: "is_hex_char c \<Longrightarrow> c \<notin> space_heads \<and> c \<notin> space_lasts"
  by (auto simp: space_heads_code space_lasts_code is_hex_char_def is_digit_def)

lemma trim_space_hex [go_str, simp]: "trim_space (hex_encode bs) = hex_encode bs"
proof (cases "hex_encode bs = []")
  case False
  then have "hd (hex_encode bs) \<in> set (hex_encode bs)" "last (hex_encode bs) \<in> set (hex_encode bs)"
    by simp_all
  then show ?thesis
    using hex_encode_chars [of bs] hex_no_space by (intro trim_space_plain) (auto simp: list_all_iff)
qed simp

section \<open>SplitHostPort\<close>

text \<open>\<open>net.SplitHostPort\<close>; \<open>None\<close> is any of its address errors.\<close>

definition split_host_port :: "string \<Rightarrow> (string \<times> string) option" where
  "split_host_port hp =
     (case last_index (CHR '':'') hp of
        None \<Rightarrow> None
      | Some i \<Rightarrow>
          if hd hp = CHR ''['' then
            (case index_byte (CHR '']'') hp of
               None \<Rightarrow> None
             | Some e \<Rightarrow>
                 if e + 1 = i \<and> CHR ''['' \<notin> set (drop 1 hp) \<and> CHR '']'' \<notin> set (drop (e + 1) hp)
                 then Some (take (e - 1) (drop 1 hp), drop (i + 1) hp) else None)
          else if CHR '':'' \<in> set (take i hp) then None
          else if CHR ''['' \<in> set hp \<or> CHR '']'' \<in> set hp then None
          else Some (take i hp, drop (i + 1) hp))"

lemma split_host_port_join [go_str]:
  assumes "CHR '':'' \<notin> set h" "CHR ''['' \<notin> set h" "CHR '']'' \<notin> set h"
    and "CHR '':'' \<notin> set p" "CHR ''['' \<notin> set p" "CHR '']'' \<notin> set p"
  shows "split_host_port (h @ CHR '':'' # p) = Some (h, p)"
proof -
  have "hd (h @ CHR '':'' # p) \<noteq> CHR ''[''"
    using assms(2) by (cases h) auto
  then show ?thesis
    using assms by (simp add: split_host_port_def last_index_append)
qed

end
