(* ===== verification/Frame.thy ===== *)
theory Frame
  imports GoStd
begin

text \<open>
  \<open>internal/reversetunnel/frame.go\<close>: the binary frames of the reverse tunnel, a session UUID
  followed by the payload, and the contract a multiplexing framing has to meet (locale
  \<open>framing\<close>): decoding inverts encoding, so the payloads of one session come out of a mixed
  sequence of frames complete and in order, whatever other sessions send in between.
\<close>

section \<open>The contract\<close>

text \<open>What a receiver that keeps the frames of session \<open>k\<close> only gets to see.\<close>

definition demux :: "(byte list \<Rightarrow> ('k \<times> byte list) option) \<Rightarrow> 'k \<Rightarrow> byte list list \<Rightarrow> byte list" where
  "demux dec k frames =
     concat (map (\<lambda>f. case dec f of None \<Rightarrow> [] | Some (s, body) \<Rightarrow> if s = k then body else []) frames)"

locale framing =
  fixes enc :: "'k \<Rightarrow> byte list \<Rightarrow> byte list"
    and dec :: "byte list \<Rightarrow> ('k \<times> byte list) option"
  assumes dec_enc: "dec (enc k p) = Some (k, p)"
    and enc_dec: "dec f = Some (k, p) \<Longrightarrow> enc k p = f"
begin

lemma enc_inject: "enc k p = enc k' p' \<longleftrightarrow> k = k' \<and> p = p'"
  by (metis dec_enc option.inject prod.inject)

lemma demux_mux:
  "demux dec k (map (\<lambda>(s, p). enc s p) xs) = concat (map snd (filter (\<lambda>x. fst x = k) xs))"
  by (induction xs) (auto simp: demux_def dec_enc)

lemma demux_absent: "k \<notin> fst ` set xs \<Longrightarrow> demux dec k (map (\<lambda>(s, p). enc s p) xs) = []"
  by (induction xs) (auto simp: demux_def dec_enc)

end

section \<open>The code's frames\<close>

definition SessionIDSize :: nat where
  "SessionIDSize = 16"

text \<open>\<open>copy(dst[off:], src)\<close>: as much of \<open>src\<close> as \<open>dst\<close> has room for, from \<open>off\<close> on.\<close>

definition copy_at :: "nat \<Rightarrow> 'a list \<Rightarrow> 'a list \<Rightarrow> 'a list" where
  "copy_at off src dst = take off dst @ take (length dst - off) src @ drop (off + length src) dst"

definition PrependSessionID :: "uuid \<Rightarrow> byte list \<Rightarrow> byte list" where
  "PrependSessionID sid payload =
     (let out = replicate (SessionIDSize + length payload) 0;
          out = copy_at 0 (uuid_bytes sid) (take SessionIDSize out) @ drop SessionIDSize out
      in copy_at SessionIDSize payload out)"

definition ParsePrefixedMessage :: "byte list \<Rightarrow> (uuid \<times> byte list) option" where
  "ParsePrefixedMessage data =
     (if length data < SessionIDSize then None
      else Some (mk_uuid (take SessionIDSize data), drop SessionIDSize data))"

lemma PrependSessionID_eq: "PrependSessionID sid payload = uuid_bytes sid @ payload"
  by (simp add: PrependSessionID_def Let_def copy_at_def SessionIDSize_def)

interpretation fr: framing PrependSessionID ParsePrefixedMessage
proof
  fix k p
  show "ParsePrefixedMessage (PrependSessionID k p) = Some (k, p)"
    by (simp add: PrependSessionID_eq ParsePrefixedMessage_def SessionIDSize_def)
next
  fix f k p
  assume "ParsePrefixedMessage f = Some (k, p)"
  then show "PrependSessionID k p = f"
    by (auto simp: PrependSessionID_eq ParsePrefixedMessage_def SessionIDSize_def split: if_splits)
qed

lemma length_PrependSessionID: "length (PrependSessionID sid p) = SessionIDSize + length p"
  by (simp add: PrependSessionID_eq SessionIDSize_def)

lemma parse_frame [simp]: "ParsePrefixedMessage (PrependSessionID sid p) = Some (sid, p)"
  by (rule fr.dec_enc)

text \<open>C29: Framing round trip. Parsing a frame built by PrependSessionID gives back exactly the
  session id and the payload, conversely every frame the parser accepts is the frame of what it
  returned, and the frames it refuses are exactly those shorter than sixteen bytes.\<close>

theorem frame_roundtrip:
  "ParsePrefixedMessage (PrependSessionID sid payload) = Some (sid, payload)
   \<and> (ParsePrefixedMessage data = Some (s, body) \<longleftrightarrow> data = PrependSessionID s body)
   \<and> (ParsePrefixedMessage data = None \<longleftrightarrow> length data < 16)"
  using fr.dec_enc [of sid payload] fr.dec_enc [of s body] fr.enc_dec [of data s body]
  by (auto simp: ParsePrefixedMessage_def SessionIDSize_def)

text \<open>Multiplexing. When the frames of any number of sessions share one WebSocket in any
  interleaving, the payload bytes that arrive for one session are the ones sent for it, in order,
  with nothing of another session.\<close>

lemma frame_multiplexing:
  "demux ParsePrefixedMessage sid (map (\<lambda>(s, p). PrependSessionID s p) sent)
   = concat (map snd (filter (\<lambda>x. fst x = sid) sent))"
  by (rule fr.demux_mux)

end
