(* ===== verification/Streams.thy ===== *)
theory Streams
  imports GoStd
begin

text \<open>
  The byte streams of the tunnels: the in-memory reader and the WebSocket wrapper of
  \<open>internal/clienttunnel/tunnel.go\<close>. The contract of a reader is the locale \<open>byte_source\<close>:
  what is read and what is still pending add up to the source's bytes, and an error comes only
  at the end.
\<close>

section \<open>Readers\<close>

datatype io_error = EOF | ConnErr

type_synonym read_result = "byte list \<times> io_error option"

locale byte_source =
  fixes read :: "nat \<Rightarrow> 's \<Rightarrow> read_result \<times> 's"
    and pending :: "'s \<Rightarrow> byte list"
  assumes read_conserves: "read n s = ((bs, e), s') \<Longrightarrow> pending s = bs @ pending s'"
    and read_fits: "read n s = ((bs, e), s') \<Longrightarrow> length bs \<le> n"
    and read_progress: "read n s = ((bs, None), s') \<Longrightarrow> 0 < n \<Longrightarrow> bs \<noteq> []"
    and read_error: "read n s = ((bs, Some x), s') \<Longrightarrow> bs = [] \<and> pending s' = []"

section \<open>byteReader\<close>

record byteReader =
  br_data :: "byte list"
  br_pos :: nat

definition byteReader_Read :: "nat \<Rightarrow> byteReader \<Rightarrow> read_result \<times> byteReader" where
  "byteReader_Read n r =
     (if length (br_data r) \<le> br_pos r then (([], Some EOF), r)
      else let bs = take n (drop (br_pos r) (br_data r))
           in ((bs, None), r\<lparr>br_pos := br_pos r + length bs\<rparr>))"

definition br_pending :: "byteReader \<Rightarrow> byte list" where
  "br_pending r = drop (br_pos r) (br_data r)"

interpretation br: byte_source byteReader_Read br_pending
proof
  fix n s bs e s'
  assume r: "byteReader_Read n s = ((bs, e), s')"
  show "br_pending s = bs @ br_pending s'"
    using r by (auto simp: byteReader_Read_def br_pending_def Let_def min_def split: if_splits)
      (metis append_take_drop_id drop_drop add.commute)
  show "length bs \<le> n"
    using r by (auto simp: byteReader_Read_def Let_def split: if_splits)
qed (auto simp: byteReader_Read_def br_pending_def Let_def split: if_splits)

section \<open>wsConnWrapper\<close>

text \<open>
  \<open>ws_in\<close> holds the messages \<open>ReadMessage\<close> will still return (their type is ignored by the
  wrapper); when it is empty \<open>ReadMessage\<close> fails with the connection's error, and keeps
  failing. \<open>ws_out\<close> collects the binary messages written.
\<close>

record wsConnWrapper =
  ws_in :: "byte list list"
  ws_out :: "byte list list"
  ws_reader :: "byteReader option"

function wsConnWrapper_Read :: "nat \<Rightarrow> wsConnWrapper \<Rightarrow> read_result \<times> wsConnWrapper" where
  "wsConnWrapper_Read n w =
     (case ws_reader w of
        Some r \<Rightarrow>
          (case byteReader_Read n r of
             ((bs, Some EOF), r') \<Rightarrow>
               let w = w\<lparr>ws_reader := None\<rparr>
               in if bs \<noteq> [] then ((bs, None), w) else wsConnWrapper_Read n w
           | ((bs, e), r') \<Rightarrow> ((bs, e), w\<lparr>ws_reader := Some r'\<rparr>))
      | None \<Rightarrow>
          (case ws_in w of
             [] \<Rightarrow> (([], Some ConnErr), w)
           | m # ms \<Rightarrow>
               wsConnWrapper_Read n (w\<lparr>ws_in := ms, ws_reader := Some \<lparr>br_data = m, br_pos = 0\<rparr>\<rparr>)))"
  by pat_completeness auto
termination
  by (relation "measure (\<lambda>(n, w). 2 * length (ws_in w) + (case ws_reader w of None \<Rightarrow> 0 | Some _ \<Rightarrow> 1))")
    auto

declare wsConnWrapper_Read.simps [simp del]

definition wsConnWrapper_Write :: "bool \<Rightarrow> byte list \<Rightarrow> wsConnWrapper \<Rightarrow> (io_error + nat) \<times> wsConnWrapper" where
  "wsConnWrapper_Write ok b w =
     (if \<not> ok then (Inl ConnErr, w) else (Inr (length b), w\<lparr>ws_out := ws_out w @ [b]\<rparr>))"

definition ws_pending :: "wsConnWrapper \<Rightarrow> byte list" where
  "ws_pending w = (case ws_reader w of None \<Rightarrow> [] | Some r \<Rightarrow> br_pending r) @ concat (ws_in w)"

lemma byteReader_Read_err: "byteReader_Read n r = ((bs, Some e), r') \<Longrightarrow> e = EOF \<and> bs = []"
  by (auto simp: byteReader_Read_def Let_def split: if_splits)

lemma ws_read_spec:
  "wsConnWrapper_Read n w = ((bs, e), w') \<Longrightarrow>
     ws_pending w = bs @ ws_pending w' \<and> length bs \<le> n \<and> (e = None \<longrightarrow> 0 < n \<longrightarrow> bs \<noteq> [])
     \<and> (e \<noteq> None \<longrightarrow> bs = [] \<and> ws_pending w' = [])"
proof (induction n w rule: wsConnWrapper_Read.induct)
  case (1 n w)
  show ?case
  proof (cases "ws_reader w")
    case None
    show ?thesis
    proof (cases "ws_in w")
      case Nil
      with None 1 show ?thesis by (auto simp: wsConnWrapper_Read.simps [of n w] ws_pending_def)
    next
      case (Cons m ms)
      let ?w = "w\<lparr>ws_in := ms, ws_reader := Some \<lparr>br_data = m, br_pos = 0\<rparr>\<rparr>"
      have "ws_pending ?w = ws_pending w"
        using None Cons by (simp add: ws_pending_def br_pending_def)
      moreover have "wsConnWrapper_Read n ?w = ((bs, e), w')"
        using "1.prems" None Cons by (simp add: wsConnWrapper_Read.simps [of n w])
      ultimately show ?thesis using "1.IH"(1) [OF None Cons] by simp
    qed
  next
    case (Some r)
    obtain cs x r' where r: "byteReader_Read n r = ((cs, x), r')" by (metis surj_pair)
    show ?thesis
    proof (cases x)
      case None
      then have "bs = cs" "e = None" "w' = w\<lparr>ws_reader := Some r'\<rparr>"
        using "1.prems" Some r by (auto simp: wsConnWrapper_Read.simps [of n w])
      then show ?thesis
        using br.read_conserves [OF r] br.read_fits [OF r] br.read_progress Some r None
        by (auto simp: ws_pending_def)
    next
      case (Some y)
      with byteReader_Read_err r have y: "y = EOF" "cs = []" by auto
      let ?w = "w\<lparr>ws_reader := None\<rparr>"
      have "br_pending r = []" using br.read_conserves [OF r] br.read_error r Some by simp
      then have "ws_pending ?w = ws_pending w" using \<open>ws_reader w = Some r\<close> by (simp add: ws_pending_def)
      moreover have "wsConnWrapper_Read n ?w = ((bs, e), w')"
        using "1.prems" \<open>ws_reader w = Some r\<close> r Some y by (simp add: wsConnWrapper_Read.simps [of n w] Let_def)
      moreover have "\<not> cs \<noteq> []" using y by simp
      ultimately show ?thesis
        using "1.IH"(2) [OF \<open>ws_reader w = Some r\<close> r [symmetric] refl Some y(1) refl] by simp
    qed
  qed
qed

interpretation ws: byte_source wsConnWrapper_Read ws_pending
  by unfold_locales (use ws_read_spec in \<open>blast+\<close>)

end
