(* ===== verification/Duplex.thy ===== *)
theory Duplex
  imports Streams "HOL-Library.Sublist"
begin

text \<open>
  Two goroutines, one per direction of a connection, and the function that started them: it waits for
  the first of them to end (\<open><-done\<close>, on a channel with room for both) and then closes both
  connections. The server's bridge (\<open>internal/proxy/ws_handler.go\<close>), the client's \<open>handlePair\<close>
  (\<open>internal/clienttunnel/tunnel.go\<close>) and \<open>reverseConsumerBridgeTCP\<close>
  (\<open>internal/clienttunnel/reverse.go\<close>) all have this shape. A run is the sequence of the goroutines'
  loop iterations and of the closing, in the order the scheduler and the network produce them.
\<close>

section \<open>Runs\<close>

datatype ('a, 'b) duplex_event = Up 'a | Down 'b | CloseBoth

record ('u, 'd) duplex =
  up_side :: 'u
  down_side :: 'd
  up_done :: bool
  down_done :: bool
  both_closed :: bool

definition duplex_init :: "'u \<Rightarrow> 'd \<Rightarrow> ('u, 'd) duplex" where
  "duplex_init u d = \<lparr>up_side = u, down_side = d, up_done = False, down_done = False, both_closed = False\<rparr>"

text \<open>An iteration of a loop says whether it was the last one. After the closing, reads and writes
  fail: the next iteration of a loop is its last and moves nothing.\<close>

fun duplex_step ::
  "('a \<Rightarrow> 'u \<Rightarrow> bool \<times> 'u) \<Rightarrow> ('b \<Rightarrow> 'd \<Rightarrow> bool \<times> 'd) \<Rightarrow> ('a, 'b) duplex_event
     \<Rightarrow> ('u, 'd) duplex \<Rightarrow> ('u, 'd) duplex" where
  "duplex_step f g (Up a) s =
     (if up_done s then s
      else if both_closed s then s\<lparr>up_done := True\<rparr>
      else case f a (up_side s) of (fin, u) \<Rightarrow> s\<lparr>up_side := u, up_done := fin\<rparr>)"
| "duplex_step f g (Down b) s =
     (if down_done s then s
      else if both_closed s then s\<lparr>down_done := True\<rparr>
      else case g b (down_side s) of (fin, d) \<Rightarrow> s\<lparr>down_side := d, down_done := fin\<rparr>)"
| "duplex_step f g CloseBoth s = (if up_done s \<or> down_done s then s\<lparr>both_closed := True\<rparr> else s)"

fun duplex_run ::
  "('a \<Rightarrow> 'u \<Rightarrow> bool \<times> 'u) \<Rightarrow> ('b \<Rightarrow> 'd \<Rightarrow> bool \<times> 'd) \<Rightarrow> ('a, 'b) duplex_event list
     \<Rightarrow> ('u, 'd) duplex \<Rightarrow> ('u, 'd) duplex" where
  "duplex_run f g [] s = s"
| "duplex_run f g (e # es) s = duplex_run f g es (duplex_step f g e s)"

text \<open>One loop alone: whether it ended, and its state.\<close>

fun solo :: "('a \<Rightarrow> 'u \<Rightarrow> bool \<times> 'u) \<Rightarrow> 'a list \<Rightarrow> 'u \<Rightarrow> bool \<times> 'u" where
  "solo f [] u = (False, u)"
| "solo f (a # as) u = (case f a u of (fin, u') \<Rightarrow> if fin then (True, u') else solo f as u')"

fun ups :: "('a, 'b) duplex_event list \<Rightarrow> 'a list" where
  "ups [] = []"
| "ups (Up a # es) = a # ups es"
| "ups (_ # es) = ups es"

fun downs :: "('a, 'b) duplex_event list \<Rightarrow> 'b list" where
  "downs [] = []"
| "downs (Down b # es) = b # downs es"
| "downs (_ # es) = downs es"

text \<open>Which events happen: an ended loop has no more iterations, and both connections are closed once.\<close>

fun enabled :: "('a, 'b) duplex_event \<Rightarrow> ('u, 'd) duplex \<Rightarrow> bool" where
  "enabled (Up a) s \<longleftrightarrow> \<not> up_done s"
| "enabled (Down b) s \<longleftrightarrow> \<not> down_done s"
| "enabled CloseBoth s \<longleftrightarrow> (up_done s \<or> down_done s) \<and> \<not> both_closed s"

fun schedule ::
  "('a \<Rightarrow> 'u \<Rightarrow> bool \<times> 'u) \<Rightarrow> ('b \<Rightarrow> 'd \<Rightarrow> bool \<times> 'd) \<Rightarrow> ('a, 'b) duplex_event list
     \<Rightarrow> ('u, 'd) duplex \<Rightarrow> bool" where
  "schedule f g [] s \<longleftrightarrow> True"
| "schedule f g (e # es) s \<longleftrightarrow> enabled e s \<and> schedule f g es (duplex_step f g e s)"

definition finished :: "('u, 'd) duplex \<Rightarrow> bool" where
  "finished s \<longleftrightarrow> up_done s \<and> down_done s \<and> both_closed s"

section \<open>A direction of a run is its loop alone\<close>

lemma closed_stays: "both_closed s \<Longrightarrow> both_closed (duplex_run f g es s)"
proof (induction es arbitrary: s)
  case (Cons e es)
  then have "both_closed (duplex_step f g e s)" by (cases e) (auto split: prod.splits)
  with Cons.IH show ?case by simp
qed simp

lemma frozen_up: "up_done s \<or> both_closed s \<Longrightarrow> up_side (duplex_run f g es s) = up_side s"
proof (induction es arbitrary: s)
  case (Cons e es)
  then have "up_done (duplex_step f g e s) \<or> both_closed (duplex_step f g e s)"
    by (cases e) (auto split: prod.splits)
  moreover have "up_side (duplex_step f g e s) = up_side s"
    using Cons.prems by (cases e) (auto split: prod.splits)
  ultimately show ?case using Cons.IH by simp
qed simp

text \<open>The two directions are symmetric.\<close>

definition mirror :: "('u, 'd) duplex \<Rightarrow> ('d, 'u) duplex" where
  "mirror s = \<lparr>up_side = down_side s, down_side = up_side s, up_done = down_done s, down_done = up_done s, both_closed = both_closed s\<rparr>"

fun mirror_event :: "('a, 'b) duplex_event \<Rightarrow> ('b, 'a) duplex_event" where
  "mirror_event (Up a) = Down a"
| "mirror_event (Down b) = Up b"
| "mirror_event CloseBoth = CloseBoth"

lemma mirror_simps [simp]:
  "up_side (mirror s) = down_side s" "down_side (mirror s) = up_side s" "up_done (mirror s) = down_done s"
  "down_done (mirror s) = up_done s" "both_closed (mirror s) = both_closed s"
  by (simp_all add: mirror_def)

lemma mirror_step: "mirror (duplex_step f g e s) = duplex_step g f (mirror_event e) (mirror s)"
  by (cases e) (auto simp: mirror_def split: prod.splits)

lemma mirror_run: "mirror (duplex_run f g es s) = duplex_run g f (map mirror_event es) (mirror s)"
  by (induction es arbitrary: s) (simp_all add: mirror_step)

lemma ups_mirror [simp]: "ups (map mirror_event es) = downs es"
  by (induction es rule: downs.induct) auto

lemma up_solo:
  "\<not> up_done s \<Longrightarrow> \<not> both_closed s \<Longrightarrow>
     \<exists>k. up_side (duplex_run f g es s) = snd (solo f (take k (ups es)) (up_side s))
       \<and> (\<not> both_closed (duplex_run f g es s) \<longrightarrow> length (ups es) \<le> k)"
proof (induction es arbitrary: s)
  case (Cons e es)
  show ?case
  proof (cases e)
    case (Up a)
    obtain fin u where f: "f a (up_side s) = (fin, u)" by (metis surj_pair)
    show ?thesis
    proof (cases fin)
      case True
      with Up f Cons.prems show ?thesis
        by (intro exI [of _ "length (ups (e # es))"]) (simp add: frozen_up)
    next
      case False
      let ?s = "s\<lparr>up_side := u, up_done := False\<rparr>"
      obtain k where "up_side (duplex_run f g es ?s) = snd (solo f (take k (ups es)) u)"
        "\<not> both_closed (duplex_run f g es ?s) \<longrightarrow> length (ups es) \<le> k"
        using Cons.IH [of ?s] Cons.prems by auto
      with Up f False Cons.prems show ?thesis by (intro exI [of _ "Suc k"]) simp
    qed
  next
    case (Down b)
    let ?s = "duplex_step f g e s"
    have "\<not> up_done ?s" "\<not> both_closed ?s" "up_side ?s = up_side s" using Cons.prems Down by (auto split: prod.splits)
    with Cons.IH [of ?s] Down show ?thesis by simp
  next
    case CloseBoth
    show ?thesis
    proof (cases "down_done s")
      case True
      with CloseBoth Cons.prems have "up_side (duplex_run f g (e # es) s) = up_side s" by (simp add: frozen_up)
      with CloseBoth Cons.prems True show ?thesis by (intro exI [of _ 0]) (simp add: closed_stays)
    next
      case False
      with CloseBoth Cons show ?thesis by simp
    qed
  qed
qed (simp add: exI [of _ 0])

lemma down_solo:
  assumes "\<not> down_done s" "\<not> both_closed s"
  shows "\<exists>k. down_side (duplex_run f g es s) = snd (solo g (take k (downs es)) (down_side s))
       \<and> (\<not> both_closed (duplex_run f g es s) \<longrightarrow> length (downs es) \<le> k)"
  using up_solo [of "mirror s" g f "map mirror_event es"] assms by (simp flip: mirror_run)

text \<open>When the connections were closed, one of the two loops had ended by itself.\<close>

lemma one_complete_gen:
  "\<not> both_closed s \<Longrightarrow> both_closed (duplex_run f g es s) \<Longrightarrow> \<not> up_done s \<Longrightarrow> \<not> down_done s \<Longrightarrow>
     solo f (ups es) (up_side s) = (True, up_side (duplex_run f g es s))
   \<or> solo g (downs es) (down_side s) = (True, down_side (duplex_run f g es s))"
proof (induction es arbitrary: s)
  case (Cons e es)
  show ?case
  proof (cases e)
    case (Up a)
    obtain fin u where f: "f a (up_side s) = (fin, u)" by (metis surj_pair)
    show ?thesis
    proof (cases fin)
      case True
      with Up f Cons.prems show ?thesis by (simp add: frozen_up)
    next
      case False
      with Up f Cons.prems Cons.IH [of "s\<lparr>up_side := u, up_done := False\<rparr>"] show ?thesis by simp
    qed
  next
    case (Down b)
    obtain fin d where g: "g b (down_side s) = (fin, d)" by (metis surj_pair)
    show ?thesis
    proof (cases fin)
      case True
      let ?s = "s\<lparr>down_side := d, down_done := True\<rparr>"
      have "down_side (duplex_run f g es ?s) = d"
        using frozen_up [of "mirror ?s" g f "map mirror_event es"] by (simp flip: mirror_run)
      with Down g True Cons.prems show ?thesis by simp
    next
      case False
      with Down g Cons.prems Cons.IH [of "s\<lparr>down_side := d, down_done := False\<rparr>"] show ?thesis by simp
    qed
  next
    case CloseBoth
    with Cons show ?thesis by simp
  qed
qed simp

lemma one_complete:
  assumes "both_closed (duplex_run f g es (duplex_init u d))"
  shows "solo f (ups es) u = (True, up_side (duplex_run f g es (duplex_init u d)))
   \<or> solo g (downs es) d = (True, down_side (duplex_run f g es (duplex_init u d)))"
  using one_complete_gen [of "duplex_init u d" f g es] assms by (simp add: duplex_init_def)

lemma init_up_solo:
  obtains k where "up_side (duplex_run f g es (duplex_init u d)) = snd (solo f (take k (ups es)) u)"
    "\<not> both_closed (duplex_run f g es (duplex_init u d)) \<Longrightarrow> length (ups es) \<le> k"
  using up_solo [of "duplex_init u d" f g es] by (auto simp: duplex_init_def)

lemma init_down_solo:
  obtains k where "down_side (duplex_run f g es (duplex_init u d)) = snd (solo g (take k (downs es)) d)"
    "\<not> both_closed (duplex_run f g es (duplex_init u d)) \<Longrightarrow> length (downs es) \<le> k"
  using down_solo [of "duplex_init u d" f g es] by (auto simp: duplex_init_def)

section \<open>Runs end\<close>

lemma enabled_or_finished: "finished s \<or> enabled (Up a) s \<or> enabled (Down b) s \<or> enabled CloseBoth s"
  by (auto simp: finished_def)

text \<open>When every iteration that does not end its loop makes a measure of the direction smaller, a
  schedule is bounded.\<close>

definition run_measure :: "('u \<Rightarrow> nat) \<Rightarrow> ('d \<Rightarrow> nat) \<Rightarrow> ('u, 'd) duplex \<Rightarrow> nat" where
  "run_measure mu md s = (if up_done s then 0 else Suc (mu (up_side s)))
     + (if down_done s then 0 else Suc (md (down_side s))) + (if both_closed s then 0 else 1)"

lemma step_measure:
  assumes "\<And>a u u'. f a u = (False, u') \<Longrightarrow> mu u' < mu u"
    and "\<And>b d d'. g b d = (False, d') \<Longrightarrow> md d' < md d"
    and "enabled e s"
  shows "run_measure mu md (duplex_step f g e s) < run_measure mu md s"
proof (cases e)
  case (Up a)
  obtain fin u where "f a (up_side s) = (fin, u)" by (metis surj_pair)
  with Up assms(1) [of a "up_side s" u] assms(3) show ?thesis by (cases fin) (auto simp: run_measure_def)
next
  case (Down b)
  obtain fin d where "g b (down_side s) = (fin, d)" by (metis surj_pair)
  with Down assms(2) [of b "down_side s" d] assms(3) show ?thesis by (cases fin) (auto simp: run_measure_def)
next
  case CloseBoth
  with assms(3) show ?thesis by (auto simp: run_measure_def)
qed

lemma schedule_bounded:
  assumes "\<And>a u u'. f a u = (False, u') \<Longrightarrow> mu u' < mu u"
    and "\<And>b d d'. g b d = (False, d') \<Longrightarrow> md d' < md d"
    and "schedule f g es s"
  shows "length es \<le> run_measure mu md s"
  using assms(3)
proof (induction es arbitrary: s)
  case (Cons e es)
  then have "enabled e s" "length es \<le> run_measure mu md (duplex_step f g e s)" by simp_all
  moreover have "run_measure mu md (duplex_step f g e s) < run_measure mu md s"
    by (rule step_measure) (fact assms(1) assms(2) calculation(1))+
  ultimately show ?case by simp
qed simp

section \<open>Copies\<close>

text \<open>One iteration of \<open>io.Copy\<close> with a buffer of \<open>n\<close> bytes: what was read is written, then a write
  error or the reader's error ends the loop. The state is the source and the chunks written.\<close>

definition copy_step ::
  "(nat \<Rightarrow> 's \<Rightarrow> read_result \<times> 's) \<Rightarrow> nat \<Rightarrow> bool \<Rightarrow> 's \<times> byte list list \<Rightarrow> bool \<times> 's \<times> byte list list" where
  "copy_step read n write_ok = (\<lambda>(s, out).
     case read n s of ((bs, e), s') \<Rightarrow>
       if bs \<noteq> [] then (if write_ok then (e \<noteq> None, s', out @ [bs]) else (True, s', out))
       else (e \<noteq> None, s', out))"

lemma copy_step_read:
  "read n s = ((bs, e), t) \<Longrightarrow> copy_step read n ok (s, out) =
     (if bs = [] then (e \<noteq> None, t, out) else if ok then (e \<noteq> None, t, out @ [bs]) else (True, t, out))"
  by (simp add: copy_step_def)

context byte_source
begin

lemma copy_step_shrinks:
  assumes "0 < n" and c: "copy_step read n ok (s, out) = (False, s', out')"
  shows "length (pending s') < length (pending s)"
proof -
  obtain bs e t where r: "read n s = ((bs, e), t)" by (metis surj_pair)
  with c have "e = None" "t = s'" by (auto simp: copy_step_read [of read, OF r] split: if_splits)
  with r read_progress [of n s bs t] assms(1) read_conserves [OF r] show ?thesis by (cases bs) auto
qed

lemma copy_prefix:
  "solo (copy_step read n) oks (s, out) = (fin, s', out') \<Longrightarrow>
     \<exists>ws. out' = out @ ws \<and> prefix (concat ws) (pending s)"
proof (induction oks arbitrary: s out)
  case (Cons ok oks)
  obtain bs e t where r: "read n s = ((bs, e), t)" by (metis surj_pair)
  note c = read_conserves [OF r]
  show ?case
  proof (cases "bs = [] \<or> \<not> ok \<or> e \<noteq> None")
    case True
    with Cons.prems Cons.IH [of t out] r c show ?thesis
      by (auto simp: copy_step_read [of read, OF r] split: if_splits)
  next
    case False
    with Cons.prems r have "solo (copy_step read n) oks (t, out @ [bs]) = (fin, s', out')"
      by (simp add: copy_step_read)
    then obtain ws where "out' = (out @ [bs]) @ ws" "prefix (concat ws) (pending t)"
      using Cons.IH by blast
    with c show ?thesis by (auto intro!: exI [of _ "bs # ws"])
  qed
qed simp

text \<open>While every write succeeds nothing is lost, and a loop that has ended has copied everything.\<close>

lemma copy_conserves:
  "False \<notin> set oks \<Longrightarrow> solo (copy_step read n) oks (s, out) = (fin, s', out') \<Longrightarrow>
     concat out' @ pending s' = concat out @ pending s \<and> (fin \<longrightarrow> pending s' = [])"
proof (induction oks arbitrary: s out)
  case (Cons ok oks)
  obtain bs e t where r: "read n s = ((bs, e), t)" by (metis surj_pair)
  note c = read_conserves [OF r]
  show ?case
  proof (cases e)
    case None
    have S: "solo (copy_step read n) oks (t, if bs = [] then out else out @ [bs]) = (fin, s', out')"
      using Cons.prems None by (cases "bs = []") (simp_all add: copy_step_read [of read, OF r])
    have "concat out' @ pending s' = concat (if bs = [] then out else out @ [bs]) @ pending t \<and> (fin \<longrightarrow> pending s' = [])"
      by (rule Cons.IH [OF _ S]) (use Cons.prems(1) in simp)
    with c show ?thesis by (simp split: if_splits)
  next
    case (Some x)
    with r read_error have "bs = []" "pending t = []" by blast+
    with Cons.prems Some c show ?thesis by (auto simp: copy_step_read [of read, OF r])
  qed
qed auto

end

end
