(* ===== verification/WsBridge.thy ===== *)
theory WsBridge
  imports Duplex
begin

text \<open>
  The forward data path: the server's bridge between an upgraded WebSocket and the target TCP
  connection (\<open>HandleUpgrade\<close> in \<open>internal/proxy/ws_handler.go\<close>) and the client's pairing of a
  local connection with a WebSocket (\<open>handlePair\<close> in \<open>internal/clienttunnel/tunnel.go\<close>), both as
  runs of two loops.
\<close>

section \<open>The server's bridge\<close>

text \<open>\<open>ReadMessage\<close> returns data messages only; the flag of an iteration tells whether its write
  succeeds.\<close>

datatype ws_type = TextMessage | BinaryMessage

datatype ws_event = WsMessage ws_type "byte list" bool | WsReadError

datatype tcp_event = TcpData "byte list" bool | TcpReadError

fun ws_to_target :: "ws_event \<Rightarrow> byte list \<Rightarrow> bool \<times> byte list" where
  "ws_to_target (WsMessage msgType data write_ok) out =
     (if msgType = BinaryMessage \<or> msgType = TextMessage then
        (if write_ok then (False, out @ data) else (True, out))
      else (False, out))"
| "ws_to_target WsReadError out = (True, out)"

fun tcp_to_ws :: "tcp_event \<Rightarrow> (ws_type \<times> byte list) list \<Rightarrow> bool \<times> (ws_type \<times> byte list) list" where
  "tcp_to_ws (TcpData buf write_ok) out = (if write_ok then (False, out @ [(BinaryMessage, buf)]) else (True, out))"
| "tcp_to_ws TcpReadError out = (True, out)"

type_synonym bridge = "(byte list, (ws_type \<times> byte list) list) duplex"

datatype upgrade_outcome = UpgradeFailed | DialFailed | Bridged bridge

definition HandleUpgrade ::
  "bool \<Rightarrow> (string \<Rightarrow> bool) \<Rightarrow> string \<Rightarrow> (ws_event, tcp_event) duplex_event list \<Rightarrow> upgrade_outcome" where
  "HandleUpgrade upgrade_ok dial_ok targetAddr es =
     (if \<not> upgrade_ok then UpgradeFailed
      else if \<not> dial_ok targetAddr then DialFailed
      else Bridged (duplex_run ws_to_target tcp_to_ws es (duplex_init [] [])))"

text \<open>What each side handed to the bridge until its loop ended.\<close>

fun ws_sent :: "ws_event list \<Rightarrow> byte list" where
  "ws_sent (WsMessage t data True # es) = data @ ws_sent es"
| "ws_sent _ = []"

fun tcp_sent :: "tcp_event list \<Rightarrow> byte list list" where
  "tcp_sent (TcpData data True # es) = data # tcp_sent es"
| "tcp_sent _ = []"

lemma ws_type_cases: "(t = BinaryMessage \<or> t = TextMessage) = True"
  by (cases t) auto

lemma solo_ws: "snd (solo ws_to_target es out) = out @ ws_sent es"
  by (induction es arbitrary: out rule: ws_sent.induct) (auto simp: ws_type_cases)

lemma solo_tcp: "snd (solo tcp_to_ws es out) = out @ map (Pair BinaryMessage) (tcp_sent es)"
  by (induction es arbitrary: out rule: tcp_sent.induct) auto

lemma ws_sent_take: "prefix (ws_sent (take k es)) (ws_sent es)"
  by (induction es arbitrary: k rule: ws_sent.induct) (auto simp: take_Cons split: nat.split)

lemma tcp_sent_take: "prefix (tcp_sent (take k es)) (tcp_sent es)"
  by (induction es arbitrary: k rule: tcp_sent.induct) (auto simp: take_Cons split: nat.split)

lemma bridge_prefixes:
  assumes "HandleUpgrade upgrade_ok dial_ok addr es = Bridged b"
  shows "prefix (up_side b) (ws_sent (ups es))"
    and "prefix (down_side b) (map (Pair BinaryMessage) (tcp_sent (downs es)))"
proof -
  have b: "b = duplex_run ws_to_target tcp_to_ws es (duplex_init [] [])"
    using assms by (simp add: HandleUpgrade_def split: if_splits)
  show "prefix (up_side b) (ws_sent (ups es))"
    using init_up_solo [of ws_to_target tcp_to_ws es "[]" "[]"] unfolding b solo_ws
    by (metis append_Nil ws_sent_take)
  show "prefix (down_side b) (map (Pair BinaryMessage) (tcp_sent (downs es)))"
    using init_down_solo [of ws_to_target tcp_to_ws es "[]" "[]"] unfolding b solo_tcp
    by (metis append_Nil map_mono_prefix tcp_sent_take)
qed

lemma inj_map_prefix_binary:
  "prefix (map (Pair BinaryMessage) xs) (map (Pair BinaryMessage) ys) \<longleftrightarrow> prefix xs ys"
proof (induction xs arbitrary: ys)
  case (Cons x xs)
  then show ?case by (cases ys) auto
qed simp

section \<open>The client's pairing\<close>

text \<open>
  \<open>io.Copy(remote, localConn)\<close> and \<open>io.Copy(localConn, remote)\<close>. Reading from the wrapper and writing
  to it touch different fields: the first copy only adds to \<open>ws_out\<close>, so that the written chunks stand
  for it. The result is the end of the run; \<open>None\<close> when the dial failed.
\<close>

type_synonym 's pairing = "('s \<times> byte list list, wsConnWrapper \<times> byte list list) duplex"

definition handlePair ::
  "wsConnWrapper option \<Rightarrow> (nat \<Rightarrow> 's \<Rightarrow> read_result \<times> 's) \<Rightarrow> 's \<Rightarrow> nat \<Rightarrow> (bool, bool) duplex_event list
     \<Rightarrow> 's pairing option" where
  "handlePair dialed local_read local_src n es =
     (case dialed of
        None \<Rightarrow> None
      | Some w \<Rightarrow> Some (duplex_run (copy_step local_read n) (copy_step wsConnWrapper_Read n) es
          (duplex_init (local_src, ws_out w) (w, []))))"

text \<open>The messages the client wrote and the chunks its local connection received.\<close>

abbreviation messages_out :: "'s pairing \<Rightarrow> byte list list" where
  "messages_out p \<equiv> snd (up_side p)"

abbreviation delivered_local :: "'s pairing \<Rightarrow> byte list list" where
  "delivered_local p \<equiv> snd (down_side p)"

text \<open>A chunk of the copy is one \<open>Write\<close> on the wrapper, a binary message.\<close>

lemma copy_write:
  "ws_out (snd (wsConnWrapper_Write ok b w)) = (if ok then ws_out w @ [b] else ws_out w)"
  "ws_in (snd (wsConnWrapper_Write ok b w)) = ws_in w" "ws_reader (snd (wsConnWrapper_Write ok b w)) = ws_reader w"
  by (simp_all add: wsConnWrapper_Write_def)

context byte_source
begin

lemma pair_up:
  assumes "handlePair (Some w) read s n es = Some p"
  shows "\<exists>ws. messages_out p = ws_out w @ ws \<and> prefix (concat ws) (pending s)"
proof -
  have p: "p = duplex_run (copy_step read n) (copy_step wsConnWrapper_Read n) es (duplex_init (s, ws_out w) (w, []))"
    using assms by (simp add: handlePair_def)
  then obtain k where "up_side p = snd (solo (copy_step read n) (take k (ups es)) (s, ws_out w))"
    using init_up_solo by metis
  then show ?thesis using copy_prefix [of n "take k (ups es)" s "ws_out w"] by (metis prod.collapse)
qed

end

lemma pair_down:
  assumes "handlePair (Some w) read s n es = Some p"
  shows "prefix (concat (delivered_local p)) (ws_pending w)"
proof -
  have p: "p = duplex_run (copy_step read n) (copy_step wsConnWrapper_Read n) es (duplex_init (s, ws_out w) (w, []))"
    using assms by (simp add: handlePair_def)
  then obtain k where "down_side p = snd (solo (copy_step wsConnWrapper_Read n) (take k (downs es)) (w, []))"
    using init_down_solo by metis
  then show ?thesis using ws.copy_prefix [of n "take k (downs es)" w "[]"] by (metis append_Nil prod.collapse)
qed

text \<open>While no write fails, one of the directions is complete when the connections are closed.\<close>

lemma pair_one_complete:
  assumes src: "byte_source read pending" and h: "handlePair (Some w) read s n es = Some p"
    and ok: "False \<notin> set (ups es)" "False \<notin> set (downs es)" and c: "both_closed p"
  shows "concat (messages_out p) = concat (ws_out w) @ pending s \<or> concat (delivered_local p) = ws_pending w"
proof -
  have p: "p = duplex_run (copy_step read n) (copy_step wsConnWrapper_Read n) es (duplex_init (s, ws_out w) (w, []))"
    using h by (simp add: handlePair_def)
  with c have "solo (copy_step read n) (ups es) (s, ws_out w) = (True, up_side p)
      \<or> solo (copy_step wsConnWrapper_Read n) (downs es) (w, []) = (True, down_side p)"
    using one_complete [of "copy_step read n" "copy_step wsConnWrapper_Read n" es] by simp
  then show ?thesis
  proof
    assume "solo (copy_step read n) (ups es) (s, ws_out w) = (True, up_side p)"
    with byte_source.copy_conserves [OF src ok(1), of n s "ws_out w" True "fst (up_side p)" "snd (up_side p)"]
    show ?thesis by auto
  next
    assume "solo (copy_step wsConnWrapper_Read n) (downs es) (w, []) = (True, down_side p)"
    with ws.copy_conserves [OF ok(2), of n w "[]" True "fst (down_side p)" "snd (down_side p)"]
    show ?thesis by auto
  qed
qed

text \<open>The payloads the server's loop reads.\<close>

fun ws_payloads :: "ws_event list \<Rightarrow> byte list list" where
  "ws_payloads [] = []"
| "ws_payloads (WsMessage t data ok # es) = data # ws_payloads es"
| "ws_payloads (WsReadError # es) = ws_payloads es"

lemma ws_sent_payloads: "prefix (ws_sent es) (concat (ws_payloads es))"
  by (induction es rule: ws_sent.induct) auto

lemma concat_prefix: "prefix xs ys \<Longrightarrow> prefix (concat xs) (concat ys)"
  by (auto simp: prefix_def)

lemma schedule_snoc: "schedule f g (es @ [e]) s \<longleftrightarrow> schedule f g es s \<and> enabled e (duplex_run f g es s)"
  by (induction es arbitrary: s) auto

text \<open>Reading from the wrapper, case by case.\<close>

lemma ws_Read_simps:
  "ws_reader w = None \<Longrightarrow> ws_in w = [] \<Longrightarrow> wsConnWrapper_Read n w = (([], Some ConnErr), w)"
  "ws_reader w = None \<Longrightarrow> ws_in w = m # ms \<Longrightarrow>
     wsConnWrapper_Read n w = wsConnWrapper_Read n (w\<lparr>ws_in := ms, ws_reader := Some \<lparr>br_data = m, br_pos = 0\<rparr>\<rparr>)"
  "ws_reader w = Some r \<Longrightarrow> length (br_data r) \<le> br_pos r \<Longrightarrow>
     wsConnWrapper_Read n w = wsConnWrapper_Read n (w\<lparr>ws_reader := None\<rparr>)"
  "ws_reader w = Some r \<Longrightarrow> br_pos r < length (br_data r) \<Longrightarrow>
     wsConnWrapper_Read n w = (fst (byteReader_Read n r), w\<lparr>ws_reader := Some (snd (byteReader_Read n r))\<rparr>)"
  by (auto simp: wsConnWrapper_Read.simps [of n w] byteReader_Read_def Let_def)

section \<open>Properties\<close>

text \<open>C3: Transparency of the server's bridge. Whatever the interleaving of the two loops and of the
  closing, and wherever they fail, what the target has received is a prefix of the payloads handed to
  the WebSocket loop until its first failure, and what the WebSocket has received is a prefix of the
  chunks read from the target until then, one binary message each. Nothing is missing while the
  connections are open, and when they are closed one of the directions is complete.\<close>

theorem bridge_transparent:
  assumes "HandleUpgrade upgrade_ok dial_ok addr es = Bridged b"
  shows "prefix (up_side b) (ws_sent (ups es))
    \<and> prefix (down_side b) (map (Pair BinaryMessage) (tcp_sent (downs es)))
    \<and> (if both_closed b
       then up_side b = ws_sent (ups es) \<or> down_side b = map (Pair BinaryMessage) (tcp_sent (downs es))
       else up_side b = ws_sent (ups es) \<and> down_side b = map (Pair BinaryMessage) (tcp_sent (downs es)))"
proof -
  have b: "b = duplex_run ws_to_target tcp_to_ws es (duplex_init [] [])"
    using assms by (simp add: HandleUpgrade_def split: if_splits)
  obtain k where k: "up_side b = ws_sent (take k (ups es))" "\<not> both_closed b \<Longrightarrow> length (ups es) \<le> k"
    using init_up_solo [of ws_to_target tcp_to_ws es "[]" "[]"] unfolding b solo_ws by auto
  obtain j where j: "down_side b = map (Pair BinaryMessage) (tcp_sent (take j (downs es)))"
      "\<not> both_closed b \<Longrightarrow> length (downs es) \<le> j"
    using init_down_solo [of ws_to_target tcp_to_ws es "[]" "[]"] unfolding b solo_tcp by auto
  have "up_side b = ws_sent (ups es) \<or> down_side b = map (Pair BinaryMessage) (tcp_sent (downs es))" if "both_closed b"
    using one_complete [OF that [unfolded b]] solo_ws [of "ups es" "[]"] solo_tcp [of "downs es" "[]"]
    unfolding b [symmetric] by auto
  with k j show ?thesis
    by (simp add: ws_sent_take tcp_sent_take map_mono_prefix)
qed

definition demo_bridge_run :: "(ws_event, tcp_event) duplex_event list" where
  "demo_bridge_run = [Up (WsMessage TextMessage [1, 2] True), Down (TcpData [9] True), Down TcpReadError,
     Up (WsMessage BinaryMessage [3] True), CloseBoth, Up (WsMessage BinaryMessage [4] True)]"

lemma demo_bridge:
  "HandleUpgrade True (\<lambda>_. True) ''t:1'' demo_bridge_run = Bridged \<lparr>up_side = [1, 2, 3],
     down_side = [(BinaryMessage, [9])], up_done = True, down_done = True, both_closed = True\<rparr>"
  by (simp add: HandleUpgrade_def demo_bridge_run_def duplex_init_def)

theorem bridge_transparent_witness:
  "prefix [1, 2, 3] (ws_sent (ups demo_bridge_run))
     \<and> ws_sent (ups demo_bridge_run) = [1, 2, 3, 4] \<and> tcp_sent (downs demo_bridge_run) = [[9]]"
  using bridge_transparent [OF demo_bridge] by (simp add: demo_bridge_run_def)


definition demo_wrapper :: wsConnWrapper where
  "demo_wrapper = \<lparr>ws_in = [[7], [8, 9]], ws_out = [], ws_reader = None\<rparr>"

definition demo_local :: byteReader where
  "demo_local = \<lparr>br_data = [1, 2, 3], br_pos = 0\<rparr>"

definition demo_pair_run :: "(bool, bool) duplex_event list" where
  "demo_pair_run = [Up True, Down True, Up True, Up True, CloseBoth, Down True]"

lemma demo_pairing:
  "\<exists>p. handlePair (Some demo_wrapper) byteReader_Read demo_local 2 demo_pair_run = Some p
     \<and> messages_out p = [[1, 2], [3]] \<and> delivered_local p = [[7]] \<and> finished p
     \<and> schedule (copy_step byteReader_Read 2) (copy_step wsConnWrapper_Read 2) demo_pair_run
         (duplex_init (demo_local, ws_out demo_wrapper) (demo_wrapper, []))"
  by (simp add: handlePair_def demo_pair_run_def demo_wrapper_def demo_local_def duplex_init_def copy_step_def
      byteReader_Read_def ws_Read_simps Let_def finished_def)

lemma demo_forward_bridge:
  "HandleUpgrade True (\<lambda>_. True) ''t:1'' [Up (WsMessage BinaryMessage [1, 2] True), Down (TcpData [7] True),
      Up (WsMessage BinaryMessage [3] True), Down (TcpData [8, 9] True)] = Bridged \<lparr>up_side = [1, 2, 3],
     down_side = [(BinaryMessage, [7]), (BinaryMessage, [8, 9])], up_done = False, down_done = False, both_closed = False\<rparr>"
  by (simp add: HandleUpgrade_def duplex_init_def)


text \<open>C4: Pairing a connection always ends. In every schedule of \<open>handlePair\<close>, each iteration of the two
  copies moves at least one byte or is the last one, so that a schedule has at most three events more
  than there are bytes to move; and a run that has not ended both goroutines and closed both connections
  can always go on. So no goroutine outlives the pairing.\<close>

theorem pairing_ends:
  assumes src: "byte_source local_read pending" and n: "0 < n"
    and h: "handlePair (Some w) local_read s n es = Some p"
    and es: "schedule (copy_step local_read n) (copy_step wsConnWrapper_Read n) es (duplex_init (s, ws_out w) (w, []))"
  shows "length es \<le> length (pending s) + length (ws_pending w) + 3
    \<and> (finished p \<or> (\<exists>e. schedule (copy_step local_read n) (copy_step wsConnWrapper_Read n) (es @ [e])
           (duplex_init (s, ws_out w) (w, []))))"
proof -
  let ?f = "copy_step local_read n" and ?g = "copy_step wsConnWrapper_Read n"
  let ?mu = "\<lambda>(s, out :: byte list list). length (pending s)"
  let ?md = "\<lambda>(w, out :: byte list list). length (ws_pending w)"
  have "length es \<le> run_measure ?mu ?md (duplex_init (s, ws_out w) (w, []))"
  proof (rule schedule_bounded [OF _ _ es])
    show "?mu u' < ?mu u" if "?f a u = (False, u')" for a u u'
      using byte_source.copy_step_shrinks [OF src n, of a "fst u" "snd u" "fst u'" "snd u'"] that
      by (simp add: case_prod_beta)
    show "?md d' < ?md d" if "?g b d = (False, d')" for b d d'
      using ws.copy_step_shrinks [OF n, of b "fst d" "snd d" "fst d'" "snd d'"] that
      by (simp add: case_prod_beta)
  qed
  moreover have "p = duplex_run ?f ?g es (duplex_init (s, ws_out w) (w, []))"
    using h by (simp add: handlePair_def)
  ultimately show ?thesis
    using enabled_or_finished [of p True True] es schedule_snoc by (fastforce simp: run_measure_def duplex_init_def)
qed

theorem pairing_ends_witness:
  "length demo_pair_run \<le> length (br_pending demo_local) + length (ws_pending demo_wrapper) + 3"
proof -
  obtain p where "handlePair (Some demo_wrapper) byteReader_Read demo_local 2 demo_pair_run = Some p"
    and "schedule (copy_step byteReader_Read 2) (copy_step wsConnWrapper_Read 2) demo_pair_run
         (duplex_init (demo_local, ws_out demo_wrapper) (demo_wrapper, []))"
    using demo_pairing by blast
  from pairing_ends [OF br.byte_source_axioms _ this] show ?thesis by simp
qed

text \<open>The end of one direction cuts the other: when the local side has only finished sending (a
  half-closed connection), the pairing closes both connections, whatever replies are still to come.\<close>

lemma half_close_cuts_replies:
  assumes "local_read n s = (([], Some EOF), s')"
    and "handlePair (Some w) local_read s n [Up True, CloseBoth, Down True] = Some p"
  shows "finished p \<and> delivered_local p = []"
  using assms by (auto simp: handlePair_def duplex_init_def copy_step_def finished_def)

end
