(* ===== verification/Sha1.thy ===== *)
theory Sha1
  imports GoStd
begin

unbundle bit_operations_syntax

text \<open>
  \<open>crypto/sha1\<close> as FIPS 180-4 defines it, on 32-bit words: padding, message schedule, the eighty
  rounds, and the big-endian digest. The signature of the access control is built on it.
\<close>

type_synonym w32 = "32 word"
type_synonym sha_state = "w32 \<times> w32 \<times> w32 \<times> w32 \<times> w32"

definition be32 :: "byte list \<Rightarrow> w32" where
  "be32 bs = word_rcat bs"

definition w32_bytes :: "w32 \<Rightarrow> byte list" where
  "w32_bytes w = map (\<lambda>i. ucast (drop_bit i w)) [24, 16, 8, 0]"

definition be64_bytes :: "nat \<Rightarrow> byte list" where
  "be64_bytes n =
     map (\<lambda>i. ucast (drop_bit i (of_nat n :: 64 word))) [56, 48, 40, 32, 24, 16, 8, 0]"

definition sha1_pad :: "byte list \<Rightarrow> byte list" where
  "sha1_pad m = m @ [128] @ replicate ((119 - length m mod 64) mod 64) 0 @ be64_bytes (8 * length m)"

fun chunks :: "nat \<Rightarrow> 'a list \<Rightarrow> 'a list list" where
  "chunks 0 xs = []"
| "chunks (Suc n) [] = []"
| "chunks (Suc n) (x # xs) = take (Suc n) (x # xs) # chunks (Suc n) (drop n xs)"

text \<open>The schedule is extended at the end, newest word first: \<open>ws ! 2\<close> is \<open>w[t-3]\<close>.\<close>

fun sha1_extend :: "nat \<Rightarrow> w32 list \<Rightarrow> w32 list" where
  "sha1_extend 0 ws = ws"
| "sha1_extend (Suc n) ws =
     sha1_extend n (word_rotl 1 (ws ! 2 XOR ws ! 7 XOR ws ! 13 XOR ws ! 15) # ws)"

definition sha1_schedule :: "byte list \<Rightarrow> w32 list" where
  "sha1_schedule block = rev (sha1_extend 64 (rev (map be32 (chunks 4 block))))"

definition sha1_f :: "nat \<Rightarrow> w32 \<Rightarrow> w32 \<Rightarrow> w32 \<Rightarrow> w32" where
  "sha1_f t b c d =
     (if t < 20 then (b AND c) OR (NOT b AND d)
      else if t < 40 then b XOR c XOR d
      else if t < 60 then (b AND c) OR (b AND d) OR (c AND d)
      else b XOR c XOR d)"

definition sha1_k :: "nat \<Rightarrow> w32" where
  "sha1_k t = (if t < 20 then 0x5A827999 else if t < 40 then 0x6ED9EBA1
     else if t < 60 then 0x8F1BBCDC else 0xCA62C1D6)"

fun sha1_rounds :: "nat \<Rightarrow> w32 list \<Rightarrow> sha_state \<Rightarrow> sha_state" where
  "sha1_rounds t [] s = s"
| "sha1_rounds t (w # ws) (a, b, c, d, e) =
     sha1_rounds (Suc t) ws
       (word_rotl 5 a + sha1_f t b c d + e + sha1_k t + w, a, word_rotl 30 b, c, d)"

definition sha1_block :: "byte list \<Rightarrow> sha_state \<Rightarrow> sha_state" where
  "sha1_block blk s =
     (case s of (h0, h1, h2, h3, h4) \<Rightarrow>
       case sha1_rounds 0 (sha1_schedule blk) s of (a, b, c, d, e) \<Rightarrow>
         (h0 + a, h1 + b, h2 + c, h3 + d, h4 + e))"

definition sha1_init :: sha_state where
  "sha1_init = (0x67452301, 0xEFCDAB89, 0x98BADCFE, 0x10325476, 0xC3D2E1F0)"

text \<open>\<open>sha1.Sum\<close>\<close>

definition sha1_sum :: "byte list \<Rightarrow> byte list" where
  "sha1_sum m =
     (case fold sha1_block (chunks 64 (sha1_pad m)) sha1_init of
        (a, b, c, d, e) \<Rightarrow> concat (map w32_bytes [a, b, c, d, e]))"

lemma length_sha1_sum [simp]: "length (sha1_sum m) = 20"
  by (simp add: sha1_sum_def w32_bytes_def split: prod.splits)

end
