(* ===== verification/AccessAuth.thy ===== *)
theory AccessAuth
  imports Sha1
begin

text \<open>
  Access control: the key list of \<open>internal/config/access_auth.go\<close> and the request verification of
  \<open>internal/api/access_auth.go\<close>. An HTTP request is its method and the lookup functions
  \<open>Header.Get\<close> and \<open>URL.Query().Get\<close>, which return the empty string for an absent name; the clock
  is an argument (seconds since the epoch). The locale \<open>keyed_signature\<close> is the contract between
  the signing client and the verifying server.
\<close>

section \<open>The configured keys\<close>

record AccessAuth =
  APIKey :: string

definition ParseAPIKeyTokens :: "string \<Rightarrow> string list" where
  "ParseAPIKeyTokens csv =
     (let s = trim_space csv
      in if s = [] then []
         else filter (\<lambda>t. t \<noteq> []) (map trim_space (split_on (CHR '','') s)))"

definition UnifiedTokens :: "AccessAuth \<Rightarrow> string list" where
  "UnifiedTokens a = ParseAPIKeyTokens (APIKey a)"

definition AuthEnabled :: "AccessAuth \<Rightarrow> bool" where
  "AuthEnabled a \<longleftrightarrow> length (UnifiedTokens a) > 0"

lemma token_shape:
  assumes "t \<in> set (ParseAPIKeyTokens csv)"
  shows "t \<noteq> []" "trim_space t = t" "CHR '','' \<notin> set t"
proof -
  from assms obtain p where p: "p \<in> set (split_on (CHR '','') (trim_space csv))"
    and t: "t = trim_space p" "t \<noteq> []"
    by (auto simp: ParseAPIKeyTokens_def Let_def split: if_splits)
  from t show "t \<noteq> []" "trim_space t = t" by simp_all
  from split_on_no_sep [OF p] set_trim_space [of p] t show "CHR '','' \<notin> set t" by blast
qed

section \<open>Signing\<close>

definition SignAccessPayload :: "string \<Rightarrow> string \<Rightarrow> string \<Rightarrow> string" where
  "SignAccessPayload accessKey unixSec secretKey =
     (let canonical = trim_space accessKey @ [CHR 0x0A] @ trim_space unixSec @ [CHR 0x0A]
                        @ trim_space secretKey
      in hex_encode (sha1_sum (bytes_of canonical)))"

text \<open>\<open>subtle.ConstantTimeCompare\<close>: the differences of all byte pairs are accumulated.\<close>

definition ConstantTimeCompare :: "byte list \<Rightarrow> byte list \<Rightarrow> nat" where
  "ConstantTimeCompare x y =
     (if length x \<noteq> length y then 0
      else if foldl (\<lambda>v (a, b). v OR (a XOR b)) 0 (zip x y) = 0 then 1 else 0)"

definition subtleStringEq :: "string \<Rightarrow> string \<Rightarrow> bool" where
  "subtleStringEq a b =
     (if length a \<noteq> length b then False else ConstantTimeCompare (bytes_of a) (bytes_of b) = 1)"

definition verifySigAgainst :: "string \<Rightarrow> string \<Rightarrow> bool" where
  "verifySigAgainst expectHexLower got =
     (let want = to_lower (trim_space expectHexLower); got = to_lower (trim_space got)
      in if length want \<noteq> length got then False
         else ConstantTimeCompare (bytes_of want) (bytes_of got) = 1)"

lemma fold_xor_zero:
  "length x = length y \<Longrightarrow>
     foldl (\<lambda>v (a, b). v OR (a XOR b)) v (zip x y) = (0 :: byte) \<longleftrightarrow> v = 0 \<and> x = y"
proof (induction x y arbitrary: v rule: list_induct2)
  case (Cons a x b y)
  have "v OR (a XOR b) = 0 \<longleftrightarrow> v = 0 \<and> a = b"
    by (metis bit.xor_left_self or_eq_0_iff xor.right_neutral)
  with Cons show ?case by auto
qed simp

lemma ConstantTimeCompare_eq [simp]: "ConstantTimeCompare x y = Suc 0 \<longleftrightarrow> x = y"
  by (auto simp: ConstantTimeCompare_def fold_xor_zero)

lemma subtleStringEq_iff [simp]: "subtleStringEq a b \<longleftrightarrow> a = b"
  by (auto simp: subtleStringEq_def)

lemma verifySigAgainst_iff:
  "verifySigAgainst want got \<longleftrightarrow> to_lower (trim_space want) = to_lower (trim_space got)"
  by (auto simp: verifySigAgainst_def Let_def dest: arg_cong [of _ _ length])

text \<open>The documented signature of a key \<open>k\<close>: \<open>HEX(SHA1(k + "\n" + ts + "\n" + k))\<close>.\<close>

definition key_signature :: "string \<Rightarrow> string \<Rightarrow> string" where
  "key_signature k ts = hex_encode (sha1_sum (bytes_of (k @ [CHR 0x0A] @ ts @ [CHR 0x0A] @ k)))"

lemma SignAccessPayload_key:
  "trim_space k = k \<Longrightarrow> trim_space ts = ts \<Longrightarrow> SignAccessPayload k ts k = key_signature k ts"
  by (simp add: SignAccessPayload_def key_signature_def)

definition canon_sig :: "string \<Rightarrow> string" where
  "canon_sig g = to_lower (trim_space g)"

locale keyed_signature =
  fixes sign :: "string \<Rightarrow> string \<Rightarrow> string"
    and check :: "string \<Rightarrow> string \<Rightarrow> bool"
    and canon :: "string \<Rightarrow> string"
  assumes check_canon: "check (sign k t) g \<longleftrightarrow> canon g = sign k t"
    and canon_sign: "canon (sign k t) = sign k t"
begin

lemma own_signature: "check (sign k t) (sign k t)"
  by (simp add: check_canon canon_sign)

lemma canonical_signature: "canon g = sign k t \<Longrightarrow> check (sign k t) g"
  by (simp add: check_canon)

lemma accepted_by_two_is_collision:
  "check (sign k t) g \<Longrightarrow> check (sign k' t') g \<Longrightarrow> sign k t = sign k' t'"
  by (simp add: check_canon)

end

interpretation sg: keyed_signature key_signature verifySigAgainst canon_sig
  by unfold_locales (auto simp: verifySigAgainst_iff canon_sig_def key_signature_def)

section \<open>Verifying a request\<close>

record http_request =
  req_method :: string
  header :: "string \<Rightarrow> string"
  query :: "string \<Rightarrow> string"

datatype auth_error =
    MissingAuthParams | InvalidTimestamp | TimestampSkew | InvalidSignature | InvalidKey
  | InvalidCredential

definition maxClockSkew :: int where
  "maxClockSkew = 5 * 60"

definition req_ak :: "http_request \<Rightarrow> string" where
  "req_ak r =
     (let hk = trim_space (header r ''X-Psp-Ak'')
      in if hk \<noteq> [] then hk else trim_space (query r ''psp_ak''))"

definition req_ts :: "http_request \<Rightarrow> string" where
  "req_ts r =
     (let ts = trim_space (header r ''X-Psp-Timestamp'')
      in if ts = [] then trim_space (query r ''psp_ts'') else ts)"

definition req_sig :: "http_request \<Rightarrow> string" where
  "req_sig r =
     (let sig = trim_space (header r ''X-Psp-Signature'')
      in if sig = [] then trim_space (query r ''psp_sig'') else sig)"

fun check_tokens :: "string list \<Rightarrow> string \<Rightarrow> string \<Rightarrow> string \<Rightarrow> auth_error option" where
  "check_tokens [] ak ts sig = Some InvalidKey"
| "check_tokens (tok # toks) ak ts sig =
     (if \<not> subtleStringEq ak tok then check_tokens toks ak ts sig
      else if verifySigAgainst (SignAccessPayload tok ts tok) sig then None
      else Some InvalidSignature)"

text \<open>The result is the Go \<open>error\<close>: \<open>None\<close> admits the request.\<close>

definition VerifyAccessAuth :: "AccessAuth \<Rightarrow> int \<Rightarrow> http_request \<Rightarrow> auth_error option" where
  "VerifyAccessAuth authCfg nowUnix r =
     (if \<not> AuthEnabled authCfg \<or> req_method r = ''OPTIONS'' then None
      else
        let ak = req_ak r; ts = req_ts r; sig = req_sig r
        in if ak = [] \<or> ts = [] \<or> sig = [] then Some MissingAuthParams
           else (case parse_int ts of
                   None \<Rightarrow> Some InvalidTimestamp
                 | Some sec \<Rightarrow>
                     if sec < i64 (nowUnix - maxClockSkew) \<or> sec > i64 (nowUnix + maxClockSkew)
                     then Some TimestampSkew
                     else check_tokens (UnifiedTokens authCfg) ak ts sig))"

fun plain_match :: "string list \<Rightarrow> string \<Rightarrow> bool" where
  "plain_match [] api \<longleftrightarrow> False"
| "plain_match (tok # toks) api \<longleftrightarrow> subtleStringEq api tok \<or> plain_match toks api"

definition VerifyPlainCredential :: "AccessAuth \<Rightarrow> string \<Rightarrow> auth_error option" where
  "VerifyPlainCredential authCfg apiKeySubmitted =
     (if \<not> AuthEnabled authCfg then None
      else let api = trim_space apiKeySubmitted
           in if api = [] then Some InvalidCredential
              else if plain_match (UnifiedTokens authCfg) api then None
              else Some InvalidCredential)"

text \<open>\<open>GinAccessAuthMiddleware\<close>: the handlers behind it run only when the request verifies;
  otherwise it aborts with 401.\<close>

definition GinAccessAuthMiddleware ::
  "AccessAuth \<Rightarrow> int \<Rightarrow> http_request \<Rightarrow> ('s \<Rightarrow> 'r \<times> 's) \<Rightarrow> (auth_error \<Rightarrow> 'r) \<Rightarrow> 's \<Rightarrow> 'r \<times> 's" where
  "GinAccessAuthMiddleware authCfg nowUnix r next_handler abort401 s =
     (case VerifyAccessAuth authCfg nowUnix r of
        Some e \<Rightarrow> (abort401 e, s)
      | None \<Rightarrow> next_handler s)"

lemma req_trimmed [simp]:
  "trim_space (req_ak r) = req_ak r" "trim_space (req_ts r) = req_ts r"
  "trim_space (req_sig r) = req_sig r"
  by (simp_all add: req_ak_def req_ts_def req_sig_def Let_def)

lemma check_tokens_spec:
  "(\<And>t. t \<in> set toks \<Longrightarrow> trim_space t = t) \<Longrightarrow> trim_space ts = ts \<Longrightarrow>
   check_tokens toks ak ts sig =
     (if ak \<notin> set toks then Some InvalidKey
      else if canon_sig sig = key_signature ak ts then None else Some InvalidSignature)"
  by (induction toks) (auto simp: SignAccessPayload_key sg.check_canon)

lemma check_UnifiedTokens:
  "trim_space ts = ts \<Longrightarrow> check_tokens (UnifiedTokens a) ak ts sig =
     (if ak \<notin> set (UnifiedTokens a) then Some InvalidKey
      else if canon_sig sig = key_signature ak ts then None else Some InvalidSignature)"
  by (rule check_tokens_spec) (auto simp: UnifiedTokens_def dest: token_shape)

lemma plain_match_iff: "plain_match toks api \<longleftrightarrow> api \<in> set toks"
  by (induction toks) auto

text \<open>The clock values for which \<open>now - skew\<close> and \<open>now + skew\<close> do not overflow \<open>int64\<close>.\<close>

definition sane_clock :: "int \<Rightarrow> bool" where
  "sane_clock now \<longleftrightarrow> \<bar>now\<bar> < 2 ^ 62"

lemma sane_clock_i64:
  "sane_clock now \<Longrightarrow> i64 (now - maxClockSkew) = now - maxClockSkew \<and> i64 (now + maxClockSkew) = now + maxClockSkew"
  by (intro conjI i64_id) (auto simp: sane_clock_def in_int64_def maxClockSkew_def)

section \<open>Writing and reading the key list\<close>

text \<open>A key as an operator writes it: not empty, no comma, no blank at either end.\<close>

definition plain_key :: "string \<Rightarrow> bool" where
  "plain_key k \<longleftrightarrow> k \<noteq> [] \<and> CHR '','' \<notin> set k \<and> hd k \<notin> space_heads \<and> last k \<notin> space_lasts"

fun join_keys :: "string list \<Rightarrow> string" where
  "join_keys [] = []"
| "join_keys [k] = k"
| "join_keys (k # ks) = k @ CHR '','' # join_keys ks"

lemma join_keys_ends:
  "ks \<noteq> [] \<Longrightarrow> list_all plain_key ks \<Longrightarrow>
     join_keys ks \<noteq> [] \<and> hd (join_keys ks) \<notin> space_heads \<and> last (join_keys ks) \<notin> space_lasts"
  by (induction ks rule: join_keys.induct) (auto simp: plain_key_def)

lemma split_join_keys:
  "ks \<noteq> [] \<Longrightarrow> list_all plain_key ks \<Longrightarrow> split_on (CHR '','') (join_keys ks) = ks"
  by (induction ks rule: join_keys.induct) (auto simp: plain_key_def split_on_append split_on_atom)

lemma parse_join_keys:
  assumes "list_all plain_key ks"
  shows "ParseAPIKeyTokens (join_keys ks) = ks"
proof (cases "ks = []")
  case False
  have k: "trim_space k = k \<and> k \<noteq> []" if "k \<in> set ks" for k
    using assms that by (auto simp: list_all_iff plain_key_def intro: trim_space_plain)
  then have "map trim_space ks = ks" "filter (\<lambda>t. t \<noteq> []) ks = ks"
    by (auto simp: map_idI filter_id_conv)
  with False join_keys_ends [OF False assms] split_join_keys [OF False assms] show ?thesis
    by (simp add: ParseAPIKeyTokens_def trim_space_plain)
qed (simp add: ParseAPIKeyTokens_def)

lemma VerifyAccessAuth_iff:
  assumes "AuthEnabled a" "req_method r \<noteq> ''OPTIONS''" "sane_clock now"
  shows "VerifyAccessAuth a now r = None \<longleftrightarrow>
    req_ak r \<in> set (UnifiedTokens a)
    \<and> (\<exists>sec. parse_int (req_ts r) = Some sec \<and> \<bar>sec - now\<bar> \<le> 300)
    \<and> canon_sig (req_sig r) = key_signature (req_ak r) (req_ts r)"
proof -
  have nonempty: "req_ak r \<noteq> []" if "req_ak r \<in> set (UnifiedTokens a)"
    using that by (auto simp: UnifiedTokens_def dest: token_shape)
  have "req_ts r \<noteq> []" if "parse_int (req_ts r) = Some sec" for sec
    using that by (auto simp: parse_int_def Let_def)
  moreover have "req_sig r \<noteq> []" if "canon_sig (req_sig r) = key_signature k t" for k t
  proof
    assume "req_sig r = []"
    with that have "length (key_signature k t) = 0" by (simp add: canon_sig_def flip: that)
    then show False by (simp add: key_signature_def)
  qed
  ultimately show ?thesis
    using assms nonempty sane_clock_i64 [OF assms(3)]
    by (auto simp: VerifyAccessAuth_def Let_def check_UnifiedTokens maxClockSkew_def split: option.splits)
qed

section \<open>Properties\<close>

text \<open>C13: Access control decides exactly the documented rule. With authentication enabled, a
  request other than OPTIONS is admitted if and only if it names one of the configured keys, its
  timestamp is a decimal 64-bit integer within five minutes of the server's clock, and its
  signature is, up to blanks and case, HEX(SHA1(k LF ts LF k)) of that key and that timestamp.\<close>

theorem access_auth_sound_complete:
  assumes "AuthEnabled a" "req_method r \<noteq> ''OPTIONS''" "sane_clock now"
  shows "VerifyAccessAuth a now r = None \<longleftrightarrow>
    req_ak r \<in> set (UnifiedTokens a)
    \<and> (\<exists>sec. parse_int (req_ts r) = Some sec \<and> \<bar>sec - now\<bar> \<le> 300)
    \<and> canon_sig (req_sig r) = key_signature (req_ak r) (req_ts r)"
  using assms by (rule VerifyAccessAuth_iff)

theorem access_auth_sound_complete_witness:
  "VerifyAccessAuth \<lparr>APIKey = ''k1,k2''\<rparr> 1000
     \<lparr>req_method = ''GET'',
      header = (\<lambda>n. if n = ''X-Psp-Ak'' then ''k2'' else if n = ''X-Psp-Timestamp'' then ''1300''
        else if n = ''X-Psp-Signature'' then key_signature ''k2'' ''1300'' else []),
      query = (\<lambda>_. [])\<rparr> = None"
proof -
  let ?a = "\<lparr>APIKey = ''k1,k2''\<rparr>"
  let ?r = "\<lparr>req_method = ''GET'',
      header = (\<lambda>n. if n = ''X-Psp-Ak'' then ''k2'' else if n = ''X-Psp-Timestamp'' then ''1300''
        else if n = ''X-Psp-Signature'' then key_signature ''k2'' ''1300'' else []),
      query = (\<lambda>_. [])\<rparr>"
  have t: "UnifiedTokens ?a = [''k1'', ''k2'']"
    using parse_join_keys [of "[''k1'', ''k2'']"]
    by (simp add: UnifiedTokens_def plain_key_def space_heads_code space_lasts_code)
  have k: "trim_space ''k2'' = ''k2''" "trim_space ''1300'' = ''1300''"
    by (simp_all add: trim_space_plain space_heads_code space_lasts_code)
  have i: "parse_int ''1300'' = Some 1300"
    by (simp add: parse_int_def dec_val_def digit_val_def is_digit_def in_int64_def)
  have "trim_space (key_signature ''k2'' ''1300'') = key_signature ''k2'' ''1300''"
    by (simp add: key_signature_def)
  with k have r: "req_ak ?r = ''k2''" "req_ts ?r = ''1300''" "req_sig ?r = key_signature ''k2'' ''1300''"
    by (simp_all add: req_ak_def req_ts_def req_sig_def Let_def)
  have "AuthEnabled ?a" "sane_clock 1000" by (simp_all add: AuthEnabled_def t sane_clock_def)
  then show ?thesis
    using access_auth_sound_complete [of ?a ?r 1000] by (simp add: t r i sg.canon_sign)
qed

text \<open>The plain login accepts exactly the configured keys: with authentication enabled, a
  submitted value is accepted iff it is, without its surrounding blanks, one of the keys of the
  comma separated list; a list of blanks and commas leaves authentication off, and then anything is
  accepted.\<close>

lemma plain_credential_exact:
  "VerifyPlainCredential a submitted = None \<longleftrightarrow>
     (if \<exists>p \<in> set (split_on (CHR '','') (trim_space (APIKey a))). trim_space p \<noteq> []
      then trim_space submitted \<in> set (UnifiedTokens a) else True)"
proof -
  have "AuthEnabled a \<longleftrightarrow> (\<exists>p \<in> set (split_on (CHR '','') (trim_space (APIKey a))). trim_space p \<noteq> [])"
    by (auto simp: AuthEnabled_def UnifiedTokens_def ParseAPIKeyTokens_def Let_def filter_empty_conv)
  then show ?thesis
    by (auto simp: VerifyPlainCredential_def Let_def plain_match_iff UnifiedTokens_def dest: token_shape)
qed

text \<open>The constant-time comparisons compute equality. The byte-wise accumulation of
  differences answers 1 exactly for equal byte sequences, so comparing keys this way accepts equal
  strings only, and comparing signatures accepts what is equal up to case and blanks.\<close>

lemma constant_time_compare_is_equality:
  "(ConstantTimeCompare x y = 1 \<longleftrightarrow> x = y)
   \<and> (subtleStringEq a b \<longleftrightarrow> a = b)
   \<and> (verifySigAgainst w g \<longleftrightarrow> to_lower (trim_space w) = to_lower (trim_space g))"
  by (simp add: verifySigAgainst_iff)

text \<open>Reading back the key list. The keys parsed from a comma separated list of keys are exactly
  those keys, in the order written; a key that is written twice is kept twice.\<close>

lemma api_key_tokens_roundtrip:
  assumes "list_all plain_key ks"
  shows "ParseAPIKeyTokens (join_keys ks) = ks"
  using assms by (rule parse_join_keys)

end
