(* ===== verification/ServerConfig.thy ===== *)
theory ServerConfig
  imports AccessAuth
begin

text \<open>
  The server's configuration manager, \<open>internal/config/config.go\<close>, and its file watcher,
  \<open>internal/config/watcher.go\<close>. Files are a map from paths to contents; each operating system call
  has an outcome that the environment chooses, failures included. The YAML codec is a third-party
  package and an argument (\<open>ym\<close>, \<open>yu\<close>), and so is name resolution (\<open>res\<close>), which depends on DNS.
  \<open>GetConfig\<close> returns the pointer the manager holds, so a caller that edits the configuration edits
  the manager's: the operations below update the field \<open>config\<close> where the code does.
\<close>

section \<open>Data\<close>

record ProxyConfig =
  pc_ID :: string
  pc_Name :: string
  pc_RemoteAddress :: string
  pc_Enabled :: bool

record ServerConfig =
  Port :: int
  StaticDir :: string
  Auth :: AccessAuth

record Config =
  Proxies :: "ProxyConfig list"
  Server :: ServerConfig

datatype cfg_error =
    ReadFailed | ParseYaml | MarshalYaml | WriteDefault | WriteTmp | RenameFailed
  | InvalidRemoteAddress string string
  | ProxyNotFound string

text \<open>\<open>callback_set\<close>: \<open>onReload\<close> is not nil; \<open>reload_log\<close>: the configurations it was started with.\<close>

record cfg_manager =
  filePath :: string
  config :: Config
  callback_set :: bool
  reload_log :: "Config list"

section \<open>Files\<close>

type_synonym files = "string \<rightharpoonup> string"

text \<open>A failed write may leave any contents behind, or leave the file as it was.\<close>

datatype write_outcome = WriteOK | WriteFails "string option"

record os_env =
  read_ok :: bool
  write_result :: write_outcome
  rename_ok :: bool
  remove_ok :: bool

definition os_WriteFile :: "string \<Rightarrow> string \<Rightarrow> write_outcome \<Rightarrow> files \<Rightarrow> bool \<times> files" where
  "os_WriteFile path data out fs =
     (case out of
        WriteOK \<Rightarrow> (True, fs(path \<mapsto> data))
      | WriteFails None \<Rightarrow> (False, fs)
      | WriteFails (Some part) \<Rightarrow> (False, fs(path \<mapsto> part)))"

definition os_Rename :: "string \<Rightarrow> string \<Rightarrow> bool \<Rightarrow> files \<Rightarrow> bool \<times> files" where
  "os_Rename old new ok fs = (if ok then (True, (fs(new := fs old))(old := None)) else (False, fs))"

definition os_Remove :: "string \<Rightarrow> bool \<Rightarrow> files \<Rightarrow> files" where
  "os_Remove path ok fs = (if ok then fs(path := None) else fs)"

section \<open>Operations\<close>

definition apply_defaults :: "Config \<Rightarrow> Config" where
  "apply_defaults cfg =
     (let cfg = (if Port (Server cfg) = 0 then cfg\<lparr>Server := (Server cfg)\<lparr>Port := 3000\<rparr>\<rparr> else cfg)
      in if StaticDir (Server cfg) = []
         then cfg\<lparr>Server := (Server cfg)\<lparr>StaticDir := ''./frontend/web-admin''\<rparr>\<rparr> else cfg)"

definition default_config :: Config where
  "default_config =
     \<lparr>Proxies = [], Server = \<lparr>Port = 3000, StaticDir = ''./frontend/web-admin'', Auth = \<lparr>APIKey = []\<rparr>\<rparr>\<rparr>"

definition createDefault ::
  "(Config \<Rightarrow> string option) \<Rightarrow> os_env \<Rightarrow> string \<Rightarrow> files \<Rightarrow> (cfg_error + Config) \<times> files" where
  "createDefault ym env path fs =
     (case ym default_config of
        None \<Rightarrow> (Inl MarshalYaml, fs)
      | Some data \<Rightarrow>
          (case os_WriteFile path data (write_result env) fs of
             (False, fs') \<Rightarrow> (Inl WriteDefault, fs')
           | (True, fs') \<Rightarrow> (Inr default_config, fs')))"

definition cfg_load ::
  "(Config \<Rightarrow> string option) \<Rightarrow> (string \<Rightarrow> Config option) \<Rightarrow> os_env \<Rightarrow> string \<Rightarrow> files
     \<Rightarrow> (cfg_error + Config) \<times> files" where
  "cfg_load ym yu env path fs =
     (if \<not> read_ok env then (Inl ReadFailed, fs)
      else (case fs path of
              None \<Rightarrow> createDefault ym env path fs
            | Some data \<Rightarrow>
                (case yu data of
                   None \<Rightarrow> (Inl ParseYaml, fs)
                 | Some cfg \<Rightarrow> (Inr (apply_defaults cfg), fs))))"

definition NewManager ::
  "(Config \<Rightarrow> string option) \<Rightarrow> (string \<Rightarrow> Config option) \<Rightarrow> os_env \<Rightarrow> string \<Rightarrow> files
     \<Rightarrow> (cfg_error + cfg_manager) \<times> files" where
  "NewManager ym yu env path fs =
     (case cfg_load ym yu env path fs of
        (Inl e, fs') \<Rightarrow> (Inl e, fs')
      | (Inr cfg, fs') \<Rightarrow>
          (Inr \<lparr>filePath = path, config = cfg, callback_set = False, reload_log = []\<rparr>, fs'))"

fun validate_proxies :: "(string \<Rightarrow> bool) \<Rightarrow> ProxyConfig list \<Rightarrow> cfg_error option" where
  "validate_proxies res [] = None"
| "validate_proxies res (p # ps) =
     (if \<not> res (pc_RemoteAddress p) then Some (InvalidRemoteAddress (pc_Name p) (pc_RemoteAddress p))
      else validate_proxies res ps)"

definition cfg_Validate :: "(string \<Rightarrow> bool) \<Rightarrow> Config \<Rightarrow> cfg_error option" where
  "cfg_Validate res cfg = validate_proxies res (Proxies cfg)"

definition GetConfig :: "cfg_manager \<Rightarrow> Config" where
  "GetConfig m = config m"

definition GetServerPort :: "cfg_manager \<Rightarrow> int" where
  "GetServerPort m = Port (Server (config m))"

text \<open>\<open>go m.onReload(cfg)\<close>, when a callback is set.\<close>

definition notify_reload :: "Config \<Rightarrow> cfg_manager \<Rightarrow> cfg_manager" where
  "notify_reload cfg m = (if callback_set m then m\<lparr>reload_log := reload_log m @ [cfg]\<rparr> else m)"

definition tmp_path :: "cfg_manager \<Rightarrow> string" where
  "tmp_path m = filePath m @ ''.tmp''"

type_synonym cfg_state = "cfg_manager \<times> files"

definition cfg_Save ::
  "(Config \<Rightarrow> string option) \<Rightarrow> (string \<Rightarrow> bool) \<Rightarrow> os_env \<Rightarrow> Config \<Rightarrow> cfg_state
     \<Rightarrow> cfg_error option \<times> cfg_state" where
  "cfg_Save ym res env cfg s =
     (case s of (m, fs) \<Rightarrow>
       (case cfg_Validate res cfg of
          Some e \<Rightarrow> (Some e, (m, fs))
        | None \<Rightarrow>
            (case ym cfg of
               None \<Rightarrow> (Some MarshalYaml, (m, fs))
             | Some data \<Rightarrow>
                 (case os_WriteFile (tmp_path m) data (write_result env) fs of
                    (False, fs1) \<Rightarrow> (Some WriteTmp, (m, fs1))
                  | (True, fs1) \<Rightarrow>
                      (case os_Rename (tmp_path m) (filePath m) (rename_ok env) fs1 of
                         (False, fs2) \<Rightarrow>
                           (Some RenameFailed, (m, os_Remove (tmp_path m) (remove_ok env) fs2))
                       | (True, fs2) \<Rightarrow> (None, (notify_reload cfg (m\<lparr>config := cfg\<rparr>), fs2)))))))"

definition SetReloadCallback :: "bool \<Rightarrow> cfg_manager \<Rightarrow> cfg_manager" where
  "SetReloadCallback fn m = m\<lparr>callback_set := fn\<rparr>"

definition cfg_AddProxy ::
  "(Config \<Rightarrow> string option) \<Rightarrow> (string \<Rightarrow> bool) \<Rightarrow> os_env \<Rightarrow> ProxyConfig \<Rightarrow> cfg_state
     \<Rightarrow> cfg_error option \<times> cfg_state" where
  "cfg_AddProxy ym res env p s =
     (case s of (m, fs) \<Rightarrow>
        let m1 = m\<lparr>config := (config m)\<lparr>Proxies := Proxies (config m) @ [p]\<rparr>\<rparr>
        in cfg_Save ym res env (config m1) (m1, fs))"

text \<open>The search loops: replace, or cut out, the first entry with the id.\<close>

fun replace_first :: "string \<Rightarrow> ProxyConfig \<Rightarrow> ProxyConfig list \<Rightarrow> ProxyConfig list option" where
  "replace_first i p [] = None"
| "replace_first i p (q # qs) =
     (if pc_ID q = i then Some (p\<lparr>pc_ID := i\<rparr> # qs)
      else map_option ((#) q) (replace_first i p qs))"

fun remove_first :: "string \<Rightarrow> ProxyConfig list \<Rightarrow> ProxyConfig list option" where
  "remove_first i [] = None"
| "remove_first i (q # qs) =
     (if pc_ID q = i then Some qs else map_option ((#) q) (remove_first i qs))"

definition cfg_UpdateProxy ::
  "(Config \<Rightarrow> string option) \<Rightarrow> (string \<Rightarrow> bool) \<Rightarrow> os_env \<Rightarrow> string \<Rightarrow> ProxyConfig \<Rightarrow> cfg_state
     \<Rightarrow> cfg_error option \<times> cfg_state" where
  "cfg_UpdateProxy ym res env i p s =
     (case s of (m, fs) \<Rightarrow>
        (case replace_first i p (Proxies (config m)) of
           None \<Rightarrow> (Some (ProxyNotFound i), (m, fs))
         | Some ps \<Rightarrow>
             let m1 = m\<lparr>config := (config m)\<lparr>Proxies := ps\<rparr>\<rparr>
             in cfg_Save ym res env (config m1) (m1, fs)))"

definition cfg_RemoveProxy ::
  "(Config \<Rightarrow> string option) \<Rightarrow> (string \<Rightarrow> bool) \<Rightarrow> os_env \<Rightarrow> string \<Rightarrow> cfg_state
     \<Rightarrow> cfg_error option \<times> cfg_state" where
  "cfg_RemoveProxy ym res env i s =
     (case s of (m, fs) \<Rightarrow>
        (case remove_first i (Proxies (config m)) of
           None \<Rightarrow> (Some (ProxyNotFound i), (m, fs))
         | Some ps \<Rightarrow>
             let m1 = m\<lparr>config := (config m)\<lparr>Proxies := ps\<rparr>\<rparr>
             in cfg_Save ym res env (config m1) (m1, fs)))"

definition cfg_Reload ::
  "(Config \<Rightarrow> string option) \<Rightarrow> (string \<Rightarrow> Config option) \<Rightarrow> os_env \<Rightarrow> cfg_state
     \<Rightarrow> (cfg_error + Config) \<times> cfg_state" where
  "cfg_Reload ym yu env s =
     (case s of (m, fs) \<Rightarrow>
        (case cfg_load ym yu env (filePath m) fs of
           (Inl e, fs') \<Rightarrow> (Inl e, (m, fs'))
         | (Inr cfg, fs') \<Rightarrow> (Inr cfg, (notify_reload cfg (m\<lparr>config := cfg\<rparr>), fs'))))"

section \<open>The watcher\<close>

text \<open>
  The iterations of the watcher's \<open>select\<close> loop. The bits of \<open>fsnotify.Op\<close> are the package's
  constants, here arguments. The result is the number of callbacks made before the loop returns.
\<close>

datatype watch_event = FsEvent "32 word" | EventsClosed | FsError | ErrorsClosed | DoneClosed

definition watcher_reacts :: "32 word \<Rightarrow> 32 word \<Rightarrow> 32 word \<Rightarrow> bool" where
  "watcher_reacts fsWrite fsCreate evop \<longleftrightarrow> evop AND fsWrite = fsWrite \<or> evop AND fsCreate = fsCreate"

fun watcher_loop :: "32 word \<Rightarrow> 32 word \<Rightarrow> watch_event list \<Rightarrow> nat" where
  "watcher_loop fsWrite fsCreate [] = 0"
| "watcher_loop fsWrite fsCreate (FsEvent evop # es) =
     (if watcher_reacts fsWrite fsCreate evop then 1 else 0) + watcher_loop fsWrite fsCreate es"
| "watcher_loop fsWrite fsCreate (FsError # es) = watcher_loop fsWrite fsCreate es"
| "watcher_loop fsWrite fsCreate (EventsClosed # es) = 0"
| "watcher_loop fsWrite fsCreate (ErrorsClosed # es) = 0"
| "watcher_loop fsWrite fsCreate (DoneClosed # es) = 0"

section \<open>Lemmas\<close>

lemma tmp_path_neq [simp]: "tmp_path m \<noteq> filePath m" "filePath m \<noteq> tmp_path m"
  by (simp_all add: tmp_path_def)

lemma notify_reload_simps [simp]:
  "config (notify_reload c m) = config m" "filePath (notify_reload c m) = filePath m"
  "callback_set (notify_reload c m) = callback_set m"
  by (simp_all add: notify_reload_def)

lemma validate_proxies_iff:
  "validate_proxies res ps = None \<longleftrightarrow> (\<forall>p \<in> set ps. res (pc_RemoteAddress p))"
  by (induction ps) auto

text \<open>The one proof about \<open>cfg_Save\<close>: the outcomes of its guards and system calls.\<close>

lemma cfg_Save_cases:
  assumes "cfg_Save ym res env cfg (m, fs) = (e, s')"
  obtains
    (saved) data where "e = None" "cfg_Validate res cfg = None" "ym cfg = Some data"
      "s' = (notify_reload cfg (m\<lparr>config := cfg\<rparr>), fs(filePath m \<mapsto> data, tmp_path m := None))"
  | (failed) x fs' where "e = Some x" "s' = (m, fs')" "\<And>p. p \<noteq> tmp_path m \<Longrightarrow> fs' p = fs p"
      "cfg_Validate res cfg \<noteq> None \<Longrightarrow> fs' = fs"
proof -
  let ?thesis' = thesis
  show ?thesis'
  proof (cases "cfg_Validate res cfg")
    case (Some x)
    with assms have "e = Some x" "s' = (m, fs)" by (simp_all add: cfg_Save_def)
    then show ?thesis' by (rule failed) simp_all
  next
    case v: None
    show ?thesis'
    proof (cases "ym cfg")
      case None
      with v assms failed show ?thesis' by (auto simp: cfg_Save_def)
    next
      case (Some data)
      show ?thesis'
      proof (cases "write_result env")
        case WriteOK
        show ?thesis'
        proof (cases "rename_ok env")
          case True
          with v Some WriteOK assms have "e = None"
            "s' = (notify_reload cfg (m\<lparr>config := cfg\<rparr>), fs(filePath m \<mapsto> data, tmp_path m := None))"
            by (auto simp: cfg_Save_def os_WriteFile_def os_Rename_def fun_upd_twist)
          with v Some saved show ?thesis' by blast
        next
          case False
          with v Some WriteOK assms failed show ?thesis'
            by (auto simp: cfg_Save_def os_WriteFile_def os_Rename_def os_Remove_def)
        qed
      next
        case (WriteFails part)
        with v Some assms failed show ?thesis'
          by (cases part) (auto simp: cfg_Save_def os_WriteFile_def)
      qed
    qed
  qed
qed

lemma replace_first_None: "replace_first i p ps = None \<longleftrightarrow> i \<notin> pc_ID ` set ps"
  by (induction ps) auto

lemma replace_first_Some:
  "replace_first i p ps = Some qs \<Longrightarrow>
     map pc_ID qs = map pc_ID ps \<and> i \<in> pc_ID ` set ps \<and> set qs \<subseteq> insert (p\<lparr>pc_ID := i\<rparr>) (set ps) \<and> p\<lparr>pc_ID := i\<rparr> \<in> set qs"
  by (induction ps arbitrary: qs) (auto split: if_splits)

lemma remove_first_None: "remove_first i ps = None \<longleftrightarrow> i \<notin> pc_ID ` set ps"
  by (induction ps) auto

lemma remove_first_Some:
  "remove_first i ps = Some qs \<Longrightarrow> map pc_ID qs = remove1 i (map pc_ID ps) \<and> set qs \<subseteq> set ps
     \<and> i \<in> pc_ID ` set ps"
  by (induction ps arbitrary: qs) (auto split: if_splits)

section \<open>The contract of a proxy store\<close>

text \<open>
  Both managers the API drives keep a set of proxies under ids. The contract: which ids a
  successful operation leaves, and that ids stay distinct. The lemma the API needs, two stores
  driven by the same successful operations keep the same ids, is proved from the contract.
\<close>

locale proxy_store =
  fixes ids :: "'s \<Rightarrow> string list"
    and add :: "ProxyConfig \<Rightarrow> 's \<Rightarrow> 'e option \<times> 's"
    and upd :: "string \<Rightarrow> ProxyConfig \<Rightarrow> 's \<Rightarrow> 'e option \<times> 's"
    and del :: "string \<Rightarrow> 's \<Rightarrow> 'e option \<times> 's"
  assumes add_ok: "add p s = (None, s') \<Longrightarrow> set (ids s') = insert (pc_ID p) (set (ids s))"
    and upd_ok: "upd i p s = (None, s') \<Longrightarrow> i \<in> set (ids s) \<and> set (ids s') = set (ids s)"
    and del_ok: "distinct (ids s) \<Longrightarrow> del i s = (None, s') \<Longrightarrow>
      i \<in> set (ids s) \<and> set (ids s') = set (ids s) - {i}"
    and add_distinct: "distinct (ids s) \<Longrightarrow> pc_ID p \<notin> set (ids s) \<Longrightarrow> add p s = (e, s') \<Longrightarrow> distinct (ids s')"
    and upd_distinct: "distinct (ids s) \<Longrightarrow> upd i p s = (e, s') \<Longrightarrow> distinct (ids s')"
    and del_distinct: "distinct (ids s) \<Longrightarrow> del i s = (e, s') \<Longrightarrow> distinct (ids s')"

locale paired_stores =
  A: proxy_store idsA addA updA delA + B: proxy_store idsB addB updB delB
  for idsA :: "'a \<Rightarrow> string list"
    and addA :: "ProxyConfig \<Rightarrow> 'a \<Rightarrow> 'e option \<times> 'a" and updA and delA
    and idsB :: "'b \<Rightarrow> string list"
    and addB :: "ProxyConfig \<Rightarrow> 'b \<Rightarrow> 'f option \<times> 'b" and updB and delB
begin

lemma add_lockstep:
  "set (idsA a) = set (idsB b) \<Longrightarrow> addA p a = (None, a') \<Longrightarrow> addB p b = (None, b') \<Longrightarrow>
   set (idsA a') = set (idsB b')"
  by (simp add: A.add_ok B.add_ok)

lemma upd_lockstep:
  "set (idsA a) = set (idsB b) \<Longrightarrow> updA i p a = (None, a') \<Longrightarrow> updB i q b = (None, b') \<Longrightarrow>
   set (idsA a') = set (idsB b')"
  by (simp add: A.upd_ok B.upd_ok)

lemma del_lockstep:
  "set (idsA a) = set (idsB b) \<Longrightarrow> distinct (idsA a) \<Longrightarrow> distinct (idsB b) \<Longrightarrow>
   delA i a = (None, a') \<Longrightarrow> delB i b = (None, b') \<Longrightarrow> set (idsA a') = set (idsB b')"
  by (simp add: A.del_ok B.del_ok)

end

definition cfg_ids :: "cfg_state \<Rightarrow> string list" where
  "cfg_ids s = map pc_ID (Proxies (config (fst s)))"

text \<open>After any of the three operations the in-memory list is the edited one, error or not.\<close>

lemma cfg_Save_config:
  "cfg_Save ym res env c (m\<lparr>config := c\<rparr>, fs) = (e, (m', fs')) \<Longrightarrow> config m' = c \<and> filePath m' = filePath m"
  by (erule cfg_Save_cases) auto

lemma cfg_AddProxy_ids:
  "cfg_AddProxy ym res env p s = (e, s') \<Longrightarrow> cfg_ids s' = cfg_ids s @ [pc_ID p]"
  by (cases s; cases s') (auto simp: cfg_AddProxy_def cfg_ids_def Let_def dest!: cfg_Save_config)

lemma cfg_UpdateProxy_ids:
  "cfg_UpdateProxy ym res env i p s = (e, s') \<Longrightarrow>
     cfg_ids s' = cfg_ids s \<and> (i \<notin> set (cfg_ids s) \<longrightarrow> e \<noteq> None)"
  by (cases s; cases s')
    (auto simp: cfg_UpdateProxy_def cfg_ids_def Let_def replace_first_None
       dest!: cfg_Save_config replace_first_Some split: option.splits)

lemma cfg_RemoveProxy_ids:
  "cfg_RemoveProxy ym res env i s = (e, s') \<Longrightarrow>
     cfg_ids s' = remove1 i (cfg_ids s) \<and> (i \<notin> set (cfg_ids s) \<longrightarrow> e \<noteq> None)"
  by (cases s; cases s')
    (auto simp: cfg_RemoveProxy_def cfg_ids_def Let_def remove_first_None remove1_idem
       dest!: cfg_Save_config remove_first_Some split: option.splits)

interpretation cs: proxy_store cfg_ids "cfg_AddProxy ym res env" "cfg_UpdateProxy ym res env"
  "cfg_RemoveProxy ym res env" for ym res env
proof
  fix s s' i
  assume d: "distinct (cfg_ids s)" and r: "cfg_RemoveProxy ym res env i s = (None, s')"
  from cfg_RemoveProxy_ids [OF r] d show "i \<in> set (cfg_ids s) \<and> set (cfg_ids s') = set (cfg_ids s) - {i}"
    by auto
qed (auto dest: cfg_AddProxy_ids cfg_UpdateProxy_ids cfg_RemoveProxy_ids)

lemma cfg_Save_invalid:
  "p \<in> set (Proxies cfg) \<Longrightarrow> \<not> res (pc_RemoteAddress p) \<Longrightarrow>
     \<exists>x. cfg_Save ym res env cfg s = (Some x, s)"
  using validate_proxies_iff [of res "Proxies cfg"]
  by (cases s) (auto simp: cfg_Save_def cfg_Validate_def split: option.splits)

lemma replace_first_keeps: "replace_first i p ps = Some qs \<Longrightarrow> q \<in> set ps \<Longrightarrow> pc_ID q \<noteq> i \<Longrightarrow> q \<in> set qs"
  by (induction ps arbitrary: qs) (auto split: if_splits)

lemma remove_first_keeps: "remove_first i ps = Some qs \<Longrightarrow> q \<in> set ps \<Longrightarrow> pc_ID q \<noteq> i \<Longrightarrow> q \<in> set qs"
  by (induction ps arbitrary: qs) (auto split: if_splits)

text \<open>While an entry that does not resolve is in memory, no edit that leaves it there can be saved.\<close>

lemma invalid_entry_blocks:
  assumes "q \<in> set (Proxies (config m))" "\<not> res (pc_RemoteAddress q)"
  shows "\<exists>x. fst (cfg_AddProxy ym res env p (m, fs)) = Some x"
    and "pc_ID q \<noteq> i \<Longrightarrow> \<exists>x. fst (cfg_UpdateProxy ym res env i p (m, fs)) = Some x"
    and "pc_ID q \<noteq> i \<Longrightarrow> \<exists>x. fst (cfg_RemoveProxy ym res env i (m, fs)) = Some x"
proof -
  have blocked: "\<exists>x. fst (cfg_Save ym res env ((config m)\<lparr>Proxies := ps\<rparr>) s) = Some x"
    if "q \<in> set ps" for ps s
    using cfg_Save_invalid [of q "(config m)\<lparr>Proxies := ps\<rparr>" res ym env s] that assms(2) by fastforce
  show "\<exists>x. fst (cfg_AddProxy ym res env p (m, fs)) = Some x"
    using blocked [of "Proxies (config m) @ [p]"] assms(1) by (simp add: cfg_AddProxy_def Let_def)
  show "\<exists>x. fst (cfg_UpdateProxy ym res env i p (m, fs)) = Some x" if "pc_ID q \<noteq> i"
    using blocked replace_first_keeps [OF _ assms(1) that]
    by (auto simp: cfg_UpdateProxy_def Let_def split: option.splits)
  show "\<exists>x. fst (cfg_RemoveProxy ym res env i (m, fs)) = Some x" if "pc_ID q \<noteq> i"
    using blocked remove_first_keeps [OF _ assms(1) that]
    by (auto simp: cfg_RemoveProxy_def Let_def split: option.splits)
qed

lemma apply_defaults_id: "Port (Server c) \<noteq> 0 \<Longrightarrow> StaticDir (Server c) \<noteq> [] \<Longrightarrow> apply_defaults c = c"
  by (simp add: apply_defaults_def)

lemma apply_defaults_nonzero:
  "Port (Server (apply_defaults c)) \<noteq> 0 \<and> StaticDir (Server (apply_defaults c)) \<noteq> []
   \<and> Proxies (apply_defaults c) = Proxies c"
  by (simp add: apply_defaults_def Let_def)

section \<open>Properties\<close>

text \<open>C25: Saving is atomic. Whatever the operating system does, partial writes and failed renames
  included, the configuration file afterwards holds either its old contents or exactly the new
  configuration; an error leaves file and manager as they were, success leaves the new
  configuration in both, and only the file and its temporary neighbour are ever touched.\<close>

theorem save_atomic:
  assumes "cfg_Save ym res env cfg (m, fs) = (e, (m', fs'))"
  shows "(e = None \<longrightarrow> fs' (filePath m) = ym cfg \<and> ym cfg \<noteq> None \<and> config m' = cfg
             \<and> fs' (tmp_path m) = None \<and> (\<forall>p \<in> set (Proxies cfg). res (pc_RemoteAddress p)))
    \<and> (e \<noteq> None \<longrightarrow> m' = m \<and> fs' (filePath m) = fs (filePath m))
    \<and> (\<forall>p. p \<noteq> filePath m \<longrightarrow> p \<noteq> tmp_path m \<longrightarrow> fs' p = fs p)"
  using assms by (cases rule: cfg_Save_cases) (auto simp: cfg_Validate_def validate_proxies_iff)

theorem save_atomic_witness:
  "fst (cfg_Save (\<lambda>c. Some ''new'') (\<lambda>a. True)
      \<lparr>read_ok = True, write_result = WriteFails (Some ''ne''), rename_ok = True, remove_ok = True\<rparr>
      default_config (\<lparr>filePath = ''c'', config = default_config, callback_set = False, reload_log = []\<rparr>,
        [''c'' \<mapsto> ''old''])) = Some WriteTmp
   \<and> snd (snd (cfg_Save (\<lambda>c. Some ''new'') (\<lambda>a. True)
      \<lparr>read_ok = True, write_result = WriteFails (Some ''ne''), rename_ok = True, remove_ok = True\<rparr>
      default_config (\<lparr>filePath = ''c'', config = default_config, callback_set = False, reload_log = []\<rparr>,
        [''c'' \<mapsto> ''old'']))) ''c'' = Some ''old''"
proof -
  let ?env = "\<lparr>read_ok = True, write_result = WriteFails (Some ''ne''), rename_ok = True, remove_ok = True\<rparr>"
  let ?m = "\<lparr>filePath = ''c'', config = default_config, callback_set = False, reload_log = []\<rparr>"
  have r: "cfg_Save (\<lambda>c. Some ''new'') (\<lambda>a. True) ?env default_config (?m, [''c'' \<mapsto> ''old''])
      = (Some WriteTmp, (?m, [''c'' \<mapsto> ''old'', ''c.tmp'' \<mapsto> ''ne'']))"
    by (simp add: cfg_Save_def cfg_Validate_def default_config_def os_WriteFile_def tmp_path_def)
  from save_atomic [OF r] r show ?thesis by simp
qed


definition bad_proxy :: ProxyConfig where
  "bad_proxy = \<lparr>pc_ID = ''p'', pc_Name = ''n'', pc_RemoteAddress = ''nowhere'', pc_Enabled = True\<rparr>"


text \<open>Configurations survive a restart. If the YAML codec reads back what it wrote, then after a
  successful save the reloaded configuration is the saved one, with the missing port and static
  directory filled in, whatever was in memory, and reloading sets the manager to it.\<close>

lemma save_then_reload:
  assumes yaml: "\<And>c data. ym c = Some data \<Longrightarrow> yu data = Some c"
    and save: "cfg_Save ym res env cfg (m, fs) = (None, (m', fs'))" and "read_ok env'"
  shows "\<exists>m''. cfg_Reload ym yu env' (m', fs') = (Inr (apply_defaults cfg), (m'', fs'))
           \<and> config m'' = apply_defaults cfg"
proof -
  from save obtain data where "ym cfg = Some data" "fs' (filePath m') = Some data"
    by (cases rule: cfg_Save_cases) auto
  with yaml assms(3) show ?thesis
    by (auto simp: cfg_Reload_def cfg_load_def)
qed

text \<open>A hand-edited file is taken over unchecked. Reloading a readable, parsable file installs it
  whether or not its remote addresses resolve; when one does not, the running manager can save no
  edit until that entry is removed.\<close>

lemma reload_installs_unvalidated:
  assumes "read_ok env" "fs (filePath m) = Some data" "yu data = Some cfg"
    and "q \<in> set (Proxies cfg)" "\<not> res (pc_RemoteAddress q)"
  shows "\<exists>m'. cfg_Reload ym yu env (m, fs) = (Inr (apply_defaults cfg), (m', fs))
           \<and> (\<forall>env' p. fst (cfg_AddProxy ym res env' p (m', fs)) \<noteq> None)"
proof -
  let ?m = "notify_reload (apply_defaults cfg) (m\<lparr>config := apply_defaults cfg\<rparr>)"
  have "cfg_Reload ym yu env (m, fs) = (Inr (apply_defaults cfg), (?m, fs))"
    using assms(1-3) by (simp add: cfg_Reload_def cfg_load_def)
  moreover have "q \<in> set (Proxies (config ?m))" using assms(4) by (simp add: apply_defaults_nonzero)
  ultimately show ?thesis using invalid_entry_blocks(1) [of q ?m res] assms(5)
    by (metis option.distinct(1))
qed

end
