(* ===== verification/Counter.thy ===== *)
theory Counter
  imports Prelude
begin

text \<open>
  The contract of an atomic \<open>int64\<close> counter of live connections, as the runtime entry of a proxy,
  the client's tunnel and the reverse consumer keep one: each opening adds one, each closing
  subtracts one, in 64-bit arithmetic.
\<close>

locale live_counter =
  fixes incr :: "'s \<Rightarrow> 's"
    and decr :: "'s \<Rightarrow> 's"
    and count :: "'s \<Rightarrow> 64 word"
  assumes count_incr: "count (incr s) = count s + 1"
    and count_decr: "count (decr s) = count s - 1"
begin

text \<open>A history of openings (\<open>True\<close>) and closings (\<open>False\<close>).\<close>

primrec replay :: "bool list \<Rightarrow> 's \<Rightarrow> 's" where
  "replay [] s = s"
| "replay (b # bs) s = replay bs (if b then incr s else decr s)"

lemma count_replay:
  "count (replay bs s) = count s + of_nat (count_list bs True) - of_nat (count_list bs False)"
  by (induction bs arbitrary: s) (auto simp: count_incr count_decr)

lemma count_live:
  assumes "count s = 0" "count_list bs False \<le> count_list bs True" "count_list bs True < 2 ^ 63"
  shows "sint (count (replay bs s)) = int (count_list bs True) - int (count_list bs False)"
proof -
  let ?k = "count_list bs True - count_list bs False"
  have "count (replay bs s) = of_nat ?k"
    using assms by (simp add: count_replay of_nat_diff)
  moreover have "int ?k < 2 ^ 63"
    using assms by simp
  then have "sint (of_nat ?k :: 64 word) = int ?k"
    by (simp only: signed_of_nat) (simp add: signed_take_bit_int_eq_self)
  moreover have "int ?k = int (count_list bs True) - int (count_list bs False)"
    using assms(2) by (simp add: of_nat_diff)
  ultimately show ?thesis by (simp only:)
qed

end

text \<open>Reading a counter that holds a number of live connections below \<open>2 ^ 63\<close>.\<close>

lemma sint_of_nat_small: "n < 2 ^ 63 \<Longrightarrow> sint (of_nat n :: 64 word) = int n"
  by (simp add: signed_of_nat signed_take_bit_int_eq_self)

end
