(* ===== verification/ProxyRuntime.thy ===== *)
theory ProxyRuntime
  imports ServerConfig Counter
begin

text \<open>
  The runtime entry of one proxy, \<open>internal/proxy/proxy.go\<close>: its configuration, its status and the
  number of tunnels running through it. Each method is one function; the clock is an argument and
  the zero \<open>time.Time\<close> is \<open>None\<close>. Methods that return a Go \<open>error\<close> return \<open>None\<close> for nil.
\<close>

section \<open>Data\<close>

datatype Status = StatusRunning | StatusStopped | StatusError

type_synonym time = "int option"

record ProxyStatus =
  ps_ID :: string
  ps_Name :: string
  ps_RemoteAddress :: string
  ps_WSPath :: string
  ps_Enabled :: bool
  ps_Status :: Status
  ps_Connections :: int
  ps_StartedAt :: time
  ps_Error :: string

record TCPServer =
  ts_cfg :: ProxyConfig
  ts_status :: ProxyStatus
  activeTunnels :: "64 word"

datatype proxy_error = AlreadyExists string | NotFound string

section \<open>Methods\<close>

definition WSIngressPath :: "string \<Rightarrow> string" where
  "WSIngressPath proxyID = ''/ws/'' @ proxyID"

definition syncStatusLocked :: "int \<Rightarrow> TCPServer \<Rightarrow> TCPServer" where
  "syncStatusLocked now s =
     (if \<not> pc_Enabled (ts_cfg s)
      then s\<lparr>ts_status := (ts_status s)\<lparr>ps_Status := StatusStopped, ps_StartedAt := None\<rparr>\<rparr>
      else
        let st = (ts_status s)\<lparr>ps_Status := StatusRunning\<rparr>
        in s\<lparr>ts_status := (if ps_StartedAt st = None then st\<lparr>ps_StartedAt := Some now\<rparr> else st)\<rparr>)"

definition NewTCPServer :: "int \<Rightarrow> ProxyConfig \<Rightarrow> TCPServer" where
  "NewTCPServer now cfg =
     syncStatusLocked now
       \<lparr>ts_cfg = cfg,
        ts_status =
          \<lparr>ps_ID = pc_ID cfg, ps_Name = pc_Name cfg, ps_RemoteAddress = pc_RemoteAddress cfg,
           ps_WSPath = WSIngressPath (pc_ID cfg), ps_Enabled = pc_Enabled cfg,
           ps_Status = StatusStopped, ps_Connections = 0, ps_StartedAt = None, ps_Error = []\<rparr>,
        activeTunnels = 0\<rparr>"

definition applyStartLocked :: "int \<Rightarrow> bool \<Rightarrow> TCPServer \<Rightarrow> proxy_error option \<times> TCPServer" where
  "applyStartLocked now reload s =
     (if \<not> pc_Enabled (ts_cfg s)
      then (None, s\<lparr>ts_status := (ts_status s)
              \<lparr>ps_Status := StatusStopped, ps_Error := [], ps_StartedAt := None\<rparr>\<rparr>)
      else
        let st = (ts_status s)\<lparr>ps_Status := StatusRunning, ps_Error := []\<rparr>
        in (None, s\<lparr>ts_status :=
              (if \<not> reload \<or> ps_StartedAt st = None then st\<lparr>ps_StartedAt := Some now\<rparr> else st)\<rparr>))"

definition ts_Start :: "int \<Rightarrow> TCPServer \<Rightarrow> proxy_error option \<times> TCPServer" where
  "ts_Start now s = applyStartLocked now False s"

definition ts_Stop :: "TCPServer \<Rightarrow> TCPServer" where
  "ts_Stop s = s\<lparr>ts_status := (ts_status s)\<lparr>ps_Status := StatusStopped, ps_StartedAt := None\<rparr>\<rparr>"

definition IncrTunnel :: "TCPServer \<Rightarrow> TCPServer" where
  "IncrTunnel s = s\<lparr>activeTunnels := activeTunnels s + 1\<rparr>"

definition DecrTunnel :: "TCPServer \<Rightarrow> TCPServer" where
  "DecrTunnel s = s\<lparr>activeTunnels := activeTunnels s - 1\<rparr>"

definition ts_ReloadConfig :: "int \<Rightarrow> ProxyConfig \<Rightarrow> TCPServer \<Rightarrow> proxy_error option \<times> TCPServer" where
  "ts_ReloadConfig now cfg s =
     (let s1 = s\<lparr>ts_cfg := cfg,
                 ts_status := (ts_status s)\<lparr>ps_Name := pc_Name cfg, ps_RemoteAddress := pc_RemoteAddress cfg,
                   ps_Enabled := pc_Enabled cfg, ps_WSPath := WSIngressPath (pc_ID cfg)\<rparr>\<rparr>
      in if pc_Enabled cfg then applyStartLocked now True s1
         else (None, s1\<lparr>ts_status := (ts_status s1)
                 \<lparr>ps_Status := StatusStopped, ps_StartedAt := None, ps_Error := []\<rparr>\<rparr>))"

definition StatusInfo :: "TCPServer \<Rightarrow> ProxyStatus" where
  "StatusInfo s = (ts_status s)
     \<lparr>ps_WSPath := WSIngressPath (pc_ID (ts_cfg s)), ps_RemoteAddress := pc_RemoteAddress (ts_cfg s),
      ps_Enabled := pc_Enabled (ts_cfg s), ps_Connections := sint (activeTunnels s)\<rparr>"

definition IsRunning :: "TCPServer \<Rightarrow> bool" where
  "IsRunning s \<longleftrightarrow> pc_Enabled (ts_cfg s) \<and> ps_Status (ts_status s) = StatusRunning \<and> ps_Error (ts_status s) = []"

section \<open>Invariant of an entry in service\<close>

text \<open>
  What holds of an entry between its creation and its removal: the shown fields are the
  configuration's, it runs exactly when it is enabled, has a start time exactly when it runs, and
  carries no error.
\<close>

definition server_ok :: "TCPServer \<Rightarrow> bool" where
  "server_ok s \<longleftrightarrow>
     ps_ID (ts_status s) = pc_ID (ts_cfg s) \<and> ps_Name (ts_status s) = pc_Name (ts_cfg s)
     \<and> ps_RemoteAddress (ts_status s) = pc_RemoteAddress (ts_cfg s)
     \<and> ps_WSPath (ts_status s) = WSIngressPath (pc_ID (ts_cfg s))
     \<and> ps_Enabled (ts_status s) = pc_Enabled (ts_cfg s)
     \<and> ps_Status (ts_status s) = (if pc_Enabled (ts_cfg s) then StatusRunning else StatusStopped)
     \<and> (ps_StartedAt (ts_status s) \<noteq> None \<longleftrightarrow> pc_Enabled (ts_cfg s))
     \<and> ps_Error (ts_status s) = []"

lemma NewTCPServer_ok [wf_intros, simp]: "server_ok (NewTCPServer now cfg)"
  by (simp add: server_ok_def NewTCPServer_def syncStatusLocked_def Let_def)

lemma NewTCPServer_fields [simp]:
  "ts_cfg (NewTCPServer now cfg) = cfg" "activeTunnels (NewTCPServer now cfg) = 0"
  by (simp_all add: NewTCPServer_def syncStatusLocked_def Let_def)

lemma ts_Start_no_error [simp]: "fst (ts_Start now s) = None"
  by (simp add: ts_Start_def applyStartLocked_def Let_def)

lemma ts_Start_fields [simp]:
  "ts_cfg (snd (ts_Start now s)) = ts_cfg s" "activeTunnels (snd (ts_Start now s)) = activeTunnels s"
  by (simp_all add: ts_Start_def applyStartLocked_def Let_def)

lemma ts_Start_ok [wf_intros, simp]: "server_ok s \<Longrightarrow> server_ok (snd (ts_Start now s))"
  by (auto simp: server_ok_def ts_Start_def applyStartLocked_def Let_def)

lemma ts_Stop_fields [simp]:
  "ts_cfg (ts_Stop s) = ts_cfg s" "activeTunnels (ts_Stop s) = activeTunnels s"
  by (simp_all add: ts_Stop_def)

lemma ts_ReloadConfig_no_error [simp]: "fst (ts_ReloadConfig now cfg s) = None"
  by (simp add: ts_ReloadConfig_def applyStartLocked_def Let_def)

lemma ts_ReloadConfig_fields [simp]:
  "ts_cfg (snd (ts_ReloadConfig now cfg s)) = cfg"
  "activeTunnels (snd (ts_ReloadConfig now cfg s)) = activeTunnels s"
  by (simp_all add: ts_ReloadConfig_def applyStartLocked_def Let_def)

lemma ts_ReloadConfig_ok [wf_intros]:
  "server_ok s \<Longrightarrow> pc_ID cfg = pc_ID (ts_cfg s) \<Longrightarrow> server_ok (snd (ts_ReloadConfig now cfg s))"
  by (auto simp: server_ok_def ts_ReloadConfig_def applyStartLocked_def Let_def)

text \<open>Reloading an entry that is already running keeps the time it was started at.\<close>

lemma ts_ReloadConfig_StartedAt:
  "server_ok s \<Longrightarrow> pc_Enabled cfg \<Longrightarrow> pc_Enabled (ts_cfg s) \<Longrightarrow>
     ps_StartedAt (ts_status (snd (ts_ReloadConfig now cfg s))) = ps_StartedAt (ts_status s)"
  by (auto simp: server_ok_def ts_ReloadConfig_def applyStartLocked_def Let_def)

lemma Incr_Decr_fields [simp]:
  "ts_cfg (IncrTunnel s) = ts_cfg s" "ts_cfg (DecrTunnel s) = ts_cfg s"
  "activeTunnels (IncrTunnel s) = activeTunnels s + 1" "activeTunnels (DecrTunnel s) = activeTunnels s - 1"
  "server_ok (IncrTunnel s) = server_ok s" "server_ok (DecrTunnel s) = server_ok s"
  by (simp_all add: IncrTunnel_def DecrTunnel_def server_ok_def)

lemma IsRunning_ok: "server_ok s \<Longrightarrow> IsRunning s \<longleftrightarrow> pc_Enabled (ts_cfg s)"
  by (auto simp: server_ok_def IsRunning_def)

interpretation tun: live_counter IncrTunnel DecrTunnel activeTunnels
  by unfold_locales simp_all

end
