(* ===== verification/ProxyManager.thy ===== *)
theory ProxyManager
  imports ProxyRuntime
begin

text \<open>
  The proxy manager, \<open>internal/proxy/manager.go\<close>. Entries are shared objects: a tunnel keeps the
  pointer to its entry while the manager replaces the entry under the same id. So the entries live
  in a store (\<open>heap\<close>, fresh addresses from \<open>next\<close>) and the manager's map holds addresses. The loops
  over the map follow the order of the list that represents it.
\<close>

section \<open>State\<close>

record pm_state =
  heap :: "nat \<Rightarrow> TCPServer"
  nxt :: nat
  servers :: "(string, nat) gomap"

definition no_proxy :: ProxyConfig where
  "no_proxy = \<lparr>pc_ID = [], pc_Name = [], pc_RemoteAddress = [], pc_Enabled = False\<rparr>"

definition NewProxyManager :: pm_state where
  "NewProxyManager = \<lparr>heap = (\<lambda>_. NewTCPServer 0 no_proxy), nxt = 0, servers = []\<rparr>"

definition pm_alloc :: "TCPServer \<Rightarrow> pm_state \<Rightarrow> nat \<times> pm_state" where
  "pm_alloc s pm = (nxt pm, pm\<lparr>heap := (heap pm)(nxt pm := s), nxt := nxt pm + 1\<rparr>)"

definition pm_modify :: "nat \<Rightarrow> (TCPServer \<Rightarrow> TCPServer) \<Rightarrow> pm_state \<Rightarrow> pm_state" where
  "pm_modify a f pm = pm\<lparr>heap := (heap pm)(a := f (heap pm a))\<rparr>"

definition pm_bind :: "string \<Rightarrow> nat \<Rightarrow> pm_state \<Rightarrow> pm_state" where
  "pm_bind i a pm = pm\<lparr>servers := mput i a (servers pm)\<rparr>"

section \<open>Operations\<close>

definition pm_AddProxy :: "int \<Rightarrow> ProxyConfig \<Rightarrow> pm_state \<Rightarrow> proxy_error option \<times> pm_state" where
  "pm_AddProxy now cfg pm =
     (case mget (servers pm) (pc_ID cfg) of
        Some _ \<Rightarrow> (Some (AlreadyExists (pc_ID cfg)), pm)
      | None \<Rightarrow>
          let s = NewTCPServer now cfg;
              (err, s) = (if pc_Enabled cfg then ts_Start now s else (None, s))
          in (case err of
                Some e \<Rightarrow> (Some e, pm)
              | None \<Rightarrow> let (a, pm) = pm_alloc s pm in (None, pm_bind (pc_ID cfg) a pm)))"

fun start_all :: "int \<Rightarrow> ProxyConfig list \<Rightarrow> pm_state \<Rightarrow> pm_state" where
  "start_all now [] pm = pm"
| "start_all now (pc # pcs) pm = start_all now pcs (snd (pm_AddProxy now pc pm))"

definition pm_StartAll :: "int \<Rightarrow> Config \<Rightarrow> pm_state \<Rightarrow> pm_state" where
  "pm_StartAll now cfg pm = start_all now (Proxies cfg) pm"

text \<open>\<open>for id, s := range m.servers { s.Stop(); delete(m.servers, id) }\<close>, for the ids that \<open>P\<close>
  selects: all of them in \<open>StopAll\<close>, the inactive ones in \<open>SyncWithConfig\<close>.\<close>

fun stop_loop :: "(string \<Rightarrow> bool) \<Rightarrow> (string, nat) gomap \<Rightarrow> pm_state \<Rightarrow> pm_state" where
  "stop_loop P [] pm = pm"
| "stop_loop P ((i, a) # rest) pm =
     (if P i
      then stop_loop P rest ((pm_modify a ts_Stop pm)\<lparr>servers := mdel i (servers pm)\<rparr>)
      else stop_loop P rest pm)"

definition pm_StopAll :: "pm_state \<Rightarrow> pm_state" where
  "pm_StopAll pm = stop_loop (\<lambda>_. True) (servers pm) pm"

definition pm_RemoveProxy :: "string \<Rightarrow> pm_state \<Rightarrow> proxy_error option \<times> pm_state" where
  "pm_RemoveProxy i pm =
     (case mget (servers pm) i of
        None \<Rightarrow> (Some (NotFound i), pm)
      | Some a \<Rightarrow> (None, (pm_modify a ts_Stop pm)\<lparr>servers := mdel i (servers pm)\<rparr>))"

definition pm_UpdateProxy :: "int \<Rightarrow> string \<Rightarrow> ProxyConfig \<Rightarrow> pm_state \<Rightarrow> proxy_error option \<times> pm_state" where
  "pm_UpdateProxy now i cfg pm =
     (case mget (servers pm) i of
        None \<Rightarrow> (Some (NotFound i), pm)
      | Some old \<Rightarrow>
          let pm = pm_modify old ts_Stop pm;
              s = NewTCPServer now cfg;
              (err, s) = (if pc_Enabled cfg then ts_Start now s else (None, s))
          in (case err of
                Some e \<Rightarrow>
                  let pm = (if pc_Enabled (ts_cfg (heap pm old))
                            then pm_modify old (\<lambda>s. snd (ts_Start now s)) pm else pm)
                  in (Some e, pm_bind i old pm)
              | None \<Rightarrow> let (a, pm) = pm_alloc s pm in (None, pm_bind i a pm)))"

definition GetAllStatus :: "pm_state \<Rightarrow> ProxyStatus list" where
  "GetAllStatus pm = map (\<lambda>(i, a). StatusInfo (heap pm a)) (servers pm)"

definition GetStatus :: "string \<Rightarrow> pm_state \<Rightarrow> proxy_error + ProxyStatus" where
  "GetStatus i pm =
     (case mget (servers pm) i of
        None \<Rightarrow> Inl (NotFound i)
      | Some a \<Rightarrow> Inr (StatusInfo (heap pm a)))"

definition GetTunnelServer :: "string \<Rightarrow> pm_state \<Rightarrow> proxy_error + nat" where
  "GetTunnelServer proxyID pm =
     (case mget (servers pm) proxyID of None \<Rightarrow> Inl (NotFound proxyID) | Some a \<Rightarrow> Inr a)"

definition start_new :: "int \<Rightarrow> ProxyConfig \<Rightarrow> pm_state \<Rightarrow> pm_state" where
  "start_new now pc pm =
     (let ns = NewTCPServer now pc;
          (err, ns) = (if pc_Enabled pc then ts_Start now ns else (None, ns))
      in (case err of
            Some _ \<Rightarrow> pm
          | None \<Rightarrow> let (a, pm) = pm_alloc ns pm in pm_bind (pc_ID pc) a pm))"

text \<open>One iteration of the first loop of \<open>SyncWithConfig\<close>.\<close>

definition sync_one :: "int \<Rightarrow> ProxyConfig \<Rightarrow> pm_state \<Rightarrow> pm_state" where
  "sync_one now pc pm =
     (case mget (servers pm) (pc_ID pc) of
        Some a \<Rightarrow>
          let oldCfg = ts_cfg (heap pm a)
          in if pc_Enabled oldCfg \<noteq> pc_Enabled pc \<or> pc_RemoteAddress oldCfg \<noteq> pc_RemoteAddress pc
                \<or> pc_Name oldCfg \<noteq> pc_Name pc
             then start_new now pc (pm_modify a ts_Stop pm)
             else pm_modify a (\<lambda>s. snd (ts_ReloadConfig now pc s)) pm
      | None \<Rightarrow> start_new now pc pm)"

fun sync_loop :: "int \<Rightarrow> ProxyConfig list \<Rightarrow> pm_state \<Rightarrow> pm_state" where
  "sync_loop now [] pm = pm"
| "sync_loop now (pc # pcs) pm = sync_loop now pcs (sync_one now pc pm)"

definition SyncWithConfig :: "int \<Rightarrow> Config \<Rightarrow> pm_state \<Rightarrow> pm_state" where
  "SyncWithConfig now cfg pm =
     (let activeIDs = pc_ID ` set (Proxies cfg);
          pm = sync_loop now (Proxies cfg) pm
      in stop_loop (\<lambda>i. i \<notin> activeIDs) (servers pm) pm)"

section \<open>Invariant\<close>

definition pm_inv :: "pm_state \<Rightarrow> bool" where
  "pm_inv pm \<longleftrightarrow>
     distinct (mkeys (servers pm))
     \<and> (\<forall>i a. mget (servers pm) i = Some a \<longrightarrow>
          a < nxt pm \<and> server_ok (heap pm a) \<and> pc_ID (ts_cfg (heap pm a)) = i)"

lemma pm_inv_distinct [simp]: "pm_inv pm \<Longrightarrow> distinct (mkeys (servers pm))"
  by (simp add: pm_inv_def)

lemma pm_invD:
  "pm_inv pm \<Longrightarrow> mget (servers pm) i = Some a \<Longrightarrow>
     a < nxt pm \<and> server_ok (heap pm a) \<and> pc_ID (ts_cfg (heap pm a)) = i"
  unfolding pm_inv_def by blast

lemma pm_invI:
  "distinct (mkeys (servers pm)) \<Longrightarrow>
   (\<And>i a. mget (servers pm) i = Some a \<Longrightarrow>
     a < nxt pm \<and> server_ok (heap pm a) \<and> pc_ID (ts_cfg (heap pm a)) = i) \<Longrightarrow> pm_inv pm"
  unfolding pm_inv_def by blast

text \<open>Two ids never share an entry, because an entry knows its id.\<close>

lemma pm_inv_inj:
  "pm_inv pm \<Longrightarrow> mget (servers pm) i = Some a \<Longrightarrow> mget (servers pm) j = Some a \<Longrightarrow> i = j"
  by (metis pm_invD)

lemma pm_inv_new [wf_intros, simp]: "pm_inv NewProxyManager"
  by (rule pm_invI) (simp_all add: NewProxyManager_def)

text \<open>The entry that comes out of creation and, if enabled, start.\<close>

definition started :: "int \<Rightarrow> ProxyConfig \<Rightarrow> TCPServer" where
  "started now pc = (let s = NewTCPServer now pc in if pc_Enabled pc then snd (ts_Start now s) else s)"

lemma started_props [simp]:
  "ts_cfg (started now pc) = pc" "activeTunnels (started now pc) = 0" "server_ok (started now pc)"
  by (simp_all add: started_def Let_def)

text \<open>The code's error branches after \<open>Start\<close> are never taken; the operations in closed form.\<close>

lemma start_no_error:
  "(if b then ts_Start now s else (None, s)) = (None, if b then snd (ts_Start now s) else s)"
  by (cases "ts_Start now s") (use ts_Start_no_error [of now s] in auto)

lemma start_new_eq:
  "start_new now pc pm =
     pm\<lparr>heap := (heap pm)(nxt pm := started now pc), nxt := nxt pm + 1,
        servers := mput (pc_ID pc) (nxt pm) (servers pm)\<rparr>"
  by (simp add: start_new_def start_no_error pm_alloc_def pm_bind_def started_def Let_def)

lemma pm_AddProxy_eq:
  "pm_AddProxy now cfg pm =
     (if mget (servers pm) (pc_ID cfg) = None then (None, start_new now cfg pm)
      else (Some (AlreadyExists (pc_ID cfg)), pm))"
  by (simp add: pm_AddProxy_def start_new_eq start_no_error pm_alloc_def pm_bind_def started_def Let_def
      split: option.split)

lemma pm_UpdateProxy_eq:
  "pc_ID cfg = i \<Longrightarrow> pm_UpdateProxy now i cfg pm =
     (case mget (servers pm) i of None \<Rightarrow> (Some (NotFound i), pm)
      | Some a \<Rightarrow> (None, start_new now cfg (pm_modify a ts_Stop pm)))"
  by (auto simp: pm_UpdateProxy_def start_new_eq start_no_error pm_alloc_def pm_bind_def started_def Let_def
      split: option.split)

lemma pm_modify_sel [simp]:
  "servers (pm_modify a f pm) = servers pm" "nxt (pm_modify a f pm) = nxt pm"
  "heap (pm_modify a f pm) b = (if b = a then f (heap pm a) else heap pm b)"
  by (simp_all add: pm_modify_def)

section \<open>Abstraction: a map from ids to configurations\<close>

definition abs_pm :: "pm_state \<Rightarrow> string \<rightharpoonup> ProxyConfig" where
  "abs_pm pm i = (case mget (servers pm) i of None \<Rightarrow> None | Some a \<Rightarrow> Some (ts_cfg (heap pm a)))"

lemma start_new_refines:
  assumes "pm_inv pm"
  shows "pm_inv (start_new now pc pm)" "abs_pm (start_new now pc pm) = (abs_pm pm)(pc_ID pc \<mapsto> pc)"
proof -
  note old = pm_invD [OF assms]
  show "pm_inv (start_new now pc pm)"
    by (rule pm_invI) (auto simp: start_new_eq assms less_SucI split: if_splits dest: old)
  show "abs_pm (start_new now pc pm) = (abs_pm pm)(pc_ID pc \<mapsto> pc)"
    by (rule ext) (auto simp: start_new_eq abs_pm_def split: option.splits dest: old)
qed

text \<open>Starting a new entry in place of a stopped one, or of none.\<close>

lemma restart_refines:
  assumes "pm_inv pm" "mget (servers pm) (pc_ID pc) = Some a"
  shows "pm_inv (start_new now pc (pm_modify a ts_Stop pm))"
    "abs_pm (start_new now pc (pm_modify a ts_Stop pm)) = (abs_pm pm)(pc_ID pc \<mapsto> pc)"
proof -
  have other: "mget (servers pm) j = Some b \<Longrightarrow> j \<noteq> pc_ID pc \<Longrightarrow> b \<noteq> a" for j b
    using assms by (metis pm_inv_inj)
  note old = pm_invD [OF assms(1)]
  show "pm_inv (start_new now pc (pm_modify a ts_Stop pm))"
    by (rule pm_invI)
      (auto simp: start_new_eq assms(1) less_SucI split: if_splits dest: old other)
  show "abs_pm (start_new now pc (pm_modify a ts_Stop pm)) = (abs_pm pm)(pc_ID pc \<mapsto> pc)"
    by (rule ext) (auto simp: start_new_eq abs_pm_def split: option.splits dest: old)
qed

lemma modify_refines:
  assumes "pm_inv pm" "mget (servers pm) i = Some a" "server_ok (f (heap pm a))"
    and "pc_ID (ts_cfg (f (heap pm a))) = i"
  shows "pm_inv (pm_modify a f pm)" "abs_pm (pm_modify a f pm) = (abs_pm pm)(i \<mapsto> ts_cfg (f (heap pm a)))"
proof -
  note old = pm_invD [OF assms(1)]
  have same: "mget (servers pm) j = Some a \<Longrightarrow> j = i" for j
    using assms(1,2) by (metis pm_inv_inj)
  show "pm_inv (pm_modify a f pm)"
    by (rule pm_invI) (use assms in \<open>auto split: if_splits dest: old same\<close>)
  show "abs_pm (pm_modify a f pm) = (abs_pm pm)(i \<mapsto> ts_cfg (f (heap pm a)))"
    by (rule ext) (use assms in \<open>auto simp: abs_pm_def split: option.splits dest: same\<close>)
qed

lemma sync_one_refines:
  assumes "pm_inv pm"
  shows "pm_inv (sync_one now pc pm)" "abs_pm (sync_one now pc pm) = (abs_pm pm)(pc_ID pc \<mapsto> pc)"
proof -
  have "pm_inv (sync_one now pc pm) \<and> abs_pm (sync_one now pc pm) = (abs_pm pm)(pc_ID pc \<mapsto> pc)"
  proof (cases "mget (servers pm) (pc_ID pc)")
    case None
    with assms show ?thesis by (simp add: sync_one_def start_new_refines)
  next
    case (Some a)
    with pm_invD [OF assms Some] show ?thesis
      using restart_refines [OF assms Some, of now]
        modify_refines [OF assms Some, of "\<lambda>s. snd (ts_ReloadConfig now pc s)"]
      by (auto simp: sync_one_def Let_def ts_ReloadConfig_ok)
  qed
  then show "pm_inv (sync_one now pc pm)" "abs_pm (sync_one now pc pm) = (abs_pm pm)(pc_ID pc \<mapsto> pc)"
    by simp_all
qed

lemma sync_loop_refines:
  "pm_inv pm \<Longrightarrow> pm_inv (sync_loop now pcs pm)
     \<and> abs_pm (sync_loop now pcs pm) = abs_pm pm ++ map_of (rev (map (\<lambda>p. (pc_ID p, p)) pcs))"
proof (induction pcs arbitrary: pm)
  case (Cons pc pcs)
  note one = sync_one_refines [OF Cons.prems, of now pc]
  from Cons.IH [OF one(1)] show ?case
    by (auto simp: one(2) fun_eq_iff map_add_def split: option.splits)
qed simp

lemma del_stop_refines:
  assumes "pm_inv pm" "mget (servers pm) i = Some a"
  shows "pm_inv ((pm_modify a ts_Stop pm)\<lparr>servers := mdel i (servers pm)\<rparr>)"
    "abs_pm ((pm_modify a ts_Stop pm)\<lparr>servers := mdel i (servers pm)\<rparr>) = (abs_pm pm)(i := None)"
proof -
  note old = pm_invD [OF assms(1)]
  have other: "mget (servers pm) j = Some a \<Longrightarrow> j = i" for j
    using assms by (metis pm_inv_inj)
  show "pm_inv ((pm_modify a ts_Stop pm)\<lparr>servers := mdel i (servers pm)\<rparr>)"
    by (rule pm_invI) (auto simp: assms(1) pm_modify_def split: if_splits dest: old other)
  show "abs_pm ((pm_modify a ts_Stop pm)\<lparr>servers := mdel i (servers pm)\<rparr>) = (abs_pm pm)(i := None)"
    by (rule ext) (auto simp: abs_pm_def pm_modify_def split: option.splits)
qed

lemma stop_loop_refines:
  "pm_inv pm \<Longrightarrow> distinct (mkeys l) \<Longrightarrow> (\<And>i a. (i, a) \<in> set l \<Longrightarrow> mget (servers pm) i = Some a) \<Longrightarrow>
     pm_inv (stop_loop P l pm)
     \<and> abs_pm (stop_loop P l pm) = (\<lambda>i. if P i \<and> i \<in> set (mkeys l) then None else abs_pm pm i)"
proof (induction l arbitrary: pm)
  case (Cons x l)
  obtain i a where x: "x = (i, a)" by (cases x)
  have ia: "mget (servers pm) i = Some a" using Cons.prems(3) x by simp
  show ?case
  proof (cases "P i")
    case True
    let ?pm = "(pm_modify a ts_Stop pm)\<lparr>servers := mdel i (servers pm)\<rparr>"
    note d = del_stop_refines [OF Cons.prems(1) ia]
    have "mget (servers ?pm) j = Some b" if "(j, b) \<in> set l" for j b
      using that Cons.prems(2) Cons.prems(3) [of j b] x by force
    with Cons.IH [OF d(1)] Cons.prems(2) x show ?thesis
      using True d(2) by (auto simp: fun_eq_iff)
  next
    case False
    with Cons.IH [OF Cons.prems(1)] Cons.prems x show ?thesis
      by (auto simp: fun_eq_iff)
  qed
qed simp

lemma stop_loop_all:
  "pm_inv pm \<Longrightarrow> pm_inv (stop_loop P (servers pm) pm)
     \<and> abs_pm (stop_loop P (servers pm) pm) = (\<lambda>i. if P i then None else abs_pm pm i)"
proof -
  assume inv: "pm_inv pm"
  have "abs_pm pm i = None" if "i \<notin> set (mkeys (servers pm))" for i
    using that mget_None_iff [of "servers pm" i] by (simp add: abs_pm_def)
  with stop_loop_refines [OF inv pm_inv_distinct [OF inv], of P] show ?thesis
    by (auto simp: fun_eq_iff mget_Some_iff [OF pm_inv_distinct [OF inv]])
qed

lemma SyncWithConfig_refines:
  assumes "pm_inv pm"
  shows "pm_inv (SyncWithConfig now cfg pm)"
    "abs_pm (SyncWithConfig now cfg pm) = map_of (rev (map (\<lambda>p. (pc_ID p, p)) (Proxies cfg)))"
proof -
  let ?m = "map_of (rev (map (\<lambda>p. (pc_ID p, p)) (Proxies cfg)))"
  let ?pm = "sync_loop now (Proxies cfg) pm"
  note s = sync_loop_refines [OF assms, of now "Proxies cfg"]
  note t = stop_loop_all [OF conjunct1 [OF s], of "\<lambda>i. i \<notin> pc_ID ` set (Proxies cfg)"]
  from t show "pm_inv (SyncWithConfig now cfg pm)" by (simp add: SyncWithConfig_def Let_def)
  have dom: "?m i = None \<longleftrightarrow> i \<notin> pc_ID ` set (Proxies cfg)" for i
    by (force simp: map_of_eq_None_iff)
  have "abs_pm (SyncWithConfig now cfg pm) i = ?m i" for i
  proof (cases "i \<in> pc_ID ` set (Proxies cfg)")
    case True
    then obtain p where "?m i = Some p" using dom by (metis not_None_eq)
    with True s t show ?thesis by (simp add: SyncWithConfig_def Let_def)
  next
    case False
    with dom [of i] t show ?thesis by (simp add: SyncWithConfig_def Let_def)
  qed
  then show "abs_pm (SyncWithConfig now cfg pm) = ?m" by blast
qed

lemma pm_AddProxy_refines:
  "pm_inv pm \<Longrightarrow> pm_AddProxy now cfg pm = (e, pm') \<Longrightarrow>
     pm_inv pm' \<and> abs_pm pm' = (if abs_pm pm (pc_ID cfg) = None then (abs_pm pm)(pc_ID cfg \<mapsto> cfg) else abs_pm pm)
     \<and> (e = None \<longleftrightarrow> abs_pm pm (pc_ID cfg) = None)"
  using start_new_refines [of pm now cfg]
  by (auto simp: pm_AddProxy_eq abs_pm_def split: if_splits option.splits)

lemma pm_RemoveProxy_refines:
  "pm_inv pm \<Longrightarrow> pm_RemoveProxy i pm = (e, pm') \<Longrightarrow>
     pm_inv pm' \<and> abs_pm pm' = (abs_pm pm)(i := None) \<and> (e = None \<longleftrightarrow> abs_pm pm i \<noteq> None)"
proof (cases "mget (servers pm) i")
  case None
  then have "(abs_pm pm)(i := None) = abs_pm pm" by (auto simp: abs_pm_def fun_eq_iff)
  then show "pm_inv pm \<Longrightarrow> pm_RemoveProxy i pm = (e, pm') \<Longrightarrow> ?thesis"
    using None by (auto simp: pm_RemoveProxy_def abs_pm_def)
next
  case (Some a)
  then show "pm_inv pm \<Longrightarrow> pm_RemoveProxy i pm = (e, pm') \<Longrightarrow> ?thesis"
    using del_stop_refines [of pm i a] by (auto simp: pm_RemoveProxy_def) (simp add: abs_pm_def)
qed

lemma pm_UpdateProxy_refines:
  "pm_inv pm \<Longrightarrow> pc_ID cfg = i \<Longrightarrow> pm_UpdateProxy now i cfg pm = (e, pm') \<Longrightarrow>
     pm_inv pm' \<and> abs_pm pm' = (if abs_pm pm i = None then abs_pm pm else (abs_pm pm)(i \<mapsto> cfg))
     \<and> (e = None \<longleftrightarrow> abs_pm pm i \<noteq> None)"
  using restart_refines [of pm cfg _ now]
  by (auto simp: pm_UpdateProxy_eq split: option.splits) (auto simp: abs_pm_def)

lemma start_all_inv: "pm_inv pm \<Longrightarrow> pm_inv (start_all now pcs pm)"
  by (induction pcs arbitrary: pm) (auto dest: pm_AddProxy_refines [OF _ surjective_pairing])

section \<open>The manager as a proxy store\<close>

definition pm_ids :: "pm_state \<Rightarrow> string list" where
  "pm_ids pm = mkeys (servers pm)"

lemma pm_UpdateProxy_ids:
  "pm_UpdateProxy now i cfg pm = (e, pm') \<Longrightarrow>
     (e = None \<longleftrightarrow> i \<in> set (pm_ids pm)) \<and> set (pm_ids pm') = set (pm_ids pm)
     \<and> (distinct (pm_ids pm) \<longrightarrow> distinct (pm_ids pm'))"
proof (cases "mget (servers pm) i")
  case None
  then show "pm_UpdateProxy now i cfg pm = (e, pm') \<Longrightarrow> ?thesis"
    by (auto simp: pm_UpdateProxy_def pm_ids_def mget_None_iff)
next
  case (Some a)
  from in_keys [OF Some] show "pm_UpdateProxy now i cfg pm = (e, pm') \<Longrightarrow> ?thesis"
    using Some by (simp add: pm_UpdateProxy_def start_no_error pm_alloc_def Let_def pm_ids_def pm_bind_def)
      (force simp: insert_absorb)
qed

interpretation ps: proxy_store pm_ids "pm_AddProxy now" "pm_UpdateProxy now" pm_RemoveProxy for now
proof
  fix p s e s'
  assume "distinct (pm_ids s)" "pc_ID p \<notin> set (pm_ids s)" "pm_AddProxy now p s = (e, s')"
  then show "distinct (pm_ids s')"
    by (auto simp: pm_AddProxy_eq start_new_eq pm_ids_def split: if_splits)
next
  fix s i s'
  assume "pm_RemoveProxy i s = (None, s')"
  then obtain a where a: "mget (servers s) i = Some a"
    and s': "s' = (pm_modify a ts_Stop s)\<lparr>servers := mdel i (servers s)\<rparr>"
    by (auto simp: pm_RemoveProxy_def split: option.splits)
  show "i \<in> set (pm_ids s) \<and> set (pm_ids s') = set (pm_ids s) - {i}"
    by (simp add: s' pm_ids_def in_keys [OF a])
next
  fix p s s'
  assume "pm_AddProxy now p s = (None, s')"
  then have s': "s' = start_new now p s" by (simp add: pm_AddProxy_eq split: if_splits)
  show "set (pm_ids s') = insert (pc_ID p) (set (pm_ids s))"
    by (simp add: s' start_new_eq pm_ids_def)
next
  fix s i e s'
  assume "distinct (pm_ids s)" "pm_RemoveProxy i s = (e, s')"
  then show "distinct (pm_ids s')"
    by (auto simp: pm_RemoveProxy_def pm_ids_def split: option.splits)
qed (use pm_UpdateProxy_ids in \<open>metis+\<close>)

section \<open>Tunnels in flight\<close>

text \<open>
  The manager together with the tunnels that are running: each tunnel holds the address of the
  entry it was opened on. A step is one manager operation, one opening through \<open>TunnelIngress\<close>'s
  guards, or one closing (the deferred \<open>DecrTunnel\<close>), in any order.
\<close>

record tunnel_world =
  tw_pm :: pm_state
  tw_live :: "nat list"

definition tw_init :: "tunnel_world \<Rightarrow> bool" where
  "tw_init w \<longleftrightarrow> w = \<lparr>tw_pm = NewProxyManager, tw_live = []\<rparr>"

inductive tw_step :: "tunnel_world \<Rightarrow> tunnel_world \<Rightarrow> bool" where
  tw_add: "tw_step w (w\<lparr>tw_pm := snd (pm_AddProxy now cfg (tw_pm w))\<rparr>)"
| tw_remove: "tw_step w (w\<lparr>tw_pm := snd (pm_RemoveProxy i (tw_pm w))\<rparr>)"
| tw_update: "pc_ID cfg = i \<Longrightarrow> tw_step w (w\<lparr>tw_pm := snd (pm_UpdateProxy now i cfg (tw_pm w))\<rparr>)"
| tw_sync: "tw_step w (w\<lparr>tw_pm := SyncWithConfig now c (tw_pm w)\<rparr>)"
| tw_stop_all: "tw_step w (w\<lparr>tw_pm := pm_StopAll (tw_pm w)\<rparr>)"
| tw_open: "GetTunnelServer i (tw_pm w) = Inr a \<Longrightarrow> pc_Enabled (ts_cfg (heap (tw_pm w) a)) \<Longrightarrow>
    IsRunning (heap (tw_pm w) a) \<Longrightarrow>
    tw_step w (w\<lparr>tw_pm := pm_modify a IncrTunnel (tw_pm w), tw_live := a # tw_live w\<rparr>)"
| tw_close: "a \<in> set (tw_live w) \<Longrightarrow>
    tw_step w (w\<lparr>tw_pm := pm_modify a DecrTunnel (tw_pm w), tw_live := remove1 a (tw_live w)\<rparr>)"

text \<open>What every manager operation leaves alone: the counters of all existing entries; new entries
  count zero.\<close>

definition keeps_counts :: "pm_state \<Rightarrow> pm_state \<Rightarrow> bool" where
  "keeps_counts pm pm' \<longleftrightarrow> nxt pm \<le> nxt pm' \<and>
     (\<forall>a. activeTunnels (heap pm' a) = (if nxt pm \<le> a \<and> a < nxt pm' then 0 else activeTunnels (heap pm a)))"

lemma keeps_counts_refl [simp]: "keeps_counts pm pm"
  by (auto simp add: keeps_counts_def)

lemma keeps_counts_trans: "keeps_counts p q \<Longrightarrow> keeps_counts q r \<Longrightarrow> keeps_counts p r"
  by (fastforce simp: keeps_counts_def)

lemma keeps_counts_start: "keeps_counts pm (start_new now pc pm)"
  by (auto simp: keeps_counts_def start_new_eq)

lemma keeps_counts_modify:
  "(\<And>s. activeTunnels (f s) = activeTunnels s) \<Longrightarrow> keeps_counts pm (pm_modify a f pm)"
  by (auto simp: keeps_counts_def)

lemma keeps_counts_del: "keeps_counts pm ((pm_modify a ts_Stop pm)\<lparr>servers := m\<rparr>)"
  by (auto simp: keeps_counts_def pm_modify_def)

lemma keeps_counts_sync_one: "keeps_counts pm (sync_one now pc pm)"
  by (auto simp: sync_one_def Let_def keeps_counts_start keeps_counts_modify split: option.split
    intro: keeps_counts_trans [OF keeps_counts_modify keeps_counts_start])

lemma keeps_counts_sync_loop: "keeps_counts pm (sync_loop now pcs pm)"
  by (induction pcs arbitrary: pm) (auto intro: keeps_counts_trans [OF keeps_counts_sync_one])

lemma keeps_counts_stop_loop: "keeps_counts pm (stop_loop P l pm)"
  by (induction P l pm rule: stop_loop.induct) (auto intro: keeps_counts_trans [OF keeps_counts_del])

lemmas keeps_counts_ops = keeps_counts_start keeps_counts_del
  keeps_counts_trans [OF keeps_counts_sync_loop keeps_counts_stop_loop] keeps_counts_stop_loop
  keeps_counts_trans [OF keeps_counts_modify keeps_counts_start]

definition tw_inv :: "tunnel_world \<Rightarrow> bool" where
  "tw_inv w \<longleftrightarrow> pm_inv (tw_pm w) \<and> (\<forall>a \<in> set (tw_live w). a < nxt (tw_pm w))
     \<and> (\<forall>a. activeTunnels (heap (tw_pm w) a) = of_nat (count_list (tw_live w) a))"

text \<open>A manager operation that keeps the manager's invariant and the counters keeps the world's.\<close>

lemma tw_inv_manager:
  assumes "tw_inv w" "pm_inv pm" "keeps_counts (tw_pm w) pm"
  shows "tw_inv (w\<lparr>tw_pm := pm\<rparr>)"
proof -
  have "count_list (tw_live w) a = 0" if "nxt (tw_pm w) \<le> a" for a
    using assms(1) that by (auto simp: tw_inv_def count_list_0_iff)
  then show ?thesis
    using assms by (auto simp: tw_inv_def keeps_counts_def)
qed

lemma count_list_remove1: "count_list (remove1 x xs) y = count_list xs y - (if x = y then 1 else 0)"
  by (induction xs) (auto simp: Suc_diff_le count_list_0_iff neq0_conv)

lemma pm_modify_count_inv:
  "pm_inv pm \<Longrightarrow> (\<And>s. server_ok (f s) = server_ok s) \<Longrightarrow> (\<And>s. ts_cfg (f s) = ts_cfg s) \<Longrightarrow>
     pm_inv (pm_modify a f pm)"
  by (rule pm_invI) (auto split: if_splits dest: pm_invD)

lemma tw_step_inv: "tw_inv w \<Longrightarrow> tw_step w w' \<Longrightarrow> tw_inv w'"
proof (rotate_tac, induction rule: tw_step.induct)
  case (tw_add w now cfg)
  have "pm_inv (snd (pm_AddProxy now cfg (tw_pm w)))"
    using tw_add pm_AddProxy_refines [OF _ surjective_pairing] by (auto simp: tw_inv_def)
  then show ?case
    by (rule tw_inv_manager [OF tw_add]) (auto simp: pm_AddProxy_eq keeps_counts_ops)
next
  case (tw_remove w i)
  have "pm_inv (snd (pm_RemoveProxy i (tw_pm w)))"
    using tw_remove pm_RemoveProxy_refines [OF _ surjective_pairing] by (auto simp: tw_inv_def)
  then show ?case
    by (rule tw_inv_manager [OF tw_remove]) (auto simp: pm_RemoveProxy_def keeps_counts_ops split: option.split)
next
  case (tw_update cfg i w now)
  have "pm_inv (snd (pm_UpdateProxy now i cfg (tw_pm w)))"
    using tw_update pm_UpdateProxy_refines [OF _ _ surjective_pairing] by (auto simp: tw_inv_def)
  then show ?case
    by (rule tw_inv_manager [OF tw_update(2)])
      (auto simp: pm_UpdateProxy_eq [OF tw_update(1)] keeps_counts_ops split: option.split)
next
  case (tw_sync w now c)
  then show ?case
    by (intro tw_inv_manager SyncWithConfig_refines)
      (auto simp: tw_inv_def SyncWithConfig_def Let_def keeps_counts_ops)
next
  case (tw_stop_all w)
  then show ?case
    by (intro tw_inv_manager) (auto simp: tw_inv_def pm_StopAll_def stop_loop_all keeps_counts_ops)
next
  case (tw_open i w a)
  have "mget (servers (tw_pm w)) i = Some a"
    using tw_open(1) by (simp add: GetTunnelServer_def split: option.splits)
  then have "a < nxt (tw_pm w)" using tw_open(4) pm_invD by (auto simp: tw_inv_def)
  then show ?case
    using tw_open(4) by (auto simp: tw_inv_def intro: pm_modify_count_inv)
next
  case (tw_close a w)
  have "0 < count_list (tw_live w) a"
    using tw_close(1) by (simp add: count_list_0_iff neq0_conv [symmetric] del: neq0_conv)
  then show ?case
    using tw_close(2) by (auto simp: tw_inv_def count_list_remove1 of_nat_diff
      intro: pm_modify_count_inv dest: set_remove1_subset [THEN subsetD])
qed

interpretation tw: invariant_system tw_init tw_step tw_inv
proof
  show "tw_inv w" if "tw_init w" for w
    using that by (simp add: tw_init_def tw_inv_def) (simp add: NewProxyManager_def)
qed (rule tw_step_inv)

section \<open>Histories of operations and their specification\<close>

text \<open>The callers' operations: the REST handlers, hot reload and shutdown. The update handler writes
  the id of the URL into the configuration, so the two ids agree.\<close>

datatype pm_op = OpAdd ProxyConfig | OpUpdate ProxyConfig | OpRemove string | OpSync Config | OpStopAll

fun pm_apply :: "int \<Rightarrow> pm_op \<Rightarrow> pm_state \<Rightarrow> proxy_error option \<times> pm_state" where
  "pm_apply now (OpAdd cfg) pm = pm_AddProxy now cfg pm"
| "pm_apply now (OpUpdate cfg) pm = pm_UpdateProxy now (pc_ID cfg) cfg pm"
| "pm_apply now (OpRemove i) pm = pm_RemoveProxy i pm"
| "pm_apply now (OpSync c) pm = (None, SyncWithConfig now c pm)"
| "pm_apply now OpStopAll pm = (None, pm_StopAll pm)"

fun spec_apply :: "pm_op \<Rightarrow> (string \<rightharpoonup> ProxyConfig) \<Rightarrow> proxy_error option \<times> (string \<rightharpoonup> ProxyConfig)" where
  "spec_apply (OpAdd cfg) m =
     (if pc_ID cfg \<in> dom m then (Some (AlreadyExists (pc_ID cfg)), m) else (None, m(pc_ID cfg \<mapsto> cfg)))"
| "spec_apply (OpUpdate cfg) m =
     (if pc_ID cfg \<in> dom m then (None, m(pc_ID cfg \<mapsto> cfg)) else (Some (NotFound (pc_ID cfg)), m))"
| "spec_apply (OpRemove i) m = (if i \<in> dom m then (None, m(i := None)) else (Some (NotFound i), m))"
| "spec_apply (OpSync c) m = (None, map_of (rev (map (\<lambda>p. (pc_ID p, p)) (Proxies c))))"
| "spec_apply OpStopAll m = (None, \<lambda>_. None)"

fun run_ops :: "('o \<Rightarrow> 's \<Rightarrow> 'r \<times> 's) \<Rightarrow> 'o list \<Rightarrow> 's \<Rightarrow> 'r list \<times> 's" where
  "run_ops f [] s = ([], s)"
| "run_ops f (x # xs) s = (let (r, s1) = f x s; (rs, s2) = run_ops f xs s1 in (r # rs, s2))"

lemma abs_pm_None: "abs_pm pm i = None \<longleftrightarrow> mget (servers pm) i = None"
  by (simp add: abs_pm_def split: option.split)

lemma dom_abs_pm: "i \<in> dom (abs_pm pm) \<longleftrightarrow> mget (servers pm) i \<noteq> None"
  by (simp add: domIff abs_pm_None)

lemma pm_apply_refines:
  "pm_inv pm \<Longrightarrow> pm_apply now x pm = (e, pm') \<Longrightarrow> pm_inv pm' \<and> spec_apply x (abs_pm pm) = (e, abs_pm pm')"
proof (cases x)
  case (OpAdd cfg)
  assume "pm_inv pm" "pm_apply now x pm = (e, pm')"
  then show ?thesis
    using pm_AddProxy_refines [of pm now cfg e pm'] OpAdd
    by (auto simp: pm_AddProxy_eq domIff abs_pm_None split: if_splits)
next
  case (OpUpdate cfg)
  assume "pm_inv pm" "pm_apply now x pm = (e, pm')"
  then show ?thesis
    using pm_UpdateProxy_refines [of pm cfg "pc_ID cfg" now e pm'] OpUpdate
    by (auto simp: pm_UpdateProxy_eq domIff abs_pm_None split: option.splits)
next
  case (OpRemove i)
  assume "pm_inv pm" "pm_apply now x pm = (e, pm')"
  then show ?thesis
    using pm_RemoveProxy_refines [of pm i e pm'] OpRemove
    by (auto simp: pm_RemoveProxy_def domIff abs_pm_None split: option.splits)
next
  case (OpSync c)
  assume "pm_inv pm" "pm_apply now x pm = (e, pm')"
  then show ?thesis using SyncWithConfig_refines [of pm now c] OpSync by auto
next
  case OpStopAll
  assume "pm_inv pm" "pm_apply now x pm = (e, pm')"
  then show ?thesis using stop_loop_all [of pm "\<lambda>_. True"] OpStopAll by (auto simp: pm_StopAll_def)
qed

lemma run_ops_refines:
  "pm_inv pm \<Longrightarrow> run_ops (pm_apply now) xs pm = (es, pm') \<Longrightarrow>
     pm_inv pm' \<and> run_ops spec_apply xs (abs_pm pm) = (es, abs_pm pm')"
proof (induction xs arbitrary: pm es)
  case (Cons x xs)
  obtain e pm1 where x: "pm_apply now x pm = (e, pm1)" by (cases "pm_apply now x pm")
  obtain es1 where r: "run_ops (pm_apply now) xs pm1 = (es1, pm')" "es = e # es1"
    using Cons.prems(2) x by (auto simp: Let_def split: prod.splits)
  from pm_apply_refines [OF Cons.prems(1) x] Cons.IH [OF _ r(1)] r(2) show ?case by auto
qed simp

text \<open>C17: The proxy manager implements a map from proxy ids to configurations. After any history of
  additions, updates, removals, hot reloads and shutdowns, the errors it returned and the
  configurations its entries hold are those of the same history on the map: an addition fails exactly
  on an existing id, an update or a removal exactly on an unknown one and a failed operation changes
  nothing; a reload installs exactly the file's list (the last entry of a repeated id).\<close>

theorem manager_refines_map:
  "run_ops spec_apply xs (\<lambda>_. None) =
     (let (es, pm) = run_ops (pm_apply now) xs NewProxyManager in (es, abs_pm pm))"
proof -
  obtain es pm where r: "run_ops (pm_apply now) xs NewProxyManager = (es, pm)"
    by (cases "run_ops (pm_apply now) xs NewProxyManager")
  have "abs_pm NewProxyManager = (\<lambda>_. None)" by (simp add: fun_eq_iff abs_pm_None NewProxyManager_def)
  with run_ops_refines [OF pm_inv_new r] r show ?thesis by simp
qed

section \<open>Properties of reachable managers\<close>

abbreviation tw_reachable :: "tunnel_world \<Rightarrow> bool" where
  "tw_reachable \<equiv> reachable_from tw_init tw_step"

lemma tw_reachable_pm: "tw_reachable w \<Longrightarrow> pm_inv (tw_pm w)"
  using tw.reachable_inv by (simp add: tw_inv_def)

lemma tw_reachable_count:
  "tw_reachable w \<Longrightarrow> activeTunnels (heap (tw_pm w) a) = of_nat (count_list (tw_live w) a)"
  using tw.reachable_inv by (simp add: tw_inv_def)

lemma tw_reachable_new: "tw_reachable \<lparr>tw_pm = NewProxyManager, tw_live = []\<rparr>"
  by (rule reachable_from.start) (simp add: tw_init_def)

definition demo_proxy :: ProxyConfig where
  "demo_proxy = \<lparr>pc_ID = ''a'', pc_Name = ''ssh'', pc_RemoteAddress = ''10.0.0.1:22'', pc_Enabled = True\<rparr>"

definition demo_file :: Config where
  "demo_file = \<lparr>Proxies = [demo_proxy],
     Server = \<lparr>Port = 8080, StaticDir = ''web'', Auth = \<lparr>APIKey = []\<rparr>\<rparr>\<rparr>"

definition demo_pm :: pm_state where
  "demo_pm = snd (pm_AddProxy 5 demo_proxy NewProxyManager)"

lemma demo_servers: "servers demo_pm = [(''a'', 0)]" "nxt demo_pm = 1"
  by (simp_all add: demo_pm_def pm_AddProxy_eq start_new_eq demo_proxy_def NewProxyManager_def)

lemma demo_entry: "heap demo_pm 0 = started 5 demo_proxy"
  by (simp add: demo_pm_def pm_AddProxy_eq start_new_eq NewProxyManager_def)

lemma demo_reachable: "tw_reachable \<lparr>tw_pm = demo_pm, tw_live = []\<rparr>"
  using reachable_from.step [OF tw_reachable_new tw_add, of 5 demo_proxy] by (simp add: demo_pm_def)

lemma demo_open_reachable: "tw_reachable \<lparr>tw_pm = pm_modify 0 IncrTunnel demo_pm, tw_live = [0]\<rparr>"
proof -
  have ok: "GetTunnelServer ''a'' demo_pm = Inr 0" "pc_Enabled (ts_cfg (heap demo_pm 0))"
    by (simp_all add: GetTunnelServer_def demo_servers demo_entry demo_proxy_def)
  then have "IsRunning (heap demo_pm 0)" by (simp add: IsRunning_ok demo_entry)
  with reachable_from.step [OF demo_reachable tw_open, of "''a''" 0] ok show ?thesis by simp
qed

text \<open>In every state the manager can reach, whatever operations and tunnels came before, the
  entry the ingress finds runs exactly when its configuration is enabled: once the ingress has
  passed its test of \<open>Enabled\<close>, its 503 branch (entry not running) is never taken.\<close>

lemma ingress_running_iff_enabled:
  assumes "tw_reachable w" "GetTunnelServer i (tw_pm w) = Inr a"
  shows "IsRunning (heap (tw_pm w) a) \<longleftrightarrow> pc_Enabled (ts_cfg (heap (tw_pm w) a))"
proof -
  have "mget (servers (tw_pm w)) i = Some a"
    using assms(2) by (simp add: GetTunnelServer_def split: option.splits)
  then show ?thesis using pm_invD [OF tw_reachable_pm [OF assms(1)]] by (simp add: IsRunning_ok)
qed

text \<open>C27: The number of connections the status of a proxy shows is, in every reachable state with
  fewer than \<open>2 ^ 63\<close> tunnels, exactly the number of tunnels that were opened on the entry now in
  service and have not closed.\<close>

theorem connections_are_live_tunnels:
  assumes "tw_reachable w" "length (tw_live w) < 2 ^ 63"
    and "mget (servers (tw_pm w)) i = Some a" "GetStatus i (tw_pm w) = Inr st"
  shows "ps_Connections st = int (count_list (tw_live w) a)"
proof -
  have "count_list (tw_live w) a < 2 ^ 63"
    using count_le_length [of "tw_live w" a] assms(2) by simp
  with assms(3,4) tw_reachable_count [OF assms(1), of a] show ?thesis
    by (auto simp: GetStatus_def StatusInfo_def sint_of_nat_small)
qed

theorem connections_are_live_tunnels_witness:
  "GetStatus ''a'' (pm_modify 0 IncrTunnel demo_pm) = Inr (StatusInfo (IncrTunnel (started 5 demo_proxy)))
     \<and> ps_Connections (StatusInfo (IncrTunnel (started 5 demo_proxy))) = 1"
proof -
  have g: "GetStatus ''a'' (pm_modify 0 IncrTunnel demo_pm) = Inr (StatusInfo (IncrTunnel (started 5 demo_proxy)))"
    by (simp add: GetStatus_def demo_servers demo_entry)
  from connections_are_live_tunnels [OF demo_open_reachable, of "''a''" 0] g demo_servers show ?thesis by simp
qed

text \<open>An update that reaches a proxy with running tunnels puts a fresh entry in service: the
  proxy's status starts again from zero connections although no tunnel was closed, and the tunnels
  keep the old entry, which is no longer under any id.\<close>

lemma update_loses_connection_count:
  assumes "tw_reachable w" "mget (servers (tw_pm w)) (pc_ID cfg) = Some a"
    and "pm_UpdateProxy now (pc_ID cfg) cfg (tw_pm w) = (e, pm')"
  shows "e = None \<and> (\<exists>st. GetStatus (pc_ID cfg) pm' = Inr st \<and> ps_Connections st = 0)
     \<and> a \<notin> snd ` set (servers pm')
     \<and> activeTunnels (heap pm' a) = of_nat (count_list (tw_live w) a)"
proof -
  note inv = tw_reachable_pm [OF assms(1)]
  note a = pm_invD [OF inv assms(2)]
  have upd: "e = None" "pm' = start_new now cfg (pm_modify a ts_Stop (tw_pm w))"
    using assms(2,3) by (auto simp: pm_UpdateProxy_eq)
  have "pm_inv pm'" using restart_refines [OF inv assms(2)] upd(2) by simp
  have "mget (servers pm') j \<noteq> Some a" for j
    using pm_inv_inj [OF inv assms(2), of j] a by (auto simp: upd(2) start_new_eq)
  then have "a \<notin> snd ` set (servers pm')"
    using mget_Some_iff [OF pm_inv_distinct [OF \<open>pm_inv pm'\<close>], of _ a] by auto
  with a tw_reachable_count [OF assms(1), of a] show ?thesis
    by (auto simp: upd start_new_eq GetStatus_def StatusInfo_def)
qed

section \<open>Hot reload\<close>

lemma sync_one_other:
  assumes "pm_inv pm" "mget (servers pm) i = Some a" "pc_ID q \<noteq> i"
  shows "mget (servers (sync_one now q pm)) i = Some a \<and> heap (sync_one now q pm) a = heap pm a"
proof -
  have "a < nxt pm" using pm_invD [OF assms(1,2)] by simp
  moreover have "b \<noteq> a" if "mget (servers pm) (pc_ID q) = Some b" for b
    using that assms by (metis pm_inv_inj)
  ultimately show ?thesis
    using assms by (auto simp: sync_one_def Let_def start_new_eq split: option.split)
qed

lemma sync_one_same:
  assumes "pm_inv pm" "mget (servers pm) (pc_ID p) = Some a" "ts_cfg (heap pm a) = p"
  shows "mget (servers (sync_one now p pm)) (pc_ID p) = Some a"
    "ts_cfg (heap (sync_one now p pm) a) = p"
    "activeTunnels (heap (sync_one now p pm) a) = activeTunnels (heap pm a)"
    "ps_StartedAt (ts_status (heap (sync_one now p pm) a)) = ps_StartedAt (ts_status (heap pm a))"
proof -
  have ok: "server_ok (heap pm a)" using pm_invD [OF assms(1,2)] by simp
  have "ps_StartedAt (ts_status (snd (ts_ReloadConfig now p (heap pm a)))) = ps_StartedAt (ts_status (heap pm a))"
    using ok assms(3) by (auto simp: server_ok_def ts_ReloadConfig_def applyStartLocked_def Let_def)
  then show "mget (servers (sync_one now p pm)) (pc_ID p) = Some a"
    "ts_cfg (heap (sync_one now p pm) a) = p"
    "activeTunnels (heap (sync_one now p pm) a) = activeTunnels (heap pm a)"
    "ps_StartedAt (ts_status (heap (sync_one now p pm) a)) = ps_StartedAt (ts_status (heap pm a))"
    using assms by (simp_all add: sync_one_def Let_def)
qed

lemma sync_loop_same:
  "pm_inv pm \<Longrightarrow> mget (servers pm) (pc_ID p) = Some a \<Longrightarrow> ts_cfg (heap pm a) = p \<Longrightarrow>
   (\<And>q. q \<in> set qs \<Longrightarrow> pc_ID q = pc_ID p \<Longrightarrow> q = p) \<Longrightarrow>
     mget (servers (sync_loop now qs pm)) (pc_ID p) = Some a
     \<and> activeTunnels (heap (sync_loop now qs pm) a) = activeTunnels (heap pm a)
     \<and> ps_StartedAt (ts_status (heap (sync_loop now qs pm) a)) = ps_StartedAt (ts_status (heap pm a))"
proof (induction qs arbitrary: pm)
  case (Cons q qs)
  note inv = sync_one_refines(1) [OF Cons.prems(1), of now q]
  show ?case
  proof (cases "pc_ID q = pc_ID p")
    case True
    with Cons.prems(4) have q: "q = p" by simp
    note one = sync_one_same [OF Cons.prems(1-3), of now]
    from Cons.IH [OF inv] one Cons.prems(4) q show ?thesis by simp
  next
    case False
    note one = sync_one_other [OF Cons.prems(1,2) False, of now]
    from Cons.IH [OF inv] one Cons.prems(3,4) show ?thesis by simp
  qed
qed simp

lemma stop_loop_keep:
  "(\<And>j b. (j, b) \<in> set l \<Longrightarrow> P j \<Longrightarrow> j \<noteq> i \<and> b \<noteq> a) \<Longrightarrow>
     mget (servers (stop_loop P l pm)) i = mget (servers pm) i \<and> heap (stop_loop P l pm) a = heap pm a"
proof (induction l arbitrary: pm)
  case (Cons x l)
  obtain j b where x: "x = (j, b)" by (cases x)
  have IH: "mget (servers (stop_loop P l q)) i = mget (servers q) i \<and> heap (stop_loop P l q) a = heap q a" for q
    by (rule Cons.IH) (erule Cons.prems [OF list.set_intros(2)])
  show ?case
  proof (cases "P j")
    case True
    with Cons.prems [of j b] x have "j \<noteq> i" "b \<noteq> a" by auto
    with True x IH show ?thesis by (simp add: pm_modify_def)
  qed (use x IH in simp)
qed simp

text \<open>C26: A hot reload leaves the proxies whose configuration did not change alone: such a proxy keeps
  its very entry (the object its running tunnels hold), its number of connections and the time it was
  started at, whatever else the new file adds, changes or removes.\<close>

theorem sync_keeps_unchanged_proxies:
  assumes "tw_reachable w" "mget (servers (tw_pm w)) (pc_ID p) = Some a" "ts_cfg (heap (tw_pm w) a) = p"
    and "p \<in> set (Proxies c)" "distinct (map pc_ID (Proxies c))"
  shows "mget (servers (SyncWithConfig now c (tw_pm w))) (pc_ID p) = Some a
     \<and> activeTunnels (heap (SyncWithConfig now c (tw_pm w)) a) = activeTunnels (heap (tw_pm w) a)
     \<and> ps_StartedAt (ts_status (heap (SyncWithConfig now c (tw_pm w)) a))
         = ps_StartedAt (ts_status (heap (tw_pm w) a))"
proof -
  let ?pm = "sync_loop now (Proxies c) (tw_pm w)"
  note inv = tw_reachable_pm [OF assms(1)]
  have "q = p" if "q \<in> set (Proxies c)" "pc_ID q = pc_ID p" for q
    using assms(4,5) that by (meson inj_onD distinct_map)
  note loop = sync_loop_same [OF inv assms(2,3) this, of "Proxies c" now]
  have pinv: "pm_inv ?pm" using sync_loop_refines [OF inv] by blast
  have "j \<noteq> pc_ID p \<and> b \<noteq> a" if "(j, b) \<in> set (servers ?pm)" "j \<notin> pc_ID ` set (Proxies c)" for j b
  proof -
    have "mget (servers ?pm) j = Some b"
      using that(1) pinv mget_Some_iff [of "servers ?pm"] by simp
    moreover have "j \<noteq> pc_ID p" using that(2) assms(4) by blast
    ultimately show ?thesis using pm_inv_inj [OF pinv, of j b "pc_ID p"] loop by blast
  qed
  with stop_loop_keep [of "servers ?pm" "\<lambda>i. i \<notin> pc_ID ` set (Proxies c)" "pc_ID p" a ?pm] loop
  show ?thesis by (simp add: SyncWithConfig_def Let_def)
qed

theorem sync_keeps_unchanged_proxies_witness:
  "mget (servers (SyncWithConfig 9 demo_file (pm_modify 0 IncrTunnel demo_pm))) ''a'' = Some 0"
  using sync_keeps_unchanged_proxies [OF demo_open_reachable, of demo_proxy 0
      "demo_file" 9]
  by (simp add: demo_servers demo_entry demo_file_def) (simp add: demo_proxy_def)

text \<open>After a hot reload, the status of every id is that of the file: an id the file does not name
  is unknown, and any other shows the name, the target address and the path of its (last) entry there,
  running with a start time if it is enabled, stopped without one if not, and without an error.\<close>

lemma sync_status_is_the_file:
  assumes "tw_reachable w"
  shows "(case map_of (rev (map (\<lambda>p. (pc_ID p, p)) (Proxies c))) i of
       None \<Rightarrow> GetStatus i (SyncWithConfig now c (tw_pm w)) = Inl (NotFound i)
     | Some p \<Rightarrow> (\<exists>st. GetStatus i (SyncWithConfig now c (tw_pm w)) = Inr st
         \<and> ps_ID st = i \<and> ps_Name st = pc_Name p \<and> ps_RemoteAddress st = pc_RemoteAddress p
         \<and> ps_WSPath st = ''/ws/'' @ i \<and> ps_Enabled st = pc_Enabled p
         \<and> ps_Status st = (if pc_Enabled p then StatusRunning else StatusStopped)
         \<and> (ps_StartedAt st \<noteq> None) = pc_Enabled p \<and> ps_Error st = []))"
proof -
  let ?pm = "SyncWithConfig now c (tw_pm w)"
  note s = SyncWithConfig_refines [OF tw_reachable_pm [OF assms], of now c]
  show ?thesis
  proof (cases "mget (servers ?pm) i")
    case None
    then have "abs_pm ?pm i = None" by (simp add: abs_pm_None)
    with None show ?thesis by (simp add: s(2) GetStatus_def)
  next
    case (Some a)
    then have "abs_pm ?pm i = Some (ts_cfg (heap ?pm a))" by (simp add: abs_pm_def)
    moreover note pm_invD [OF s(1) Some]
    ultimately show ?thesis
      using Some by (simp add: s(2) GetStatus_def StatusInfo_def server_ok_def WSIngressPath_def)
  qed
qed

end
