(* ===== verification/UrlQuery.thy ===== *)
theory UrlQuery
  imports GoStd
begin

text \<open>
  The query part of Go's \<open>net/url\<close>, which carries the credentials of a WebSocket dial:
  \<open>QueryEscape\<close>, \<open>QueryUnescape\<close>, \<open>ParseQuery\<close> and the operations of \<open>Values\<close>. The locale
  \<open>text_codec\<close> is what the query format needs of the escaping, and the round trip of whole queries
  is proved inside it.
\<close>

section \<open>Escaping\<close>

text \<open>\<open>shouldEscape\<close> for a query component: everything but letters, digits and \<open>- _ . ~\<close>.\<close>

definition unreserved :: "char \<Rightarrow> bool" where
  "unreserved c \<longleftrightarrow>
     (let n = of_char c :: nat
      in 97 \<le> n \<and> n \<le> 122 \<or> 65 \<le> n \<and> n \<le> 90 \<or> 48 \<le> n \<and> n \<le> 57 \<or> n \<in> {45, 95, 46, 126})"

definition upper_hex :: "nat \<Rightarrow> char" where
  "upper_hex d = (if d < 10 then char_of (48 + d) else char_of (55 + d))"

definition unhex :: "char \<Rightarrow> nat option" where
  "unhex c =
     (let n = of_char c :: nat
      in if 48 \<le> n \<and> n \<le> 57 then Some (n - 48)
         else if 97 \<le> n \<and> n \<le> 102 then Some (n - 87)
         else if 65 \<le> n \<and> n \<le> 70 then Some (n - 55) else None)"

definition escape_char :: "char \<Rightarrow> string" where
  "escape_char c =
     (if unreserved c then [c]
      else if c = CHR '' '' then ''+''
      else [CHR ''%'', upper_hex (of_char c div 16), upper_hex (of_char c mod 16)])"

definition QueryEscape :: "string \<Rightarrow> string" where
  "QueryEscape s = concat (map escape_char s)"

text \<open>\<open>None\<close> is an \<open>EscapeError\<close>: a percent sign that two hexadecimal digits do not follow.\<close>

fun QueryUnescape :: "string \<Rightarrow> string option" where
  "QueryUnescape [] = Some []"
| "QueryUnescape (c # s) =
     (if c = CHR ''%'' then
        (case s of
           a # b # t \<Rightarrow>
             (case (unhex a, unhex b) of
                (Some x, Some y) \<Rightarrow> map_option ((#) (char_of (16 * x + y))) (QueryUnescape t)
              | _ \<Rightarrow> None)
         | _ \<Rightarrow> None)
      else map_option ((#) (if c = CHR ''+'' then CHR '' '' else c)) (QueryUnescape s))"

lemma unhex_upper [simp]: "d < 16 \<Longrightarrow> unhex (upper_hex d) = Some d"
  by (auto simp: unhex_def upper_hex_def of_char_of)

lemma unescape_escape_char:
  "QueryUnescape (escape_char c @ s) = map_option ((#) c) (QueryUnescape s)"
proof (cases "unreserved c")
  case True
  then have "c \<noteq> CHR ''%''" "c \<noteq> CHR ''+''"
    by (auto simp: unreserved_def)
  with True show ?thesis by (simp add: escape_char_def)
next
  case False
  show ?thesis
  proof (cases "c = CHR '' ''")
    case True
    with False show ?thesis by (simp add: escape_char_def)
  next
    case neq: False
    have "(of_char c :: nat) div 16 < 16" by (simp add: less_mult_imp_div_less)
    then show ?thesis using False neq by (simp add: escape_char_def)
  qed
qed

lemma unescape_escape [go_str, simp]: "QueryUnescape (QueryEscape s) = Some s"
  by (induction s) (simp_all add: QueryEscape_def unescape_escape_char)

lemma escape_char_safe: "x \<in> set (escape_char c) \<Longrightarrow> x = CHR ''%'' \<or> x = CHR ''+'' \<or> unreserved x"
proof -
  have "unreserved (upper_hex d)" if "d < 16" for d
    using that by (auto simp: unreserved_def upper_hex_def of_char_of)
  moreover have "(of_char c :: nat) div 16 < 16" by (simp add: less_mult_imp_div_less)
  ultimately show "x \<in> set (escape_char c) \<Longrightarrow> ?thesis"
    by (auto simp: escape_char_def split: if_splits)
qed

lemma escape_safe:
  "CHR ''&'' \<notin> set (QueryEscape s) \<and> CHR ''='' \<notin> set (QueryEscape s) \<and> CHR '';'' \<notin> set (QueryEscape s)"
proof -
  have "x = CHR ''%'' \<or> x = CHR ''+'' \<or> unreserved x" if "x \<in> set (QueryEscape s)" for x
    using that by (auto simp: QueryEscape_def dest: escape_char_safe)
  then show ?thesis by (fastforce simp: unreserved_def)
qed

section \<open>Values\<close>

type_synonym url_values = "(string, string list) gomap"

definition values_Get :: "url_values \<Rightarrow> string \<Rightarrow> string" where
  "values_Get v k = (case mget v k of Some (x # xs) \<Rightarrow> x | _ \<Rightarrow> [])"

definition values_Set :: "string \<Rightarrow> string \<Rightarrow> url_values \<Rightarrow> url_values" where
  "values_Set k x v = mput k [x] v"

definition add_value :: "string \<Rightarrow> string \<Rightarrow> url_values \<Rightarrow> url_values" where
  "add_value k x v = mput k ((case mget v k of None \<Rightarrow> [] | Some xs \<Rightarrow> xs) @ [x]) v"

text \<open>\<open>strings.Cut\<close> with a one-byte separator.\<close>

definition cut :: "char \<Rightarrow> string \<Rightarrow> string \<times> string" where
  "cut c s = (takeWhile (\<lambda>x. x \<noteq> c) s, drop 1 (dropWhile (\<lambda>x. x \<noteq> c) s))"

lemma cut_at: "c \<notin> set k \<Longrightarrow> cut c (k @ c # x) = (k, x)"
  by (induction k) (auto simp: cut_def)

text \<open>One piece between two ampersands; pieces that do not decode are skipped.\<close>

definition parse_piece :: "string \<Rightarrow> url_values \<Rightarrow> url_values" where
  "parse_piece p v =
     (if CHR '';'' \<in> set p \<or> p = [] then v
      else let (k, x) = cut (CHR ''='') p
           in case (QueryUnescape k, QueryUnescape x) of
                (Some k', Some x') \<Rightarrow> add_value k' x' v
              | _ \<Rightarrow> v)"

definition ParseQuery :: "string \<Rightarrow> url_values" where
  "ParseQuery q = fold parse_piece (split_on (CHR ''&'') q) []"

fun join_amp :: "string list \<Rightarrow> string" where
  "join_amp [] = []"
| "join_amp [p] = p"
| "join_amp (p # ps) = p @ CHR ''&'' # join_amp ps"

definition value_pairs :: "url_values \<Rightarrow> (string \<times> string) list" where
  "value_pairs v = concat (map (\<lambda>k. map (Pair k) (the (mget v k))) (sort (mkeys v)))"

definition values_Encode :: "url_values \<Rightarrow> string" where
  "values_Encode v = join_amp (map (\<lambda>(k, x). QueryEscape k @ CHR ''='' # QueryEscape x) (value_pairs v))"

section \<open>The round trip\<close>

locale text_codec =
  fixes enc :: "string \<Rightarrow> string"
    and dec :: "string \<Rightarrow> string option"
    and reserved :: "char set"
  assumes dec_enc: "dec (enc s) = Some s"
    and enc_clean: "set (enc s) \<inter> reserved = {}"
begin

lemma enc_inject: "enc s = enc t \<longleftrightarrow> s = t"
  by (metis dec_enc option.inject)

lemma cut_enc: "c \<in> reserved \<Longrightarrow> cut c (enc k @ c # enc x) = (enc k, enc x)"
  by (rule cut_at) (use enc_clean [of k] in blast)

lemma piece_clean: "c \<in> reserved \<Longrightarrow> c \<noteq> d \<Longrightarrow> c \<notin> set (enc k @ d # enc x)"
  using enc_clean [of k] enc_clean [of x] by auto

end

interpretation qc: text_codec QueryEscape QueryUnescape "{CHR ''&'', CHR ''='', CHR '';''}"
  using escape_safe by unfold_locales auto

lemma split_join_amp:
  "ps \<noteq> [] \<Longrightarrow> list_all (\<lambda>p. CHR ''&'' \<notin> set p) ps \<Longrightarrow> split_on (CHR ''&'') (join_amp ps) = ps"
  by (induction ps rule: join_amp.induct) (auto simp: split_on_append split_on_atom)

lemma parse_piece_encoded:
  "parse_piece (QueryEscape k @ CHR ''='' # QueryEscape x) v = add_value k x v"
  using qc.piece_clean [of "CHR '';''" "CHR ''=''" k x]
  by (simp add: parse_piece_def qc.cut_enc)

lemma ParseQuery_pairs:
  "ParseQuery (join_amp (map (\<lambda>(k, x). QueryEscape k @ CHR ''='' # QueryEscape x) ps))
     = fold (\<lambda>(k, x). add_value k x) ps []"
proof (cases "ps = []")
  case True
  then show ?thesis by (simp add: ParseQuery_def parse_piece_def)
next
  case False
  let ?f = "\<lambda>(k, x). QueryEscape k @ CHR ''='' # QueryEscape x"
  have "list_all (\<lambda>p. CHR ''&'' \<notin> set p) (map ?f ps)"
    using escape_safe by (auto simp: list_all_iff)
  with False have "split_on (CHR ''&'') (join_amp (map ?f ps)) = map ?f ps"
    by (intro split_join_amp) simp_all
  moreover have "fold parse_piece (map ?f ps) v = fold (\<lambda>(k, x). add_value k x) ps v" for v
    by (induction ps arbitrary: v) (auto simp: parse_piece_encoded)
  ultimately show ?thesis by (simp add: ParseQuery_def)
qed

lemma mget_fold_add:
  "(case mget (fold (\<lambda>(k, x). add_value k x) ps v) k of None \<Rightarrow> [] | Some xs \<Rightarrow> xs)
     = (case mget v k of None \<Rightarrow> [] | Some xs \<Rightarrow> xs) @ map snd (filter (\<lambda>p. fst p = k) ps)"
  by (induction ps arbitrary: v) (auto simp: add_value_def split: option.splits)

lemma filter_value_pairs:
  "distinct ks \<Longrightarrow> map snd (filter (\<lambda>p. fst p = k) (concat (map (\<lambda>k. map (Pair k) (f k)) ks)))
     = (if k \<in> set ks then f k else [])"
proof (induction ks)
  case (Cons a ks)
  have "filter (\<lambda>p. fst p = k) (map (Pair a) (f a)) = (if a = k then map (Pair a) (f a) else [])"
    by (simp add: filter_map comp_def)
  with Cons show ?case by (auto simp: comp_def)
qed simp

lemma values_Get_default: "values_Get v k =
    (case (case mget v k of None \<Rightarrow> [] | Some xs \<Rightarrow> xs) of [] \<Rightarrow> [] | x # xs \<Rightarrow> x)"
  by (auto simp: values_Get_def split: option.splits list.splits)

lemma Get_ParseQuery_Encode [go_str]:
  assumes "distinct (mkeys v)"
  shows "values_Get (ParseQuery (values_Encode v)) k = values_Get v k"
proof -
  have "(case mget (ParseQuery (values_Encode v)) k of None \<Rightarrow> [] | Some xs \<Rightarrow> xs)
      = (if k \<in> set (mkeys v) then the (mget v k) else [])"
    using assms
    by (simp add: values_Encode_def ParseQuery_pairs mget_fold_add value_pairs_def filter_value_pairs)
  also have "\<dots> = (case mget v k of None \<Rightarrow> [] | Some xs \<Rightarrow> xs)"
    using mget_None_iff [of v k] by (cases "mget v k") (auto dest: in_keys)
  finally show ?thesis by (simp add: values_Get_default)
qed

lemma values_Get_Set [simp]:
  "values_Get (values_Set k x v) k' = (if k' = k then x else values_Get v k')"
  by (simp add: values_Get_def values_Set_def)

lemma distinct_ParseQuery [simp]: "distinct (mkeys (ParseQuery q))"
proof -
  have "distinct (mkeys (fold parse_piece ps v))" if "distinct (mkeys v)" for ps v
    using that
    by (induction ps arbitrary: v)
      (auto simp: parse_piece_def add_value_def simp del: distinct_map split: option.splits prod.splits)
  then show ?thesis by (simp add: ParseQuery_def)
qed

lemma distinct_values_Set [simp]: "distinct (mkeys v) \<Longrightarrow> distinct (mkeys (values_Set k x v))"
  by (simp add: values_Set_def)

end
