(* ===== verification/Dial.thy ===== *)
theory Dial
  imports AccessAuth UrlQuery
begin

text \<open>
  Dialling the server: the URL helpers and \<open>DialWebSocketPath\<close> of
  \<open>internal/clienttunnel/tunnel.go\<close>. What \<open>url.Parse\<close> answers and the outcome of each dial are
  arguments, so the results hold for every server name, network and server; the clock is an
  argument. Durations are \<open>int64\<close> nanoseconds as in Go.
\<close>

section \<open>The server's URL\<close>

definition AuthSecretsConfigured :: "string \<Rightarrow> bool" where
  "AuthSecretsConfigured apiKey \<longleftrightarrow> trim_space apiKey \<noteq> []"

definition NormalizeServerURLForWS :: "string \<Rightarrow> string" where
  "NormalizeServerURLForWS raw =
     (let s = trim_space raw; lower = to_lower s
      in if s = [] then []
         else if has_prefix lower ''http://'' then ''ws://'' @ drop (length ''http://'') s
         else if has_prefix lower ''https://'' then ''wss://'' @ drop (length ''https://'') s
         else if has_prefix lower ''ws://'' \<or> has_prefix lower ''wss://'' then s
         else if \<not> contains_str s ''://'' then ''ws://'' @ s
         else s)"

text \<open>The fields of \<open>url.URL\<close> the program touches.\<close>

record url =
  Scheme :: string
  Host :: string
  Path :: string
  RawQuery :: string

definition trimSchemeHost :: "(string \<Rightarrow> url option) \<Rightarrow> string \<Rightarrow> string" where
  "trimSchemeHost url_Parse raw =
     (case url_Parse (NormalizeServerURLForWS raw) of
        None \<Rightarrow> raw
      | Some u \<Rightarrow> if Host u = [] then raw else Scheme u @ ''://'' @ Host u)"

section \<open>Dialling\<close>

datatype dial_outcome =
    Dialed
  | is_BadHandshake: BadHandshake "string option"
  | is_DialErr: DialErr string

datatype dial_error =
    ParseURLFailed
  | HandshakeRefused "string option"
  | GaveUp string

definition second :: int where
  "second = 1000000000"

definition dial_wait :: "nat \<Rightarrow> int" where
  "dial_wait i =
     (let wait = i64 (i64 (2 ^ i) * second)
      in if wait > i64 (60 * second) then i64 (60 * second) else wait)"

text \<open>
  The loop \<open>for i := 0; i < 10; i++\<close>: its result, the number of dials made and the sleeps taken.
  \<open>Inr i\<close> is the connection of dial \<open>i\<close>.
\<close>

function dial_loop ::
  "nat \<Rightarrow> (nat \<Rightarrow> dial_outcome) \<Rightarrow> string \<Rightarrow> int list \<Rightarrow> (dial_error + nat) \<times> nat \<times> int list" where
  "dial_loop i dial lastErr slept =
     (if i < 10 then
        (case dial i of
           Dialed \<Rightarrow> (Inr i, i + 1, slept)
         | BadHandshake resp \<Rightarrow> (Inl (HandshakeRefused resp), i + 1, slept)
         | DialErr e \<Rightarrow> dial_loop (i + 1) dial e (slept @ [dial_wait i]))
      else (Inl (GaveUp lastErr), i, slept))"
  by pat_completeness auto
termination
  by (relation "measure (\<lambda>(i, _). 10 - i)") auto

declare dial_loop.simps [simp del]

definition dial_url :: "int \<Rightarrow> string \<Rightarrow> string \<Rightarrow> url \<Rightarrow> url" where
  "dial_url nowUnix path apiKey u =
     (let path = (if has_prefix path ''/'' then path else CHR ''/'' # path);
          u = u\<lparr>Path := path\<rparr>;
          ak = trim_space apiKey
      in if ak = [] then u
         else
           let ts = itoa nowUnix;
               sig = to_lower (SignAccessPayload ak ts ak);
               q = ParseQuery (RawQuery u);
               q = values_Set ''psp_ak'' ak q;
               q = values_Set ''psp_ts'' ts q;
               q = values_Set ''psp_sig'' sig q
           in u\<lparr>RawQuery := values_Encode q\<rparr>)"

definition DialWebSocketPath ::
  "(string \<Rightarrow> url option) \<Rightarrow> (url \<Rightarrow> nat \<Rightarrow> dial_outcome) \<Rightarrow> int \<Rightarrow> string \<Rightarrow> string \<Rightarrow> string
     \<Rightarrow> (dial_error + nat) \<times> nat \<times> int list" where
  "DialWebSocketPath url_Parse dial nowUnix serverURL path apiKey =
     (case url_Parse (NormalizeServerURLForWS serverURL) of
        None \<Rightarrow> (Inl ParseURLFailed, 0, [])
      | Some u \<Rightarrow> dial_loop 0 (dial (dial_url nowUnix path apiKey u)) [] [])"

text \<open>The request that reaches the server: no credential header, the query of the dialled URL.\<close>

definition dialed_request :: "url \<Rightarrow> http_request" where
  "dialed_request u =
     \<lparr>req_method = ''GET'', header = (\<lambda>_. []), query = values_Get (ParseQuery (RawQuery u))\<rparr>"

section \<open>Normalising a URL\<close>

lemma has_prefix_lower_ws: "has_prefix (to_lower (''ws://'' @ s)) ''ws://''"
  "has_prefix (to_lower (''wss://'' @ s)) ''wss://''"
  by (simp_all add: has_prefix_def to_lower_def lower_char_def)

text \<open>A string that is not blank at its end stays so when its head is replaced by one that ends in
  a slash, because no white-space rune contains a slash.\<close>

lemma space_runes_no_slash: "r \<in> set space_runes \<Longrightarrow> CHR ''/'' \<notin> set r"
  by (auto simp: space_runes_def char_eq_char_of)

lemma has_prefix_stop:
  "c \<notin> set r \<Longrightarrow> has_prefix (s @ c # t) r \<longleftrightarrow> has_prefix s r"
proof (induction s arbitrary: r)
  case Nil
  then show ?case by (cases r) (auto simp: has_prefix_def)
next
  case (Cons a s)
  then show ?case by (cases r) (auto simp: has_prefix_def)
qed

lemma strip_rune_stop:
  "(\<And>r. r \<in> set rs \<Longrightarrow> c \<notin> set r) \<Longrightarrow>
     strip_rune rs (s @ c # t) = None \<longleftrightarrow> strip_rune rs s = None"
  by (induction rs) (simp_all add: has_prefix_stop)

text \<open>No blank at the end.\<close>

definition tight :: "string \<Rightarrow> bool" where
  "tight t \<longleftrightarrow> strip_rune (map rev space_runes) (rev t) = None"

lemma tight_suffix: "trim_space (q @ t) = q @ t \<Longrightarrow> tight t"
proof -
  assume "trim_space (q @ t) = q @ t"
  then have "strip_rune (map rev space_runes) (rev (q @ t)) = None"
    by (metis rev_rev_ident trim_right_def trim_space_def trim_with_done)
  then show ?thesis by (auto simp: tight_def dest: strip_rune_None_prefix)
qed

lemma trim_space_slash:
  assumes "tight t" "hd (q @ ''/'') \<notin> space_heads"
  shows "trim_space (q @ CHR ''/'' # t) = q @ CHR ''/'' # t"
proof -
  have "\<And>r. r \<in> set (map rev space_runes) \<Longrightarrow> CHR ''/'' \<notin> set r"
    using space_runes_no_slash by auto
  then have "strip_rune (map rev space_runes) (rev t @ CHR ''/'' # rev q) = None"
    using assms(1) strip_rune_stop [of "map rev space_runes" "CHR ''/''" "rev t" "rev q"]
    by (simp add: tight_def)
  then have "trim_right (q @ CHR ''/'' # t) = q @ CHR ''/'' # t"
    by (simp add: trim_right_def trim_with_id)
  moreover have "hd (q @ CHR ''/'' # t) \<notin> space_heads"
    using assms(2) by (cases q) auto
  then have "trim_left (q @ CHR ''/'' # t) = q @ CHR ''/'' # t"
    by (simp add: trim_left_def trim_with_id strip_rune_None_hd space_heads_def)
  ultimately show ?thesis by (simp add: trim_space_def)
qed

lemma trim_ws: "tight t \<Longrightarrow> trim_space (''ws://'' @ t) = ''ws://'' @ t"
  "tight t \<Longrightarrow> trim_space (''wss://'' @ t) = ''wss://'' @ t"
  using trim_space_slash [of t "''ws:/''"] trim_space_slash [of t "''wss:/''"]
  by (simp_all add: space_heads_code)

lemma tight_drop_prefix: "trim_space s = s \<Longrightarrow> tight (drop n s)"
  by (metis append_take_drop_id tight_suffix)

lemma Normalize_ws: "tight t \<Longrightarrow> NormalizeServerURLForWS (''ws://'' @ t) = ''ws://'' @ t"
  "tight t \<Longrightarrow> NormalizeServerURLForWS (''wss://'' @ t) = ''wss://'' @ t"
  using trim_ws [of t]
  by (simp_all add: NormalizeServerURLForWS_def Let_def has_prefix_def to_lower_def lower_char_def)

lemma Normalize_cases:
  obtains t where "tight t" "NormalizeServerURLForWS raw = ''ws://'' @ t"
  | t where "tight t" "NormalizeServerURLForWS raw = ''wss://'' @ t"
  | "NormalizeServerURLForWS raw = trim_space raw"
proof -
  let ?s = "trim_space raw"
  have "NormalizeServerURLForWS raw \<in>
      {''ws://'' @ drop (length ''http://'') ?s, ''wss://'' @ drop (length ''https://'') ?s,
       ''ws://'' @ drop 0 ?s, ?s}"
    by (simp add: NormalizeServerURLForWS_def Let_def)
  then show thesis
    using that tight_drop_prefix [of ?s] trim_space_idem by blast
qed

lemma Normalize_idem [simp]:
  "NormalizeServerURLForWS (NormalizeServerURLForWS raw) = NormalizeServerURLForWS raw"
proof -
  have "NormalizeServerURLForWS (trim_space raw) = NormalizeServerURLForWS raw"
    by (simp add: NormalizeServerURLForWS_def)
  then show ?thesis by (cases rule: Normalize_cases [of raw]) (simp_all only: Normalize_ws)
qed

lemma Normalize_trim [simp]: "NormalizeServerURLForWS (trim_space raw) = NormalizeServerURLForWS raw"
  by (simp add: NormalizeServerURLForWS_def)

lemma trim_Normalize [simp]: "trim_space (NormalizeServerURLForWS raw) = NormalizeServerURLForWS raw"
  by (cases rule: Normalize_cases [of raw]) (simp_all only: trim_ws trim_space_idem)

lemma Normalize_empty: "NormalizeServerURLForWS raw = [] \<longleftrightarrow> trim_space raw = []"
  by (simp add: NormalizeServerURLForWS_def Let_def)

section \<open>The dial loop\<close>

lemma dial_loop_errs:
  "i + m \<le> 10 \<Longrightarrow> list_all (\<lambda>j. is_DialErr (dial j)) [i..<i + m] \<Longrightarrow>
     \<exists>e'. dial_loop i dial e slept = dial_loop (i + m) dial e' (slept @ map dial_wait [i..<i + m])"
proof (induction m arbitrary: i e slept)
  case (Suc m)
  have up: "[i..<i + Suc m] = i # [Suc i..<Suc i + m]" by (simp add: upt_rec)
  from Suc.prems(2) obtain e1 where "dial i = DialErr e1"
    unfolding up by (auto simp: is_DialErr_def)
  with Suc.prems(1) have "dial_loop i dial e slept = dial_loop (Suc i) dial e1 (slept @ [dial_wait i])"
    by (simp add: dial_loop.simps [of i])
  also obtain e' where "\<dots> = dial_loop (Suc i + m) dial e'
      ((slept @ [dial_wait i]) @ map dial_wait [Suc i..<Suc i + m])"
    using Suc.IH [of "Suc i" e1 "slept @ [dial_wait i]"] Suc.prems unfolding up by auto
  finally show ?case unfolding up by auto
qed auto

text \<open>The two ways the loop can end: ten errors, or an answer at dial \<open>k\<close> after \<open>k\<close> errors.\<close>

lemma dial_loop_cases:
  obtains (exhausted) e where "list_all (\<lambda>j. is_DialErr (dial j)) [0..<10]"
      "dial_loop 0 dial e0 [] = (Inl (GaveUp e), 10, map dial_wait [0..<10])"
  | (answered) k where "k < 10" "list_all (\<lambda>j. is_DialErr (dial j)) [0..<k]" "\<not> is_DialErr (dial k)"
      "dial_loop 0 dial e0 [] =
         (case dial k of BadHandshake resp \<Rightarrow> Inl (HandshakeRefused resp) | _ \<Rightarrow> Inr k, k + 1,
          map dial_wait [0..<k])"
proof (cases "list_all (\<lambda>j. is_DialErr (dial j)) [0..<10]")
  case True
  then obtain e where "dial_loop 0 dial e0 [] = dial_loop 10 dial e (map dial_wait [0..<10])"
    using dial_loop_errs [of 0 10 dial e0 "[]"] by auto
  with True show ?thesis using exhausted by (simp add: dial_loop.simps [of 10])
next
  case False
  define k where "k = (LEAST j. \<not> is_DialErr (dial j))"
  from False obtain j where j: "j < 10" "\<not> is_DialErr (dial j)"
    by (auto simp: list_all_iff)
  then have k: "\<not> is_DialErr (dial k)" "k \<le> j"
    unfolding k_def using LeastI [of "\<lambda>j. \<not> is_DialErr (dial j)" j] by (auto intro: Least_le)
  have pre: "list_all (\<lambda>j. is_DialErr (dial j)) [0..<k]"
    unfolding k_def by (auto simp: list_all_iff dest: not_less_Least)
  with j k obtain e where "dial_loop 0 dial e0 [] = dial_loop k dial e (map dial_wait [0..<k])"
    using dial_loop_errs [of 0 k dial e0 "[]"] by auto
  with j k have "dial_loop 0 dial e0 [] =
      (case dial k of BadHandshake resp \<Rightarrow> Inl (HandshakeRefused resp) | _ \<Rightarrow> Inr k, k + 1,
       map dial_wait [0..<k])"
    by (auto simp: dial_loop.simps [of k] split: dial_outcome.splits)
  with pre k j show ?thesis using answered by auto
qed

lemma upt_10: "[0..<10] = [0, 1, 2, 3, 4, 5, 6, 7, 8, 9 :: nat]"
  by (simp add: upt_rec)

lemma dial_waits: "map dial_wait [0..<10] = map (\<lambda>s. s * second) [1, 2, 4, 8, 16, 32, 60, 60, 60, 60]"
  by (simp add: upt_10 dial_wait_def second_def i64_id in_int64_def)

lemma dial_wait_bounds: "i < 10 \<Longrightarrow> second \<le> dial_wait i \<and> dial_wait i \<le> 60 * second"
proof -
  assume "i < 10"
  then have "dial_wait i \<in> set (map dial_wait [0..<10])" by (simp del: upt_0)
  then show ?thesis unfolding dial_waits by (auto simp: second_def)
qed

lemma dial_wait_nonneg: "i < 10 \<Longrightarrow> 0 \<le> dial_wait i"
  using dial_wait_bounds [of i] by (simp add: second_def)

lemma sum_list_prefix_le:
  "k \<le> n \<Longrightarrow> (\<And>i. i < n \<Longrightarrow> 0 \<le> f i) \<Longrightarrow> sum_list (map f [0..<k]) \<le> (sum_list (map f [0..<n]) :: int)"
proof (induction n)
  case (Suc n)
  then show ?case by (cases "k = Suc n") (auto intro: order_trans)
qed simp

lemma sum_dial_waits: "k \<le> 10 \<Longrightarrow> sum_list (map dial_wait [0..<k]) \<le> 303 * second"
proof -
  assume "k \<le> 10"
  then have "sum_list (map dial_wait [0..<k]) \<le> sum_list (map dial_wait [0..<10])"
    by (rule sum_list_prefix_le) (rule dial_wait_nonneg)
  also have "\<dots> = 303 * second" unfolding dial_waits by simp
  finally show ?thesis .
qed

lemma sum_dial_waits_less: "k < 10 \<Longrightarrow> sum_list (map dial_wait [0..<k]) < 303 * second"
proof -
  assume "k < 10"
  then have "sum_list (map dial_wait [0..<k]) \<le> sum_list (map dial_wait [0..<9])"
    by (intro sum_list_prefix_le dial_wait_nonneg) simp_all
  also have "\<dots> = sum_list (map dial_wait [0..<10]) - dial_wait 9"
    by (simp add: upt_rec eval_nat_numeral)
  also have "\<dots> = 243 * second"
    unfolding dial_waits by (simp add: dial_wait_def second_def i64_id in_int64_def)
  finally show ?thesis by (simp add: second_def)
qed

section \<open>The credentials of a dial\<close>

lemma dialed_request_signed:
  assumes "trim_space apiKey \<noteq> []"
    and "r = dialed_request (dial_url nowc path apiKey u)"
  shows "req_method r = ''GET''" "req_ak r = trim_space apiKey" "req_ts r = itoa nowc"
    "req_sig r = key_signature (trim_space apiKey) (itoa nowc)"
  using assms
  by (simp_all add: dialed_request_def dial_url_def Let_def req_ak_def req_ts_def req_sig_def
      Get_ParseQuery_Encode SignAccessPayload_key key_signature_def)

section \<open>Properties\<close>

text \<open>C31: Dialling ends, and its cost is bounded. Whatever the network does, \<open>DialWebSocketPath\<close>
  makes at most ten dials, sleeps between one second and one minute after each failed one, and at
  most 303 seconds in total; that total is reached exactly when all ten dials fail, because the
  loop also sleeps after the last one. It returns the connection of the first dial that does not
  fail, and gives up at once when the server refuses the handshake.\<close>

theorem dial_retries_bounded:
  assumes "url_Parse (NormalizeServerURLForWS serverURL) = Some u"
    and "DialWebSocketPath url_Parse dials now serverURL path key = (r, n, slept)"
  defines "dial \<equiv> dials (dial_url now path key u)"
  shows "n \<le> 10 \<and> list_all (\<lambda>w. second \<le> w \<and> w \<le> 60 * second) slept
    \<and> sum_list slept \<le> 303 * second
    \<and> (sum_list slept = 303 * second \<longleftrightarrow> list_all (\<lambda>j. is_DialErr (dial j)) [0..<10])
    \<and> (r = Inr k \<longleftrightarrow> k < 10 \<and> dial k = Dialed \<and> list_all (\<lambda>j. is_DialErr (dial j)) [0..<k])
    \<and> (isl r \<longleftrightarrow> list_all (\<lambda>j. is_DialErr (dial j)) [0..<10]
          \<or> (\<exists>k < 10. is_BadHandshake (dial k) \<and> n = k + 1))"
proof -
  have loop: "dial_loop 0 dial [] [] = (r, n, slept)"
    using assms by (simp add: DialWebSocketPath_def)
  show ?thesis
  proof (cases rule: dial_loop_cases [of dial "[]"])
    case (exhausted e)
    with loop have "r = Inl (GaveUp e)" "n = 10" "slept = map dial_wait [0..<10]" by auto
    moreover have "list_all (\<lambda>w. second \<le> w \<and> w \<le> 60 * second) slept" "sum_list slept = 303 * second"
      unfolding calculation dial_waits by (simp_all add: second_def)
    ultimately show ?thesis using exhausted(1) by (auto simp: list_all_iff)
  next
    case (answered m)
    from answered(4) loop have *: "n = m + 1" "slept = map dial_wait [0..<m]"
      "r = (case dial m of BadHandshake resp \<Rightarrow> Inl (HandshakeRefused resp) | _ \<Rightarrow> Inr m)" by auto
    have "list_all (\<lambda>w. second \<le> w \<and> w \<le> 60 * second) slept" "sum_list slept < 303 * second"
      using dial_wait_bounds answered(1) sum_dial_waits_less [OF answered(1)]
      by (auto simp: * list_all_iff)
    moreover have "\<not> list_all (\<lambda>j. is_DialErr (dial j)) [0..<10]"
      using answered(1,3) by (auto simp: list_all_iff)
    moreover have "m = k" if "\<not> is_DialErr (dial k)" "list_all (\<lambda>j. is_DialErr (dial j)) [0..<k]"
      using that answered(2,3) by (cases m k rule: linorder_cases) (auto simp: list_all_iff)
    ultimately show ?thesis
      using answered(1-3) * by (cases "dial m") auto
  qed
qed

definition two_failures :: "url \<Rightarrow> nat \<Rightarrow> dial_outcome" where
  "two_failures u i = (if i < 2 then DialErr ''refused'' else Dialed)"

theorem dial_retries_bounded_witness:
  "let u = \<lparr>Scheme = ''ws'', Host = ''h:80'', Path = [], RawQuery = []\<rparr>
   in case DialWebSocketPath (\<lambda>_. Some u) two_failures 0 ''h:80'' ''/ws/x'' [] of
        (r, n, slept) \<Rightarrow> r = Inr 2 \<and> n \<le> 10 \<and> sum_list slept \<le> 303 * second"
proof -
  let ?u = "\<lparr>Scheme = ''ws'', Host = ''h:80'', Path = [], RawQuery = []\<rparr>"
  obtain r n slept where e: "DialWebSocketPath (\<lambda>_. Some ?u) two_failures 0 ''h:80'' ''/ws/x'' [] = (r, n, slept)"
    by (metis prod_cases3)
  show ?thesis
    using dial_retries_bounded [OF _ e, of ?u 2] by (simp add: e two_failures_def upt_rec)
qed

text \<open>C14: Client and server agree on the credentials. Against a server with authentication
  enabled, a dial of the client with a non-empty key is admitted if and only if that key is one of
  the server's and the two clocks differ by at most five minutes; the query that carries the
  credentials survives its encoding whatever other parameters the URL had.\<close>

theorem signed_dial_accepted:
  assumes "AuthEnabled a" "sane_clock now" "in_int64 nowc" "trim_space apiKey \<noteq> []"
  shows "VerifyAccessAuth a now (dialed_request (dial_url nowc path apiKey u)) = None \<longleftrightarrow>
    trim_space apiKey \<in> set (UnifiedTokens a) \<and> \<bar>nowc - now\<bar> \<le> 300"
  using assms dialed_request_signed [OF assms(4) refl, of nowc path u]
  by (simp add: VerifyAccessAuth_iff parse_int_itoa sg.canon_sign)

theorem signed_dial_accepted_witness:
  "VerifyAccessAuth \<lparr>APIKey = ''k1''\<rparr> 1000
     (dialed_request (dial_url 1300 ''/ws/x'' ''k1'' \<lparr>Scheme = ''ws'', Host = ''h'', Path = [], RawQuery = ''a=b;c''\<rparr>))
   = None"
proof -
  have t: "UnifiedTokens \<lparr>APIKey = ''k1''\<rparr> = [''k1'']"
    using parse_join_keys [of "[''k1'']"]
    by (simp add: UnifiedTokens_def plain_key_def space_heads_code space_lasts_code)
  have "trim_space ''k1'' = ''k1''"
    by (simp add: trim_space_plain space_heads_code space_lasts_code)
  then show ?thesis
    using signed_dial_accepted [of "\<lparr>APIKey = ''k1''\<rparr>" 1000 1300 "''k1''"]
    by (simp add: t AuthEnabled_def sane_clock_def in_int64_def)
qed

end
