(* ===== verification/Bindings.thy ===== *)
theory Bindings
  imports Dial
begin

text \<open>
  TCP addresses as the reverse-tunnel manager compares them: the helpers of
  \<open>internal/clienttunnel/reverse_manager.go\<close> that decide whether two listeners, or a listener and
  an exposed local service, claim the same port. The reference is an endpoint, the pair of a host up
  to spelling and a port; each helper is shown to compare endpoints.
\<close>

section \<open>The helpers\<close>

definition fuzzyHostMatch :: "string \<Rightarrow> string \<Rightarrow> bool" where
  "fuzzyHostMatch a b \<longleftrightarrow>
     (let na = trim_space a; na = (if na = [] then ''127.0.0.1'' else na);
          nb = trim_space b; nb = (if nb = [] then ''127.0.0.1'' else nb)
      in if na = nb then True
         else if (na = ''127.0.0.1'' \<or> na = ''localhost'') \<and> (nb = ''127.0.0.1'' \<or> nb = ''localhost'')
         then True else False)"

text \<open>\<open>None\<close> stands for the answer \<open>(-1, false)\<close>.\<close>

definition tcpListenPort :: "string \<Rightarrow> int option" where
  "tcpListenPort addr =
     (case split_host_port (trim_space addr) of
        None \<Rightarrow> None
      | Some (host, portStr) \<Rightarrow>
          (case parse_int portStr of
             None \<Rightarrow> None
           | Some p \<Rightarrow> if p < 1 then None else Some p))"

definition tcpListenParts :: "string \<Rightarrow> (string \<times> int) option" where
  "tcpListenParts addr =
     (case split_host_port (trim_space addr) of
        None \<Rightarrow> None
      | Some (host, ps) \<Rightarrow>
          (case parse_int ps of
             None \<Rightarrow> None
           | Some p \<Rightarrow> Some (host, p)))"

definition listenHostPortCollidesExpose :: "string \<Rightarrow> string \<Rightarrow> int \<Rightarrow> bool" where
  "listenHostPortCollidesExpose listenAddr exposeHost exposePort \<longleftrightarrow>
     (case tcpListenPort listenAddr of
        None \<Rightarrow> False
      | Some lp \<Rightarrow>
          if lp \<noteq> exposePort then False
          else (case split_host_port (trim_space listenAddr) of
                  None \<Rightarrow> False
                | Some (lh, _) \<Rightarrow>
                    let eh = trim_space exposeHost; eh = (if eh = [] then ''127.0.0.1'' else eh)
                    in fuzzyHostMatch lh eh))"

definition tcpBindingsEquiv :: "string \<Rightarrow> string \<Rightarrow> bool" where
  "tcpBindingsEquiv a b \<longleftrightarrow>
     (let a = trim_space a; b = trim_space b
      in if a = [] \<or> b = [] then False
         else (case (tcpListenParts a, tcpListenParts b) of
                 (Some (ha, pa), Some (hb, pb)) \<Rightarrow> pa = pb \<and> fuzzyHostMatch ha hb
               | _ \<Rightarrow> a = b))"

section \<open>Endpoints\<close>

text \<open>The host up to blanks, with the empty host and \<open>localhost\<close> for the loopback address.\<close>

definition host_class :: "string \<Rightarrow> string" where
  "host_class h =
     (let n = trim_space h in if n = [] \<or> n = ''localhost'' then ''127.0.0.1'' else n)"

type_synonym endpoint = "string \<times> int"

definition expose_endpoint :: "string \<Rightarrow> int \<Rightarrow> endpoint" where
  "expose_endpoint h p = (host_class h, p)"

definition listen_endpoint :: "string \<Rightarrow> string + endpoint" where
  "listen_endpoint a =
     (case tcpListenParts a of None \<Rightarrow> Inl (trim_space a) | Some (h, p) \<Rightarrow> Inr (host_class h, p))"

lemma plain_hosts: "trim_space ''127.0.0.1'' = ''127.0.0.1''" "trim_space ''localhost'' = ''localhost''"
  by (simp_all add: trim_space_plain space_heads_code space_lasts_code)

lemma fuzzyHostMatch_iff: "fuzzyHostMatch a b \<longleftrightarrow> host_class a = host_class b"
  by (auto simp: fuzzyHostMatch_def host_class_def Let_def)

lemma host_class_default: "host_class (if trim_space h = [] then ''127.0.0.1'' else trim_space h) = host_class h"
  by (simp add: host_class_def plain_hosts)

lemma tcpListenPort_parts:
  "tcpListenPort a = Some p \<longleftrightarrow> 1 \<le> p \<and> (\<exists>h. tcpListenParts a = Some (h, p))"
  by (auto simp: tcpListenPort_def tcpListenParts_def split: option.splits)

lemma collides_iff:
  "listenHostPortCollidesExpose l h p \<longleftrightarrow> 1 \<le> p \<and> listen_endpoint l = Inr (expose_endpoint h p)"
proof (cases "tcpListenParts l")
  case None
  then have "tcpListenPort l = None" using tcpListenPort_parts by (metis not_Some_eq option.distinct(1))
  with None show ?thesis by (simp add: listenHostPortCollidesExpose_def listen_endpoint_def)
next
  case (Some hp)
  then obtain lh ps q where s: "split_host_port (trim_space l) = Some (lh, ps)" "parse_int ps = Some q"
    and hp: "hp = (lh, q)"
    by (auto simp: tcpListenParts_def split: option.splits)
  then have "tcpListenPort l = (if q < 1 then None else Some q)" by (simp add: tcpListenPort_def)
  with Some s hp show ?thesis
    by (auto simp: listenHostPortCollidesExpose_def listen_endpoint_def expose_endpoint_def Let_def
        fuzzyHostMatch_iff host_class_default)
qed

lemma listen_endpoint_trim [simp]: "listen_endpoint (trim_space a) = listen_endpoint a"
  by (simp add: listen_endpoint_def tcpListenParts_def split: option.split)

lemma bindings_iff:
  "tcpBindingsEquiv a b \<longleftrightarrow>
     trim_space a \<noteq> [] \<and> trim_space b \<noteq> [] \<and> listen_endpoint a = listen_endpoint b"
proof -
  have "tcpListenParts (trim_space x) = tcpListenParts x" for x by (simp add: tcpListenParts_def)
  moreover have "trim_space a = trim_space b \<Longrightarrow> tcpListenParts a = tcpListenParts b"
    by (simp add: tcpListenParts_def)
  ultimately show ?thesis
    by (auto simp: tcpBindingsEquiv_def listen_endpoint_def Let_def fuzzyHostMatch_iff
        split: option.splits)
qed

text \<open>The wildcard address is a host like any other: it does not claim the loopback address.\<close>

lemma wildcard_not_seen: "\<not> listenHostPortCollidesExpose ''0.0.0.0:80'' ''127.0.0.1'' 80"
proof -
  have t: "trim_space ''0.0.0.0:80'' = ''0.0.0.0:80''" "trim_space ''0.0.0.0'' = ''0.0.0.0''"
    by (simp_all add: trim_space_plain space_heads_code space_lasts_code)
  have "split_host_port (''0.0.0.0'' @ CHR '':'' # ''80'') = Some (''0.0.0.0'', ''80'')"
    by (rule split_host_port_join) simp_all
  moreover have "parse_int ''80'' = Some 80"
    by (simp add: parse_int_def dec_val_def digit_val_def is_digit_def in_int64_def)
  ultimately have "listen_endpoint ''0.0.0.0:80'' = Inr (''0.0.0.0'', 80)"
    by (simp add: listen_endpoint_def tcpListenParts_def t host_class_def)
  then show ?thesis by (simp add: collides_iff expose_endpoint_def host_class_def plain_hosts)
qed

section \<open>Properties\<close>

text \<open>The conflict checks compare endpoints. Two hosts match iff they are the same up to blanks,
  the empty host and \<open>localhost\<close> standing for 127.0.0.1; a listener collides with an exposed service
  iff its address parses to the same host and port; two listening addresses are equivalent iff both
  are given and parse to the same endpoint, or neither parses and they are the same text. So the
  comparisons are symmetric and transitive.\<close>

lemma conflict_checks_compare_endpoints:
  "(fuzzyHostMatch a b \<longleftrightarrow> host_class a = host_class b)
   \<and> (listenHostPortCollidesExpose l h p \<longleftrightarrow> 1 \<le> p \<and> listen_endpoint l = Inr (host_class h, p))
   \<and> (tcpBindingsEquiv l m \<longleftrightarrow>
        trim_space l \<noteq> [] \<and> trim_space m \<noteq> [] \<and> listen_endpoint l = listen_endpoint m)"
  by (simp add: fuzzyHostMatch_iff collides_iff bindings_iff expose_endpoint_def)

end
