(* ===== verification/Json.thy ===== *)
theory Json
  imports GoStd
begin

text \<open>
  The part of \<open>encoding/json\<close> the program uses: compact printing of maps (\<open>json.Marshal\<close>), parsing
  (\<open>json.Unmarshal\<close>'s syntax) and the decoding of objects into structs. Strings are byte strings:
  both directions replace invalid UTF-8 by U+FFFD, as Go does. A parse or decode failure is \<open>None\<close>.
\<close>

section \<open>UTF-8\<close>

definition byte_at :: "string \<Rightarrow> nat \<Rightarrow> nat" where
  "byte_at s i = (if i < length s then of_char (s ! i) else 0)"

definition is_cont :: "string \<Rightarrow> nat \<Rightarrow> bool" where
  "is_cont s i \<longleftrightarrow> 128 \<le> byte_at s i \<and> byte_at s i \<le> 191"

text \<open>\<open>utf8.DecodeRuneInString\<close> of a non-empty string: the rune and its width; an invalid byte is
  U+FFFD of width 1.\<close>

definition decode_rune :: "string \<Rightarrow> nat \<times> nat" where
  "decode_rune s =
     (let a = byte_at s 0; b = byte_at s 1; c = byte_at s 2; d = byte_at s 3
      in if a < 128 then (a, 1)
         else if 194 \<le> a \<and> a \<le> 223 \<and> is_cont s 1 then ((a - 192) * 64 + (b - 128), 2)
         else if 224 \<le> a \<and> a \<le> 239 \<and> is_cont s 1 \<and> is_cont s 2
                 \<and> \<not> (a = 224 \<and> b < 160) \<and> \<not> (a = 237 \<and> 159 < b)
              then ((a - 224) * 4096 + (b - 128) * 64 + (c - 128), 3)
         else if 240 \<le> a \<and> a \<le> 244 \<and> is_cont s 1 \<and> is_cont s 2 \<and> is_cont s 3
                 \<and> \<not> (a = 240 \<and> b < 144) \<and> \<not> (a = 244 \<and> 143 < b)
              then ((a - 240) * 262144 + (b - 128) * 4096 + (c - 128) * 64 + (d - 128), 4)
         else (65533, 1))"

text \<open>\<open>utf8.AppendRune\<close>, for runes that are not surrogates.\<close>

definition encode_rune :: "nat \<Rightarrow> string" where
  "encode_rune r = map (char_of :: nat \<Rightarrow> char)
     (if r < 128 then [r]
      else if r < 2048 then [192 + r div 64, 128 + r mod 64]
      else if r < 65536 then [224 + r div 4096, 128 + r div 64 mod 64, 128 + r mod 64]
      else [240 + r div 262144, 128 + r div 4096 mod 64, 128 + r div 64 mod 64, 128 + r mod 64])"

lemma decode_rune_width: "1 \<le> snd (decode_rune s)" "snd (decode_rune s) \<le> 4"
  by (auto simp: decode_rune_def Let_def)

definition rune_text :: "string \<Rightarrow> string" where
  "rune_text s = (if decode_rune s = (65533, 1) then encode_rune 65533 else take (snd (decode_rune s)) s)"

text \<open>The string with its invalid bytes replaced.\<close>

function utf8_fix :: "string \<Rightarrow> string" where
  "utf8_fix s = (if s = [] then [] else rune_text s @ utf8_fix (drop (snd (decode_rune s)) s))"
  by auto
termination
  by (relation "measure length") (use decode_rune_width in \<open>auto simp: Suc_le_eq\<close>)

declare utf8_fix.simps [simp del]

section \<open>Values\<close>

datatype json =
    JNull
  | JBool bool
  | JNum string
  | JStr string
  | JArr "json list"
  | JObj "(string \<times> json) list"

section \<open>Printing\<close>

definition chr :: "nat \<Rightarrow> char" where
  "chr n = char_of n"

text \<open>How one byte below 128 is written inside a string: escaped are the controls, the quote, the
  backslash and the HTML characters.\<close>

definition escape_ascii :: "nat \<Rightarrow> string" where
  "escape_ascii b =
     (if b = 34 \<or> b = 92 then [chr 92, chr b]
      else if b = 10 then [chr 92, CHR ''n''] else if b = 13 then [chr 92, CHR ''r'']
      else if b = 9 then [chr 92, CHR ''t'']
      else if b < 32 \<or> b = 60 \<or> b = 62 \<or> b = 38
           then chr 92 # ''u00'' @ [hex_digit (b div 16), hex_digit (b mod 16)]
      else [chr b])"

definition escape_rune :: "string \<Rightarrow> string" where
  "escape_rune s =
     (let (r, w) = decode_rune s
      in if r < 128 then escape_ascii r
         else if r = 65533 \<and> w = 1 then chr 92 # ''ufffd''
         else if r = 8232 then chr 92 # ''u2028'' else if r = 8233 then chr 92 # ''u2029''
         else take w s)"

function escape :: "string \<Rightarrow> string" where
  "escape s = (if s = [] then [] else escape_rune s @ escape (drop (snd (decode_rune s)) s))"
  by auto
termination
  by (relation "measure length") (use decode_rune_width in \<open>auto simp: Suc_le_eq\<close>)

declare escape.simps [simp del]

definition quoted :: "string \<Rightarrow> string" where
  "quoted s = chr 34 # escape s @ [chr 34]"

fun commas :: "string list \<Rightarrow> string" where
  "commas [] = []"
| "commas [x] = x"
| "commas (x # xs) = x @ CHR '','' # commas xs"

text \<open>\<open>json.Marshal\<close>; the members of an object are listed in the order of their keys.\<close>

fun json_print :: "json \<Rightarrow> string" where
  "json_print JNull = ''null''"
| "json_print (JBool b) = (if b then ''true'' else ''false'')"
| "json_print (JNum n) = n"
| "json_print (JStr s) = quoted s"
| "json_print (JArr vs) = CHR ''['' # commas (map json_print vs) @ '']''"
| "json_print (JObj kvs) = CHR ''{'' # commas (map (\<lambda>(k, v). quoted k @ CHR '':'' # json_print v) kvs) @ ''}''"

section \<open>Parsing\<close>

definition is_ws :: "char \<Rightarrow> bool" where
  "is_ws c \<longleftrightarrow> c = CHR '' '' \<or> c = chr 9 \<or> c = chr 10 \<or> c = chr 13"

abbreviation skip_ws :: "string \<Rightarrow> string" where
  "skip_ws \<equiv> dropWhile is_ws"

definition hex_value :: "char \<Rightarrow> nat option" where
  "hex_value c =
     (let n = of_char c
      in if 48 \<le> n \<and> n \<le> 57 then Some (n - 48)
         else if 97 \<le> n \<and> n \<le> 102 then Some (n - 87)
         else if 65 \<le> n \<and> n \<le> 70 then Some (n - 55) else None)"

fun hex4 :: "string \<Rightarrow> nat option" where
  "hex4 (a # b # c # d # _) =
     (case (hex_value a, hex_value b, hex_value c, hex_value d) of
        (Some w, Some x, Some y, Some z) \<Rightarrow> Some (((w * 16 + x) * 16 + y) * 16 + z)
      | _ \<Rightarrow> None)"
| "hex4 _ = None"

definition simple_escape :: "char \<Rightarrow> nat option" where
  "simple_escape c =
     (if c = chr 34 \<or> c = chr 92 \<or> c = CHR ''/'' then Some (of_char c)
      else if c = CHR ''b'' then Some 8 else if c = CHR ''f'' then Some 12
      else if c = CHR ''n'' then Some 10 else if c = CHR ''r'' then Some 13
      else if c = CHR ''t'' then Some 9 else None)"

definition is_surrogate :: "nat \<Rightarrow> bool" where
  "is_surrogate r \<longleftrightarrow> 55296 \<le> r \<and> r < 57344"

text \<open>One item of a string's body after the opening quote: what it contributes and how many bytes it
  takes; \<open>None\<close> is a syntax error. A pair of escaped surrogates is one item, an unpaired surrogate is
  U+FFFD.\<close>

definition str_item :: "string \<Rightarrow> (string \<times> nat) option" where
  "str_item s =
     (if byte_at s 0 < 32 then None
      else if byte_at s 0 \<noteq> 92 then Some (rune_text s, snd (decode_rune s))
      else if byte_at s 1 \<noteq> 117 then
        (if length s < 2 then None else map_option (\<lambda>r. (encode_rune r, 2)) (simple_escape (s ! 1)))
      else (case hex4 (drop 2 s) of
              None \<Rightarrow> None
            | Some r \<Rightarrow>
                if \<not> is_surrogate r then Some (encode_rune r, 6)
                else (case (if take 2 (drop 6 s) = [chr 92, CHR ''u''] then hex4 (drop 8 s) else None) of
                        Some r2 \<Rightarrow>
                          if r < 56320 \<and> 56320 \<le> r2 \<and> r2 < 57344
                          then Some (encode_rune ((r - 55296) * 1024 + (r2 - 56320) + 65536), 12)
                          else Some (encode_rune 65533, 6)
                      | None \<Rightarrow> Some (encode_rune 65533, 6))))"

lemma str_item_width: "str_item s = Some (t, w) \<Longrightarrow> 1 \<le> w"
  using decode_rune_width(1) [of s] by (auto simp: str_item_def split: if_splits option.splits)

function parse_str :: "string \<Rightarrow> (string \<times> string) option" where
  "parse_str s =
     (if s = [] then None
      else if hd s = chr 34 then Some ([], tl s)
      else (case str_item s of
              None \<Rightarrow> None
            | Some (t, w) \<Rightarrow> map_option (\<lambda>(u, rest). (t @ u, rest)) (parse_str (drop w s))))"
  by auto
termination
  by (relation "measure length") (auto dest!: str_item_width simp: Suc_le_eq)

declare parse_str.simps [simp del]

text \<open>The longest prefix that is a JSON number, if there is one.\<close>

definition scan_int :: "string \<Rightarrow> (string \<times> string) option" where
  "scan_int s =
     (case s of
        [] \<Rightarrow> None
      | c # t \<Rightarrow>
          if c = CHR ''0'' then Some ([c], t)
          else if is_digit c then Some (takeWhile is_digit s, dropWhile is_digit s) else None)"

definition scan_digits :: "string \<Rightarrow> (string \<times> string) option" where
  "scan_digits s = (if s \<noteq> [] \<and> is_digit (hd s) then Some (takeWhile is_digit s, dropWhile is_digit s) else None)"

definition scan_frac :: "string \<Rightarrow> (string \<times> string) option" where
  "scan_frac s =
     (case s of
        c # t \<Rightarrow> if c = CHR ''.'' then map_option (\<lambda>(d, r). (c # d, r)) (scan_digits t) else Some ([], s)
      | [] \<Rightarrow> Some ([], []))"

definition scan_exp :: "string \<Rightarrow> (string \<times> string) option" where
  "scan_exp s =
     (case s of
        c # t \<Rightarrow>
          if c = CHR ''e'' \<or> c = CHR ''E'' then
            (if t \<noteq> [] \<and> (hd t = CHR ''+'' \<or> hd t = CHR ''-'')
             then map_option (\<lambda>(d, r). (c # hd t # d, r)) (scan_digits (tl t))
             else map_option (\<lambda>(d, r). (c # d, r)) (scan_digits t))
          else Some ([], s)
      | [] \<Rightarrow> Some ([], []))"

definition scan_num :: "string \<Rightarrow> (string \<times> string) option" where
  "scan_num s =
     (let (m, s1) = (if s \<noteq> [] \<and> hd s = CHR ''-'' then (''-'', tl s) else ([], s))
      in (case scan_int s1 of
            None \<Rightarrow> None
          | Some (i, s2) \<Rightarrow>
              (case scan_frac s2 of
                 None \<Rightarrow> None
               | Some (f, s3) \<Rightarrow> map_option (\<lambda>(e, r). (m @ i @ f @ e, r)) (scan_exp s3))))"

text \<open>Values, by recursive descent. The first argument is fuel, the second the nesting depth, which
  \<open>encoding/json\<close> bounds by 10000.\<close>

fun parse_value :: "nat \<Rightarrow> nat \<Rightarrow> string \<Rightarrow> (json \<times> string) option"
  and parse_elems :: "nat \<Rightarrow> nat \<Rightarrow> string \<Rightarrow> (json list \<times> string) option"
  and parse_members :: "nat \<Rightarrow> nat \<Rightarrow> string \<Rightarrow> ((string \<times> json) list \<times> string) option" where
  "parse_value 0 d s = None"
| "parse_value (Suc n) d s =
     (case skip_ws s of
        [] \<Rightarrow> None
      | c # t \<Rightarrow>
          if c = chr 34 then map_option (\<lambda>(x, r). (JStr x, r)) (parse_str t)
          else if c = CHR ''{'' then
            (if 10000 \<le> d then None
             else if skip_ws t \<noteq> [] \<and> hd (skip_ws t) = CHR ''}'' then Some (JObj [], tl (skip_ws t))
             else map_option (\<lambda>(kvs, r). (JObj kvs, r)) (parse_members n (d + 1) t))
          else if c = CHR ''['' then
            (if 10000 \<le> d then None
             else if skip_ws t \<noteq> [] \<and> hd (skip_ws t) = CHR '']'' then Some (JArr [], tl (skip_ws t))
             else map_option (\<lambda>(vs, r). (JArr vs, r)) (parse_elems n (d + 1) t))
          else if has_prefix (c # t) ''true'' then Some (JBool True, drop 4 (c # t))
          else if has_prefix (c # t) ''false'' then Some (JBool False, drop 5 (c # t))
          else if has_prefix (c # t) ''null'' then Some (JNull, drop 4 (c # t))
          else map_option (\<lambda>(x, r). (JNum x, r)) (scan_num (c # t)))"
| "parse_elems 0 d s = None"
| "parse_elems (Suc n) d s =
     (case parse_value n d s of
        None \<Rightarrow> None
      | Some (v, r) \<Rightarrow>
          (case skip_ws r of
             [] \<Rightarrow> None
           | c # t \<Rightarrow>
               if c = CHR '','' then map_option (\<lambda>(vs, r). (v # vs, r)) (parse_elems n d t)
               else if c = CHR '']'' then Some ([v], t) else None))"
| "parse_members 0 d s = None"
| "parse_members (Suc n) d s =
     (case skip_ws s of
        [] \<Rightarrow> None
      | q # t \<Rightarrow>
          if q \<noteq> chr 34 then None
          else (case parse_str t of
                  None \<Rightarrow> None
                | Some (k, r) \<Rightarrow>
                    (case skip_ws r of
                       [] \<Rightarrow> None
                     | c # t \<Rightarrow>
                         if c \<noteq> CHR '':'' then None
                         else (case parse_value n d t of
                                 None \<Rightarrow> None
                               | Some (v, r) \<Rightarrow>
                                   (case skip_ws r of
                                      [] \<Rightarrow> None
                                    | c # t \<Rightarrow>
                                        if c = CHR '','' then map_option (\<lambda>(kvs, r). ((k, v) # kvs, r)) (parse_members n d t)
                                        else if c = CHR ''}'' then Some ([(k, v)], t) else None)))))"

text \<open>Every nested call gives up one unit of fuel, and between two of them on the same level at least
  one byte is read, so twice the length (and two) is never short.\<close>

definition json_parse :: "string \<Rightarrow> json option" where
  "json_parse s =
     (case parse_value (2 * length s + 2) 0 s of
        None \<Rightarrow> None
      | Some (v, r) \<Rightarrow> if skip_ws r = [] then Some v else None)"

section \<open>Decoding into structs\<close>

text \<open>Keys match field names up to \<open>bytes.EqualFold\<close>: ASCII case, and the two other runes that fold
  to an ASCII letter (U+017F to \<open>s\<close>, U+212A to \<open>k\<close>).\<close>

fun json_fold :: "string \<Rightarrow> string" where
  "json_fold [] = []"
| "json_fold (c # s) =
     (if take 2 (c # s) = map char_of [197::nat, 191] then CHR ''s'' # json_fold (drop 1 s)
      else if take 3 (c # s) = map char_of [226::nat, 132, 170] then CHR ''k'' # json_fold (drop 2 s)
      else lower_char c # json_fold s)"

declare json_fold.simps [simp del]

text \<open>Each matching member assigns in turn, \<open>null\<close> assigns nothing, a value of another kind is an
  error.\<close>

fun str_field :: "string \<Rightarrow> (string \<times> json) list \<Rightarrow> string \<Rightarrow> string option" where
  "str_field f [] x = Some x"
| "str_field f ((k, v) # kvs) x =
     (if json_fold k \<noteq> f then str_field f kvs x
      else (case v of JStr y \<Rightarrow> str_field f kvs y | JNull \<Rightarrow> str_field f kvs x | _ \<Rightarrow> None))"

fun bool_field :: "string \<Rightarrow> (string \<times> json) list \<Rightarrow> bool \<Rightarrow> bool option" where
  "bool_field f [] x = Some x"
| "bool_field f ((k, v) # kvs) x =
     (if json_fold k \<noteq> f then bool_field f kvs x
      else (case v of JBool y \<Rightarrow> bool_field f kvs y | JNull \<Rightarrow> bool_field f kvs x | _ \<Rightarrow> None))"

fun int_field :: "string \<Rightarrow> (string \<times> json) list \<Rightarrow> int \<Rightarrow> int option" where
  "int_field f [] x = Some x"
| "int_field f ((k, v) # kvs) x =
     (if json_fold k \<noteq> f then int_field f kvs x
      else (case v of
              JNum n \<Rightarrow> (case parse_int n of Some y \<Rightarrow> int_field f kvs y | None \<Rightarrow> None)
            | JNull \<Rightarrow> int_field f kvs x | _ \<Rightarrow> None))"

text \<open>The members a document gives to a struct: \<open>null\<close> gives none, anything but an object is an
  error.\<close>

definition json_members :: "string \<Rightarrow> (string \<times> json) list option" where
  "json_members s =
     (case json_parse s of
        Some (JObj kvs) \<Rightarrow> Some kvs
      | Some JNull \<Rightarrow> Some []
      | _ \<Rightarrow> None)"

section \<open>Enough fuel\<close>

declare dropWhile_eq_Nil_conv [simp del]
lemma length_skip_ws: "length (skip_ws s) \<le> length s"
  by (rule length_dropWhile_le)

lemma parse_str_shorter: "parse_str s = Some (x, r) \<Longrightarrow> length r < length s"
proof (induction s arbitrary: x rule: parse_str.induct)
  case (1 s)
  show ?case
  proof (cases "s = [] \<or> hd s = chr 34")
    case True
    with "1.prems" show ?thesis by (subst (asm) parse_str.simps) (cases s; auto split: if_splits)
  next
    case False
    with "1.prems" obtain t w u where i: "str_item s = Some (t, w)" "parse_str (drop w s) = Some (u, r)"
      by (subst (asm) parse_str.simps) (auto split: option.splits)
    from False "1.IH" [OF _ _ i(1) refl i(2)] show ?thesis by simp
  qed
qed

lemma scan_digits_shorter: "scan_digits s = Some (x, r) \<Longrightarrow> length r < length s"
  by (cases s) (auto simp: scan_digits_def le_imp_less_Suc length_dropWhile_le split: if_splits)

lemma scan_int_shorter: "scan_int s = Some (x, r) \<Longrightarrow> length r < length s"
  by (cases s) (auto simp: scan_int_def le_imp_less_Suc length_dropWhile_le split: if_splits)

lemma scan_frac_shorter: "scan_frac s = Some (x, r) \<Longrightarrow> length r \<le> length s"
  by (cases s) (auto simp: scan_frac_def dest: scan_digits_shorter split: if_splits)

lemma scan_exp_shorter: "scan_exp s = Some (x, r) \<Longrightarrow> length r \<le> length s"
  by (cases s) (auto simp: scan_exp_def dest!: scan_digits_shorter split: if_splits)

lemma scan_num_shorter: "scan_num s = Some (x, r) \<Longrightarrow> length r < length s"
  by (auto simp: scan_num_def Let_def dest!: scan_int_shorter scan_frac_shorter scan_exp_shorter
      split: if_splits option.splits)

lemma skip_ws_cons: "skip_ws s = c # t \<Longrightarrow> length t < length s"
  using length_skip_ws [of s] by simp

lemma parse_shorter:
  "parse_value n d s = Some (v, r) \<Longrightarrow> length r < length s"
  "parse_elems n d s = Some (vs, r) \<Longrightarrow> length r < length s"
  "parse_members n d s = Some (kvs, r) \<Longrightarrow> length r < length s"
proof (induction n d s and n d s and n d s arbitrary: v r and vs r and kvs r
    rule: parse_value_parse_elems_parse_members.induct)
  case (2 n d s)
  then obtain c t where ct: "skip_ws s = c # t" by (auto split: list.splits)
  have l: "length t < length s" using skip_ws_cons [OF ct] .
  have l2: "length (tl (skip_ws t)) \<le> length t" using length_skip_ws [of t] by simp
  show ?case
    using "2.prems" "2.IH" l l2
    by (auto simp: ct dest!: parse_str_shorter scan_num_shorter split: if_splits intro: less_trans)
next
  case (4 n d s)
  from "4.prems" obtain v1 r1 c t where v: "parse_value n d s = Some (v1, r1)" "skip_ws r1 = c # t"
    by (auto split: option.splits list.splits)
  have "length t < length r1" using skip_ws_cons [OF v(2)] .
  with v "4.IH"(1) [OF v(1)] "4.IH"(2) [OF v(1) refl v(2)] "4.prems" show ?case
    by (auto split: if_splits)
next
  case (6 n d s)
  from "6.prems" obtain q t k r1 c1 t1 v1 r2 c2 t2 where
    v: "skip_ws s = q # t" "q = chr 34" "parse_str t = Some (k, r1)" "skip_ws r1 = c1 # t1" "c1 = CHR '':''"
      "parse_value n d t1 = Some (v1, r2)" "skip_ws r2 = c2 # t2"
    by (auto split: option.splits list.splits if_splits)
  note l = skip_ws_cons [OF v(1)] parse_str_shorter [OF v(3)] skip_ws_cons [OF v(4)] skip_ws_cons [OF v(7)]
  have "length r2 < length t1" using "6.IH"(1) v by auto
  moreover have "parse_members n d t2 = Some (kvs', r') \<Longrightarrow> c2 = CHR '','' \<Longrightarrow> length r' < length t2" for kvs' r'
    using "6.IH"(2) v by auto
  ultimately show ?case
    using "6.prems" v l by (auto split: if_splits)
qed auto

text \<open>Fuel of twice the length, and two, is enough: more gives the same result.\<close>

lemma parse_fuel:
  "2 * length s + 1 \<le> n \<Longrightarrow> n \<le> m \<Longrightarrow> parse_value m d s = parse_value n d s"
  "2 * length s + 2 \<le> n \<Longrightarrow> n \<le> m \<Longrightarrow> parse_elems m d s = parse_elems n d s"
  "2 * length s + 2 \<le> n \<Longrightarrow> n \<le> m \<Longrightarrow> parse_members m d s = parse_members n d s"
proof (induction n d s and n d s and n d s arbitrary: m and m and m
    rule: parse_value_parse_elems_parse_members.induct)
  case (2 n d s)
  obtain m' where m: "m = Suc m'" "n \<le> m'" using "2.prems" by (cases m) auto
  show ?case
  proof (cases "skip_ws s")
    case (Cons c t)
    have l: "2 * length t + 2 \<le> n" using skip_ws_cons [OF Cons] "2.prems" by simp
    have a: "parse_members m' (d + 1) t = parse_members n (d + 1) t"
      if "c \<noteq> chr 34" "c = CHR ''{''" "\<not> 10000 \<le> d" "\<not> (skip_ws t \<noteq> [] \<and> hd (skip_ws t) = CHR ''}'')"
      using "2.IH"(1) [OF Cons that l m(2)] .
    have b: "parse_elems m' (d + 1) t = parse_elems n (d + 1) t"
      if "c \<noteq> chr 34" "c \<noteq> CHR ''{''" "c = CHR ''[''" "\<not> 10000 \<le> d" "\<not> (skip_ws t \<noteq> [] \<and> hd (skip_ws t) = CHR '']'')"
      using "2.IH"(2) [OF Cons that l m(2)] .
    show ?thesis
      using a b unfolding m parse_value.simps Cons list.case by (simp cong: if_cong)
  qed (simp add: m)
next
  case (4 n d s)
  obtain m' where m: "m = Suc m'" "n \<le> m'" using "4.prems" by (cases m) auto
  have v: "parse_value m' d s = parse_value n d s" by (rule "4.IH"(1) [OF _ m(2)]) (use "4.prems" in simp)
  show ?case
  proof (cases "parse_value n d s")
    case (Some p)
    obtain v1 r1 where p: "p = (v1, r1)" by (cases p)
    have l: "length r1 < length s" using parse_shorter(1) Some p by blast
    show ?thesis
    proof (cases "skip_ws r1")
      case (Cons c t)
      have "c = CHR '','' \<Longrightarrow> parse_elems m' d t = parse_elems n d t"
        by (rule "4.IH"(2) [OF Some _ Cons _ _ m(2)])
          (use skip_ws_cons [OF Cons] l "4.prems" p in simp_all)
      then show ?thesis by (simp add: m v Some p Cons)
    qed (simp add: m v Some p)
  qed (simp add: m v)
next
  case (6 n d s)
  obtain m' where m: "m = Suc m'" "n \<le> m'" using "6.prems" by (cases m) auto
  show ?case
  proof (cases "skip_ws s")
    case (Cons q t)
    note l1 = skip_ws_cons [OF Cons]
    show ?thesis
    proof (cases "q = chr 34 \<and> parse_str t \<noteq> None")
      case True
      then obtain k r1 where q: "q = chr 34" and r1: "parse_str t = Some (k, r1)" by auto
      note l2 = parse_str_shorter [OF r1]
      show ?thesis
      proof (cases "skip_ws r1")
        case c1: (Cons c1 t1)
        note l3 = skip_ws_cons [OF c1]
        show ?thesis
        proof (cases "c1 = CHR '':''")
          case col: True
          have v: "parse_value m' d t1 = parse_value n d t1"
            by (rule "6.IH"(1) [OF Cons _ r1 _ c1 _ _ m(2)]) (use q col l1 l2 l3 "6.prems" in simp_all)
          show ?thesis
          proof (cases "parse_value n d t1")
            case (Some p)
            obtain v1 r2 where p: "p = (v1, r2)" by (cases p)
            have l4: "length r2 < length t1" using parse_shorter(1) Some p by blast
            show ?thesis
            proof (cases "skip_ws r2")
              case c2: (Cons c2 t2)
              have "c2 = CHR '','' \<Longrightarrow> parse_members m' d t2 = parse_members n d t2"
                by (rule "6.IH"(2) [OF Cons _ r1 _ c1 _ Some _ c2 _ _ m(2)])
                  (use q col p l1 l2 l3 l4 skip_ws_cons [OF c2] "6.prems" in simp_all)
              then show ?thesis by (simp add: m Cons q r1 c1 col v Some p c2)
            qed (simp add: m Cons q r1 c1 col v Some p)
          qed (simp add: m Cons q r1 c1 col v)
        qed (simp add: m Cons q r1 c1)
      qed (simp add: m Cons q r1)
    qed (cases "parse_str t"; auto simp: m Cons)
  qed (simp add: m)
qed auto

section \<open>What is printed is read back\<close>

lemma char_eq_chr: "c = chr n \<longleftrightarrow> (of_char c :: nat) = n mod 256"
  by (simp add: chr_def char_eq_char_of)

lemma byte_at_less: "byte_at s i < 256"
  by (simp add: byte_at_def)

lemma byte_at_Cons [simp]: "byte_at (c # s) 0 = of_char c" "byte_at (c # s) (Suc i) = byte_at s i"
  by (simp_all add: byte_at_def)

lemma of_char_chr [simp]: "n < 256 \<Longrightarrow> (of_char (chr n) :: nat) = n"
  by (simp add: chr_def)

lemma chr_of_char [simp]: "chr (of_char c) = c"
  by (simp add: chr_def)

lemma chr_eq [simp]: "m < 256 \<Longrightarrow> n < 256 \<Longrightarrow> chr m = chr n \<longleftrightarrow> m = n"
  by (metis of_char_chr)

lemma hex_value_digit [simp]: "d < 16 \<Longrightarrow> hex_value (hex_digit d) = Some d"
  by (auto simp: hex_value_def hex_digit_def of_char_of Let_def)

lemma take_byte_at: "i < length s \<Longrightarrow> chr (byte_at s i) = s ! i"
  by (simp add: byte_at_def)

lemma byte_at_pos: "0 < byte_at s i \<Longrightarrow> i < length s"
  by (simp add: byte_at_def split: if_splits)

lemma decode_rune_ascii: "byte_at s 0 < 128 \<Longrightarrow> decode_rune s = (byte_at s 0, 1)"
  by (simp add: decode_rune_def Let_def)

lemma decode_rune_small: "decode_rune s = (r, w) \<Longrightarrow> r < 128 \<Longrightarrow> byte_at s 0 = r \<and> w = 1"
  by (auto simp: decode_rune_def Let_def is_cont_def split: if_splits)

lemma escape_ascii_item:
  assumes "r < 128"
  shows "str_item (escape_ascii r @ u) = Some ([chr r], length (escape_ascii r))"
    "hd (escape_ascii r @ u) \<noteq> chr 34"
proof -
  have u: "(of_char (CHR ''u'') :: nat) = 117" "(of_char (CHR ''n'') :: nat) = 110"
    "(of_char (CHR ''r'') :: nat) = 114" "(of_char (CHR ''t'') :: nat) = 116" by simp_all
  have z: "hex_value (CHR ''0'') = Some 0" by (simp add: hex_value_def)
  have b: "byte_at (chr 92 # v) 0 = 92" for v by simp
  have e: "encode_rune r = [chr r]" using assms by (simp add: encode_rune_def chr_def)
  have d: "16 * (r div 16) + r mod 16 = r" by simp
  show "str_item (escape_ascii r @ u) = Some ([chr r], length (escape_ascii r))"
  proof (cases "r = 34 \<or> r = 92 \<or> r = 10 \<or> r = 13 \<or> r = 9")
    case True
    then show ?thesis
    proof (elim disjE)
      assume r: "r = 34"
      show ?thesis using e by (simp add: r escape_ascii_def str_item_def simple_escape_def)
    next
      assume r: "r = 92"
      show ?thesis using e by (simp add: r escape_ascii_def str_item_def simple_escape_def)
    next
      assume r: "r = 10"
      show ?thesis using e by (simp add: r escape_ascii_def str_item_def simple_escape_def char_eq_chr)
    next
      assume r: "r = 13"
      show ?thesis using e by (simp add: r escape_ascii_def str_item_def simple_escape_def char_eq_chr)
    next
      assume r: "r = 9"
      show ?thesis using e by (simp add: r escape_ascii_def str_item_def simple_escape_def char_eq_chr)
    qed
  next
    case False
    show ?thesis
    proof (cases "r < 32 \<or> r = 60 \<or> r = 62 \<or> r = 38")
      case True
      then have x: "escape_ascii r = chr 92 # ''u00'' @ [hex_digit (r div 16), hex_digit (r mod 16)]"
        using False by (simp add: escape_ascii_def)
      have h: "hex4 (drop 2 (escape_ascii r @ u)) = Some r"
        using assms by (simp add: x z)
      have b1: "byte_at (escape_ascii r @ u) 1 = 117" "byte_at (escape_ascii r @ u) 0 = 92" by (simp_all add: x)
      have s: "\<not> is_surrogate r" using assms by (simp add: is_surrogate_def)
      have "str_item (escape_ascii r @ u) = Some (encode_rune r, 6)"
        unfolding str_item_def h b1 using s by simp
      then show ?thesis using e x by simp
    next
      case nf: False
      with False have x: "escape_ascii r = [chr r]" by (simp add: escape_ascii_def)
      have "byte_at (chr r # u) 0 = r" using assms by simp
      then have "decode_rune (chr r # u) = (r, 1)" using assms decode_rune_ascii [of "chr r # u"] by simp
      then show ?thesis using assms False nf by (simp add: x str_item_def rune_text_def)
    qed
  qed
  show "hd (escape_ascii r @ u) \<noteq> chr 34"
    using assms by (auto simp: escape_ascii_def)
qed

lemma byte_at_take: "i < w \<Longrightarrow> i < length s \<Longrightarrow> byte_at (take w s @ u) i = byte_at s i"
  by (auto simp: byte_at_def nth_append)

lemma decode_rune_take:
  assumes "decode_rune s = (r, w)" "2 \<le> w"
  shows "decode_rune (take w s @ u) = (r, w)" "w \<le> length s" "128 \<le> byte_at s 0" "128 \<le> r"
proof -
  have wl: "w \<le> length s"
    using assms byte_at_pos [of s 0] byte_at_pos [of s 1] byte_at_pos [of s 2] byte_at_pos [of s 3]
    by (auto simp: decode_rune_def Let_def is_cont_def split: if_splits)
  then show "w \<le> length s" .
  show "128 \<le> byte_at s 0"
    using assms decode_rune_ascii [of s] by (cases "byte_at s 0 < 128") auto
  have at: "byte_at (take w s @ u) i = byte_at s i" if "i < w" for i
    using that wl by (simp add: byte_at_take)
  have w: "w = 2 \<or> w = 3 \<or> w = 4"
    using assms by (auto simp: decode_rune_def Let_def split: if_splits)
  show "128 \<le> r"
    using assms decode_rune_small [of s r w] by (cases "r < 128") auto
  from w show "decode_rune (take w s @ u) = (r, w)"
  proof (elim disjE)
    assume "w = 2"
    with at [of 0] at [of 1] assms show ?thesis
      by (simp add: decode_rune_def Let_def is_cont_def split: if_splits)
  next
    assume "w = 3"
    with at [of 0] at [of 1] at [of 2] assms show ?thesis
      by (simp add: decode_rune_def Let_def is_cont_def split: if_splits)
  next
    assume "w = 4"
    with at [of 0] at [of 1] at [of 2] at [of 3] assms show ?thesis
      by (simp add: decode_rune_def Let_def is_cont_def split: if_splits)
  qed
qed

lemma chr_codes: "chr 34 = CHR 0x22" "chr 92 = CHR 0x5C" "chr 9 = CHR 0x09" "chr 10 = CHR 0x0A" "chr 13 = CHR 0x0D"
  by (rule sym, simp add: char_eq_chr)+

lemma three_bytes:
  fixes a b c :: nat
  assumes "224 \<le> a" "128 \<le> b" "b \<le> 191" "128 \<le> c" "c \<le> 191"
    and "(a - 224) * 4096 + (b - 128) * 64 + (c - 128) = r" "r = 8232 \<or> r = 8233"
  shows "a = 226 \<and> b = 128 \<and> c = 128 + (r - 8192)"
proof -
  define x y z where "x = a - 224" and "y = b - 128" and "z = c - 128"
  have eq: "x * 4096 + y * 64 + z = r" "y \<le> 63" "z \<le> 63" "a = 224 + x" "b = 128 + y" "c = 128 + z"
    using assms by (auto simp: x_def y_def z_def)
  have "x < 3" "1 < x" using eq(1-3) assms(7) by linarith+
  then have x: "x = 2" by simp
  then have "y < 1" using eq(1-3) assms(7) by linarith
  with eq x show ?thesis using assms(7) by auto
qed

lemma decode_rune_three:
  assumes "decode_rune s = (r, w)" "2048 \<le> r" "r < 65533"
  shows "224 \<le> byte_at s 0 \<and> is_cont s 1 \<and> is_cont s 2 \<and> w = 3
    \<and> (byte_at s 0 - 224) * 4096 + (byte_at s 1 - 128) * 64 + (byte_at s 2 - 128) = r"
proof -
  have two: "(a - 192) * 64 + (b - 128) < 2048" if "a \<le> 223" "b \<le> 191" for a b :: nat
  proof -
    have "a - 192 \<le> 31" "b - 128 \<le> 63" using that by simp_all
    then show ?thesis by linarith
  qed
  have four: "65536 \<le> (a - 240) * 262144 + (b - 128) * 4096 + c + d"
    if "240 \<le> a" "\<not> (a = 240 \<and> b < 144)" for a b c d :: nat
  proof (cases "a = 240")
    case True
    with that have "16 \<le> b - 128" by simp
    then show ?thesis by linarith
  next
    case False
    with that have "1 \<le> a - 240" by simp
    then show ?thesis by linarith
  qed
  show ?thesis
    using assms two [of "byte_at s 0" "byte_at s 1"]
      four [of "byte_at s 0" "byte_at s 1" "(byte_at s 2 - 128) * 64" "byte_at s 3 - 128"]
    unfolding decode_rune_def Let_def is_cont_def by (simp only: split: if_splits) simp_all
qed

lemma hex_FFFD: "hex4 (drop 2 (chr 92 # ''ufffd'' @ u)) = Some 65533"
  "hex4 (drop 2 (chr 92 # ''u2028'' @ u)) = Some 8232"
  "hex4 (drop 2 (chr 92 # ''u2029'' @ u)) = Some 8233"
  by (simp_all add: hex_value_def)

lemma escape_u_item:
  assumes "hex4 (drop 2 (chr 92 # CHR ''u'' # v)) = Some r" "\<not> is_surrogate r"
  shows "str_item (chr 92 # CHR ''u'' # v) = Some (encode_rune r, 6)"
proof -
  have b: "byte_at (chr 92 # CHR ''u'' # v) 0 = 92" "byte_at (chr 92 # CHR ''u'' # v) 1 = 117" by simp_all
  show ?thesis unfolding str_item_def b using assms by simp
qed

lemma decode_rune_line_sep:
  assumes "decode_rune s = (r, w)" "r = 8232 \<or> r = 8233"
  shows "take w s = encode_rune r"
proof -
  have "2048 \<le> r" "r < 65533" using assms(2) by auto
  from decode_rune_three [OF assms(1) this]
  have c: "byte_at s 0 = 226 \<and> byte_at s 1 = 128 \<and> byte_at s 2 = 128 + (r - 8192) \<and> w = 3"
    using three_bytes [of "byte_at s 0" "byte_at s 1" "byte_at s 2" r] assms(2) by (simp add: is_cont_def)
  then have l: "0 < length s" "1 < length s" "2 < length s"
    using byte_at_pos [of s 0] byte_at_pos [of s 1] byte_at_pos [of s 2] by simp_all
  then obtain a b d t where s: "s = a # b # d # t"
    by (cases s; cases "tl s"; cases "tl (tl s)") auto
  have n: "(2::nat) = Suc (Suc 0)" by simp
  from c assms(2) have "a = chr 226" "b = chr 128" "d = chr (128 + (r - 8192))"
    unfolding s n by (auto simp: char_eq_chr)
  with assms(2) c show ?thesis unfolding s by (auto simp: encode_rune_def chr_def)
qed

lemma escape_rune_item:
  assumes "s \<noteq> []"
  shows "str_item (escape_rune s @ u) = Some (rune_text s, length (escape_rune s))
    \<and> escape_rune s \<noteq> [] \<and> hd (escape_rune s @ u) \<noteq> chr 34"
proof -
  obtain r w where d: "decode_rune s = (r, w)" by (cases "decode_rune s")
  show ?thesis
  proof (cases "r < 128")
    case True
    have "take 1 s = [chr r]" using decode_rune_small [OF d True] assms by (cases s) auto
    then have "rune_text s = [chr r]" using True decode_rune_small [OF d True] by (simp add: rune_text_def d)
    moreover have "escape_ascii r \<noteq> []" by (simp add: escape_ascii_def)
    ultimately show ?thesis
      using escape_ascii_item [OF True, of u] True by (simp add: escape_rune_def d)
  next
    case big: False
    consider "r = 65533" "w = 1" | "r = 8232 \<or> r = 8233" | "2 \<le> w" "r \<noteq> 8232" "r \<noteq> 8233" "\<not> (r = 65533 \<and> w = 1)"
    proof -
      have "w = 1 \<Longrightarrow> r = 65533"
        using d big by (auto simp: decode_rune_def Let_def split: if_splits)
      with decode_rune_width [of s] d that show ?thesis by fastforce
    qed
    then show ?thesis
    proof cases
      case 1
      have "str_item (chr 92 # ''ufffd'' @ u) = Some (encode_rune 65533, 6)"
        using escape_u_item [of "''fffd'' @ u" 65533] hex_FFFD(1) [of u] by (simp add: is_surrogate_def)
      with 1 show ?thesis by (simp add: escape_rune_def d rune_text_def)
    next
      case 2
      have "str_item (chr 92 # ''u2028'' @ u) = Some (encode_rune 8232, 6)"
        "str_item (chr 92 # ''u2029'' @ u) = Some (encode_rune 8233, 6)"
        using escape_u_item [of "''2028'' @ u" 8232] escape_u_item [of "''2029'' @ u" 8233] hex_FFFD [of u]
        by (simp_all add: is_surrogate_def)
      with 2 decode_rune_line_sep [OF d 2] show ?thesis
        by (auto simp: escape_rune_def d rune_text_def)
    next
      case 3
      note t = decode_rune_take(1) [OF d 3(1), of u] decode_rune_take(2-4) [OF d 3(1)]
      have b: "byte_at (take w s @ u) 0 = byte_at s 0"
        using 3(1) t(2) by (intro byte_at_take) auto
      have "str_item (take w s @ u) = Some (take w s, w)"
        unfolding str_item_def b using t 3 by (simp add: rune_text_def)
      moreover have "hd (take w s @ u) \<noteq> chr 34"
      proof
        assume "hd (take w s @ u) = chr 34"
        moreover have "hd (take w s @ u) = hd s" using assms 3(1) by (cases s; cases w) auto
        ultimately have "byte_at s 0 = 34" using assms by (cases s) auto
        with t(3) show False by simp
      qed
      ultimately show ?thesis
        using 3 big d assms t(2) by (auto simp: escape_rune_def rune_text_def)
    qed
  qed
qed

lemma parse_str_escape: "parse_str (escape s @ chr 34 # rest) = Some (utf8_fix s, rest)"
proof (induction s rule: utf8_fix.induct)
  case (1 s)
  show ?case
  proof (cases "s = []")
    case True
    then show ?thesis by (simp add: parse_str.simps escape.simps [of "[]"] utf8_fix.simps [of "[]"])
  next
    case False
    let ?r = "escape (drop (snd (decode_rune s)) s) @ chr 34 # rest"
    note i = escape_rune_item [OF False, of ?r]
    have "escape s @ chr 34 # rest = escape_rune s @ ?r"
      using False by (simp add: escape.simps [of s])
    moreover have "parse_str (escape_rune s @ ?r) = Some (utf8_fix s, rest)"
      using i "1.IH" [OF False] False
      by (subst parse_str.simps) (auto simp: utf8_fix.simps [of s])
    ultimately show ?thesis by simp
  qed
qed

lemma utf8_fix_ascii: "list_all (\<lambda>c. (of_char c :: nat) < 128) s \<Longrightarrow> utf8_fix s = s"
proof (induction s)
  case (Cons c s)
  then have "decode_rune (c # s) = (of_char c, 1)" by (intro decode_rune_ascii [THEN trans]) simp_all
  with Cons show ?case by (simp add: utf8_fix.simps [of "c # s"] rune_text_def)
qed (simp add: utf8_fix.simps)

text \<open>Flat objects of strings, integers, booleans and null.\<close>

fun json_flat :: "json \<Rightarrow> bool" where
  "json_flat (JNum n) \<longleftrightarrow> (\<exists>i. n = itoa i)"
| "json_flat (JArr _) \<longleftrightarrow> False"
| "json_flat (JObj _) \<longleftrightarrow> False"
| "json_flat _ \<longleftrightarrow> True"

fun json_fix :: "json \<Rightarrow> json" where
  "json_fix (JStr s) = JStr (utf8_fix s)"
| "json_fix v = v"

lemma nat_dec_head: "0 < n \<Longrightarrow> hd (nat_dec n) \<noteq> CHR ''0''"
proof (induction n rule: nat_dec.induct)
  case (1 n)
  show ?case
  proof (cases "n < 10")
    case True
    then have "(of_char (digit_char n) :: nat) = 48 + n" by simp
    with 1 True show ?thesis
      by (subst nat_dec.simps) (auto dest: arg_cong [where f = "of_char :: char \<Rightarrow> nat"])
  next
    case False
    with 1 show ?thesis by (subst nat_dec.simps) (simp add: hd_append)
  qed
qed

lemma scan_int_nat_dec:
  assumes "\<not> is_digit c"
  shows "scan_int (nat_dec n @ c # rest) = Some (nat_dec n, c # rest)"
proof (cases "n = 0")
  case True
  have "nat_dec 0 = ''0''" by (simp add: nat_dec.simps digit_char_def, rule sym, simp add: char_eq_char_of)
  then show ?thesis using True by (simp add: scan_int_def)
next
  case False
  obtain h t where h: "nat_dec n = h # t" by (cases "nat_dec n") auto
  have d: "list_all is_digit (nat_dec n)" by (rule nat_dec_digits)
  have "takeWhile is_digit (nat_dec n @ c # rest) = nat_dec n" "dropWhile is_digit (nat_dec n @ c # rest) = c # rest"
    using d assms by (auto simp: list_all_iff takeWhile_append dropWhile_append)
  with nat_dec_head [of n] h d False show ?thesis by (simp add: scan_int_def)
qed

definition json_stop :: "char \<Rightarrow> bool" where
  "json_stop c \<longleftrightarrow> c = CHR '','' \<or> c = CHR ''}'' \<or> c = CHR '']''"

lemma json_stop_facts:
  "json_stop c \<Longrightarrow> \<not> is_digit c \<and> c \<noteq> CHR ''.'' \<and> c \<noteq> CHR ''e'' \<and> c \<noteq> CHR ''E'' \<and> \<not> is_ws c"
  by (auto simp: json_stop_def is_digit_def is_ws_def char_eq_chr)

lemma scan_num_itoa:
  assumes "json_stop c"
  shows "scan_num (itoa i @ c # rest) = Some (itoa i, c # rest)"
proof -
  note st = json_stop_facts [OF assms]
  have m: "nat_dec k \<noteq> [] \<and> hd (nat_dec k) \<noteq> CHR ''-''" for k
    using is_digit_sign [OF hd_nat_dec_digit] by simp
  show ?thesis
    using st m scan_int_nat_dec [of c] by (simp add: scan_num_def itoa_def scan_frac_def scan_exp_def)
qed

lemma is_digit_not: "is_digit c \<or> c = CHR ''-'' \<Longrightarrow> c \<noteq> chr 34 \<and> c \<noteq> CHR ''{'' \<and> c \<noteq> CHR ''['' \<and> c \<noteq> CHR ''t''
    \<and> c \<noteq> CHR ''f'' \<and> c \<noteq> CHR ''n'' \<and> \<not> is_ws c"
  by (auto simp: is_digit_def is_ws_def char_eq_chr)

lemma parse_value_flat:
  assumes "json_flat v" "json_stop c" "0 < n"
  shows "parse_value n d (json_print v @ c # rest) = Some (json_fix v, c # rest)"
proof -
  obtain k where n: "n = Suc k" using assms(3) by (cases n) auto
  show ?thesis
  proof (cases v)
    case JNull
    then show ?thesis by (simp add: n is_ws_def chr_codes has_prefix_def)
  next
    case (JBool b)
    then show ?thesis by (simp add: n is_ws_def chr_codes has_prefix_def)
  next
    case (JStr s)
    then show ?thesis
      using parse_str_escape [of s "c # rest"] by (simp add: n quoted_def is_ws_def chr_codes)
  next
    case (JNum x)
    then obtain i where x: "x = itoa i" using assms(1) by auto
    obtain h t where h: "itoa i = h # t" by (cases "itoa i") auto
    have "is_digit h \<or> h = CHR ''-''"
      using h hd_nat_dec_digit [of "nat i"] by (auto simp: itoa_def split: if_splits)
    note f = is_digit_not [OF this]
    show ?thesis
      using scan_num_itoa [OF assms(2), of i rest] f h JNum x by (simp add: n has_prefix_def)
  qed (use assms in auto)
qed

abbreviation member_text :: "string \<times> json \<Rightarrow> string" where
  "member_text \<equiv> \<lambda>(k, v). quoted k @ CHR '':'' # json_print v"

abbreviation fix_member :: "string \<times> json \<Rightarrow> string \<times> json" where
  "fix_member \<equiv> \<lambda>(k, v). (utf8_fix k, json_fix v)"

lemma parse_members_flat:
  "kvs \<noteq> [] \<Longrightarrow> list_all (\<lambda>(k, v). json_flat v) kvs \<Longrightarrow> length kvs < n \<Longrightarrow>
     parse_members n d (commas (map member_text kvs) @ CHR ''}'' # rest) = Some (map fix_member kvs, rest)"
proof (induction kvs arbitrary: n)
  case (Cons kv kvs)
  obtain k v where kv: "kv = (k, v)" by (cases kv)
  obtain m where n: "n = Suc m" using Cons.prems by (cases n) auto
  have ws: "\<not> is_ws (chr 34)" "\<not> is_ws (CHR '':'')" "\<not> is_ws (CHR '','')" "\<not> is_ws (CHR ''}'')"
    by (simp_all add: is_ws_def chr_codes)
  have js: "json_stop (CHR '','')" "json_stop (CHR ''}'')" by (simp_all add: json_stop_def)
  have fl: "json_flat v" "0 < m" using Cons.prems kv n by auto
  note pv = parse_value_flat [OF fl(1) js(1) fl(2)] parse_value_flat [OF fl(1) js(2) fl(2)]
  show ?case
  proof (cases "kvs = []")
    case True
    then show ?thesis
      using parse_str_escape [of k] pv ws by (simp add: n kv quoted_def)
  next
    case False
    then obtain p ps where p: "map member_text kvs = p # ps" by (cases kvs) auto
    with Cons.IH [OF False, of m] Cons.prems n
    have "parse_members m d (commas (p # ps) @ CHR ''}'' # rest) = Some (map fix_member kvs, rest)" by simp
    then show ?thesis
      using parse_str_escape [of k] pv ws p by (simp add: n kv quoted_def)
  qed
qed simp

lemma length_commas: "length xs \<le> length (commas xs) + 1"
  by (induction xs rule: commas.induct) auto

lemma json_parse_print_flat:
  assumes "list_all (\<lambda>(k, v). json_flat v) kvs"
  shows "json_parse (json_print (JObj kvs)) = Some (JObj (map fix_member kvs))"
proof (cases "kvs = []")
  case True
  have p: "parse_value (2 * length ''{}'' + 2) 0 ''{}'' = Some (JObj [], [])"
  proof -
    have six: "2 * length ''{}'' + 2 = Suc 5" by simp
    have "parse_value (Suc n) 0 ''{}'' = Some (JObj [], [])" for n by (simp add: is_ws_def chr_codes)
    then show ?thesis unfolding six .
  qed
  have t: "json_print (JObj []) = ''{}''" by simp
  have "json_parse ''{}'' = Some (JObj [])" unfolding json_parse_def p by simp
  with True t show ?thesis by simp
next
  case False
  let ?t = "commas (map member_text kvs) @ ''}''"
  have l: "length kvs < 2 * length (CHR ''{'' # ?t) + 1"
    using length_commas [of "map member_text kvs"] by simp
  have m: "parse_members (2 * length (CHR ''{'' # ?t) + 1) 1 ?t = Some (map fix_member kvs, [])"
    using parse_members_flat [OF False assms l, of 1 "[]"] by simp
  obtain k v r where kvs: "kvs = (k, v) # r" using False by (cases kvs) auto
  have hd: "hd (skip_ws ?t) = chr 34" "skip_ws ?t \<noteq> []" if "\<not> is_ws (chr 34)"
    using that kvs by (cases r; simp add: quoted_def)+
  have ws: "\<not> is_ws (chr 34)" "\<not> is_ws (CHR ''{'')" by (simp_all add: is_ws_def chr_codes)
  have ne: "chr 34 \<noteq> CHR ''}''" "CHR ''{'' \<noteq> chr 34" by (simp_all add: chr_codes)
  have "parse_value (2 * length (CHR ''{'' # ?t) + 2) 0 (CHR ''{'' # ?t) = Some (JObj (map fix_member kvs), [])"
    using m hd ws ne by simp
  then show ?thesis by (simp add: json_parse_def)
qed

text \<open>The program's field names are lower-case words, which fold to themselves.\<close>

lemma json_fold_lower [simp]:
  "list_all (\<lambda>c. 95 \<le> (of_char c :: nat) \<and> (of_char c :: nat) \<le> 122) k \<Longrightarrow> json_fold k = k"
proof (induction k)
  case (Cons c k)
  have "c \<noteq> char_of (197::nat)" "c \<noteq> char_of (226::nat)" using Cons.prems by (auto simp: char_eq_char_of)
  moreover have "lower_char c = c" using Cons.prems by (auto simp: lower_char_def)
  ultimately show ?case using Cons by (simp add: json_fold.simps)
qed (simp add: json_fold.simps)

lemma json_members_print:
  "list_all (\<lambda>(k, v). json_flat v) kvs \<Longrightarrow> json_members (json_print (JObj kvs)) = Some (map fix_member kvs)"
  unfolding json_members_def by (subst json_parse_print_flat) simp_all

end
