(* ===== verification/Broker.thy ===== *)
theory Broker
  imports Frame Json "HOL-Library.Sublist"
begin

text \<open>
  The reverse-tunnel broker, \<open>internal/reversetunnel/broker.go\<close>. Channels are shared objects: the
  broker's map, a provider's read loop and every attaching consumer hold pointers to them, so they
  live in a store (\<open>bw_chan\<close>). Goroutines are tasks, each at one of the points where it can be
  interrupted: between two critical sections, before a read, before a write that may fail. A step
  runs one task to its next such point; what the network does is chosen by the step.

  The package \<open>github.com/google/uuid\<close> is not part of the repository: \<open>up\<close> stands for
  \<open>uuid.Parse\<close>, \<open>us\<close> for \<open>UUID.String\<close>, and the results of \<open>uuid.New\<close> are arguments.
\<close>

section \<open>Messages\<close>

record Offer =
  LocalHost :: string
  LocalPort :: int
  ChannelID :: string

record attachedMsg =
  am_Cmd :: string
  am_SID :: string
  am_OK :: bool
  am_Error :: string

definition decode_attached :: "string \<Rightarrow> attachedMsg option" where
  "decode_attached data =
     (case json_members data of
        None \<Rightarrow> None
      | Some kvs \<Rightarrow>
          (case (str_field ''cmd'' kvs [], str_field ''sid'' kvs [], bool_field ''ok'' kvs False,
                 str_field ''error'' kvs []) of
             (Some c, Some s, Some b, Some e) \<Rightarrow>
               Some \<lparr>am_Cmd = c, am_SID = s, am_OK = b, am_Error = e\<rparr>
           | _ \<Rightarrow> None))"

definition decode_offer :: "string \<Rightarrow> Offer option" where
  "decode_offer data =
     (case json_members data of
        None \<Rightarrow> None
      | Some kvs \<Rightarrow>
          (case (str_field ''local_host'' kvs [], int_field ''local_port'' kvs 0,
                 str_field ''channel_id'' kvs []) of
             (Some h, Some p, Some c) \<Rightarrow> Some \<lparr>LocalHost = h, LocalPort = p, ChannelID = c\<rparr>
           | _ \<Rightarrow> None))"

definition attach_msg :: "(uuid \<Rightarrow> string) \<Rightarrow> uuid \<Rightarrow> string" where
  "attach_msg us sid = json_print (JObj [(''cmd'', JStr ''attach''), (''sid'', JStr (us sid))])"

definition detach_msg :: "(uuid \<Rightarrow> string) \<Rightarrow> uuid \<Rightarrow> string" where
  "detach_msg us sid = json_print (JObj [(''cmd'', JStr ''detach''), (''sid'', JStr (us sid))])"

text \<open>The handler's confirmation to a provider, written before its read loop is started.\<close>

definition provider_ack :: "(uuid \<Rightarrow> string) \<Rightarrow> uuid \<Rightarrow> string" where
  "provider_ack us i = json_print (JObj [(''channel_id'', JStr (us i)), (''ok'', JBool True)])"

datatype wire = Txt string | Bin "byte list"

section \<open>State\<close>

record chan_obj =
  co_id :: uuid
  agent :: nat
  offer :: Offer
  sessions :: "(uuid, nat) gomap"
  ackWait :: "(uuid, nat) gomap"

text \<open>A goroutine, with the local variables it holds: the channel \<open>ch\<close>, the session id, the
  consumer's connection \<open>c\<close>, and its answer box \<open>k\<close> (\<open>ackCh\<close>).\<close>

datatype task =
    Registered nat
  | Loop nat
  | LoopWrite nat uuid nat "byte list"
  | Remove1 nat
  | Remove2 nat
  | Remove3 nat
  | AttachStart nat uuid nat
  | AttachWrite nat uuid nat nat
  | AttachWait nat uuid nat nat
  | AttachInsert nat uuid nat
  | Pump nat uuid nat

datatype traffic =
    ToAgent nat wire
  | FromAgent nat uuid "byte list"
  | ToConsumer nat uuid nat "byte list"

text \<open>
  \<open>bw_mail\<close> are the answer boxes, buffered Go channels of capacity one: \<open>Some None\<close> is the result nil,
  \<open>Some (Some e)\<close> the error \<open>e\<close>. The last three fields are history that the code does not keep: the
  frames and messages so far, the channel and consumer each session id was made for, and the channels
  whose removal has finished.
\<close>

record broker_world =
  bw_chan :: "nat \<Rightarrow> chan_obj"
  bw_next :: nat
  bw_channels :: "(uuid, nat) gomap"
  bw_mail :: "nat \<Rightarrow> string option option"
  bw_nmail :: nat
  bw_closed :: "nat set"
  bw_tasks :: "task multiset"
  bw_log :: "traffic list"
  bw_owner :: "uuid \<Rightarrow> (nat \<times> nat) option"
  bw_gone :: "nat set"

definition no_chan :: chan_obj where
  "no_chan = \<lparr>co_id = uuid_nil, agent = 0, offer = \<lparr>LocalHost = [], LocalPort = 0, ChannelID = []\<rparr>,
     sessions = [], ackWait = []\<rparr>"

definition NewBroker :: broker_world where
  "NewBroker = \<lparr>bw_chan = (\<lambda>_. no_chan), bw_next = 0, bw_channels = [], bw_mail = (\<lambda>_. None), bw_nmail = 0,
     bw_closed = {}, bw_tasks = {#}, bw_log = [], bw_owner = (\<lambda>_. None), bw_gone = {}\<rparr>"

definition upd_chan :: "nat \<Rightarrow> (chan_obj \<Rightarrow> chan_obj) \<Rightarrow> broker_world \<Rightarrow> broker_world" where
  "upd_chan ch f w = w\<lparr>bw_chan := (bw_chan w)(ch := f (bw_chan w ch))\<rparr>"

definition ws_close :: "nat \<Rightarrow> broker_world \<Rightarrow> broker_world" where
  "ws_close c w = w\<lparr>bw_closed := insert c (bw_closed w)\<rparr>"

definition log_traffic :: "traffic \<Rightarrow> broker_world \<Rightarrow> broker_world" where
  "log_traffic t w = w\<lparr>bw_log := bw_log w @ [t]\<rparr>"

section \<open>Registration and removal\<close>

datatype reg_error = BadPort | BadChannelID | AlreadyActive

definition RegisterProvider ::
  "(string \<Rightarrow> uuid option) \<Rightarrow> uuid \<Rightarrow> nat \<Rightarrow> Offer \<Rightarrow> broker_world \<Rightarrow> (reg_error + uuid \<times> nat) \<times> broker_world" where
  "RegisterProvider up fresh conn off w =
     (if LocalPort off < 1 \<or> LocalPort off > 65535 then (Inl BadPort, w)
      else
        let off = (if LocalHost off = [] then off\<lparr>LocalHost := ''127.0.0.1''\<rparr> else off);
            s = trim_space (ChannelID off)
        in (case (if s \<noteq> [] then up s else Some fresh) of
              None \<Rightarrow> (Inl BadChannelID, w)
            | Some chID \<Rightarrow>
                if mget (bw_channels w) chID \<noteq> None then (Inl AlreadyActive, w)
                else
                  let ch = bw_next w;
                      obj = \<lparr>co_id = chID, agent = conn, offer = off, sessions = [], ackWait = []\<rparr>
                  in (Inr (chID, ch),
                      w\<lparr>bw_chan := (bw_chan w)(ch := obj), bw_next := ch + 1,
                        bw_channels := mput chID ch (bw_channels w)\<rparr>)))"

definition AbortProviderRegistration :: "uuid \<Rightarrow> broker_world \<Rightarrow> broker_world" where
  "AbortProviderRegistration i w =
     (case mget (bw_channels w) i of
        None \<Rightarrow> w
      | Some ch \<Rightarrow> ws_close (agent (bw_chan w ch)) (w\<lparr>bw_channels := mdel i (bw_channels w)\<rparr>))"

text \<open>The three critical sections of \<open>removeChannel\<close>.\<close>

definition remove_take :: "uuid \<Rightarrow> broker_world \<Rightarrow> nat option \<times> broker_world" where
  "remove_take i w = (mget (bw_channels w) i, w\<lparr>bw_channels := mdel i (bw_channels w)\<rparr>)"

definition remove_sessions :: "nat \<Rightarrow> broker_world \<Rightarrow> broker_world" where
  "remove_sessions ch w =
     (upd_chan ch (\<lambda>c. c\<lparr>sessions := []\<rparr>) w)
       \<lparr>bw_closed := bw_closed w \<union> snd ` set (sessions (bw_chan w ch))\<rparr>"

text \<open>A non-blocking send: an answer box that is full keeps its first answer.\<close>

definition post :: "nat \<Rightarrow> string option \<Rightarrow> (nat \<Rightarrow> string option option) \<Rightarrow> nat \<Rightarrow> string option option" where
  "post k r mail = (if mail k = None then mail(k := Some r) else mail)"

definition remove_waiters :: "nat \<Rightarrow> broker_world \<Rightarrow> broker_world" where
  "remove_waiters ch w =
     (upd_chan ch (\<lambda>c. c\<lparr>ackWait := []\<rparr>) w)
       \<lparr>bw_mail := fold (\<lambda>k. post k (Some ''provider disconnected'')) (mvals (ackWait (bw_chan w ch))) (bw_mail w)\<rparr>"

section \<open>The provider's read loop\<close>

definition agent_text :: "(string \<Rightarrow> uuid option) \<Rightarrow> nat \<Rightarrow> string \<Rightarrow> broker_world \<Rightarrow> broker_world" where
  "agent_text up ch data w =
     (case decode_attached data of
        None \<Rightarrow> w
      | Some m \<Rightarrow>
          if am_Cmd m \<noteq> ''attached'' then w
          else (case up (am_SID m) of
                  None \<Rightarrow> w
                | Some sid \<Rightarrow>
                    (let w1 = upd_chan ch (\<lambda>c. c\<lparr>ackWait := mdel sid (ackWait c)\<rparr>) w
                     in (case mget (ackWait (bw_chan w ch)) sid of
                           None \<Rightarrow> w1
                         | Some wc \<Rightarrow>
                             let resErr = (if am_OK m then None
                                           else Some (if am_Error m \<noteq> [] then am_Error m else ''attach failed''))
                             in w1\<lparr>bw_mail := post wc resErr (bw_mail w1)\<rparr>))))"

text \<open>A binary message: the session, its consumer and the payload, or \<open>None\<close> if it is dropped.\<close>

definition agent_binary :: "nat \<Rightarrow> byte list \<Rightarrow> broker_world \<Rightarrow> (uuid \<times> nat \<times> byte list) option" where
  "agent_binary ch data w =
     (case ParsePrefixedMessage data of
        None \<Rightarrow> None
      | Some (sid, body) \<Rightarrow>
          (case mget (sessions (bw_chan w ch)) sid of
             None \<Rightarrow> None
           | Some cw \<Rightarrow> Some (sid, cw, body)))"

text \<open>\<open>ok\<close>: the write of the detach message succeeds, which it cannot on a closed connection.\<close>

definition closeSession :: "(uuid \<Rightarrow> string) \<Rightarrow> nat \<Rightarrow> uuid \<Rightarrow> bool \<Rightarrow> broker_world \<Rightarrow> broker_world" where
  "closeSession us ch sid ok w =
     (let w1 = upd_chan ch (\<lambda>c. c\<lparr>sessions := mdel sid (sessions c)\<rparr>) w;
          w2 = (case mget (sessions (bw_chan w ch)) sid of None \<Rightarrow> w1 | Some cw \<Rightarrow> ws_close cw w1)
      in if ok \<and> agent (bw_chan w2 ch) \<notin> bw_closed w2
         then log_traffic (ToAgent ch (Txt (detach_msg us sid))) w2 else w2)"

section \<open>Consumers\<close>

definition ChannelActive :: "uuid \<Rightarrow> broker_world \<Rightarrow> bool" where
  "ChannelActive chID w \<longleftrightarrow> mget (bw_channels w) chID \<noteq> None"

definition ChannelCount :: "broker_world \<Rightarrow> nat" where
  "ChannelCount w = length (bw_channels w)"

text \<open>\<open>AttachConsumer\<close> in its pieces: the lookup, the registration for the answer, the attach message,
  giving up, and the insertion of the session.\<close>

definition attach_lookup :: "uuid \<Rightarrow> nat \<Rightarrow> broker_world \<Rightarrow> nat option \<times> broker_world" where
  "attach_lookup chID cons w =
     (case mget (bw_channels w) chID of
        None \<Rightarrow> (None, ws_close cons w)
      | Some ch \<Rightarrow> (Some ch, w))"

definition attach_register :: "nat \<Rightarrow> uuid \<Rightarrow> broker_world \<Rightarrow> nat \<times> broker_world" where
  "attach_register ch sid w =
     (let k = bw_nmail w
      in (k, (upd_chan ch (\<lambda>c. c\<lparr>ackWait := mput sid k (ackWait c)\<rparr>) w)
               \<lparr>bw_nmail := k + 1, bw_mail := (bw_mail w)(k := None)\<rparr>))"

definition attach_send :: "(uuid \<Rightarrow> string) \<Rightarrow> nat \<Rightarrow> uuid \<Rightarrow> broker_world \<Rightarrow> broker_world" where
  "attach_send us ch sid w = log_traffic (ToAgent ch (Txt (attach_msg us sid))) w"

definition attach_fail :: "nat \<Rightarrow> uuid \<Rightarrow> nat \<Rightarrow> broker_world \<Rightarrow> broker_world" where
  "attach_fail ch sid cons w = ws_close cons (upd_chan ch (\<lambda>c. c\<lparr>ackWait := mdel sid (ackWait c)\<rparr>) w)"

definition attach_insert :: "nat \<Rightarrow> uuid \<Rightarrow> nat \<Rightarrow> broker_world \<Rightarrow> broker_world" where
  "attach_insert ch sid cons w = upd_chan ch (\<lambda>c. c\<lparr>sessions := mput sid cons (sessions c)\<rparr>) w"

definition pump_forward :: "nat \<Rightarrow> uuid \<Rightarrow> byte list \<Rightarrow> broker_world \<Rightarrow> broker_world" where
  "pump_forward ch sid payload w = log_traffic (ToAgent ch (Bin (PrependSessionID sid payload))) w"

section \<open>Steps\<close>

abbreviation set_tasks :: "task multiset \<Rightarrow> broker_world \<Rightarrow> broker_world" where
  "set_tasks T w \<equiv> w\<lparr>bw_tasks := T\<rparr>"

text \<open>
  One step of the broker. A write succeeds only on a connection the broker has not closed. The
  identifiers made by \<open>uuid.New\<close> for sessions are new (\<open>attach\<close>'s second premise).
\<close>

inductive broker_step :: "(string \<Rightarrow> uuid option) \<Rightarrow> (uuid \<Rightarrow> string) \<Rightarrow> broker_world \<Rightarrow> broker_world \<Rightarrow> bool"
  for up :: "string \<Rightarrow> uuid option" and us :: "uuid \<Rightarrow> string" where
  register: "RegisterProvider up fresh conn off w = (Inr (i, ch), w') \<Longrightarrow>
    broker_step up us w (set_tasks (add_mset (Registered ch) (bw_tasks w)) w')"
| register_refused: "RegisterProvider up fresh conn off w = (Inl e, w') \<Longrightarrow>
    broker_step up us w (ws_close conn w')"
| ack_sent: "bw_tasks w = add_mset (Registered ch) T \<Longrightarrow> agent (bw_chan w ch) \<notin> bw_closed w \<Longrightarrow>
    broker_step up us w
      (set_tasks (add_mset (Loop ch) T) (log_traffic (ToAgent ch (Txt (provider_ack us (co_id (bw_chan w ch))))) w))"
| ack_failed: "bw_tasks w = add_mset (Registered ch) T \<Longrightarrow>
    broker_step up us w (set_tasks T (AbortProviderRegistration (co_id (bw_chan w ch)) w))"
| loop_text: "bw_tasks w = add_mset (Loop ch) T \<Longrightarrow>
    broker_step up us w (agent_text up ch data w)"
| loop_dropped: "bw_tasks w = add_mset (Loop ch) T \<Longrightarrow> agent_binary ch data w = None \<Longrightarrow>
    ParsePrefixedMessage data = Some (sid, body) \<Longrightarrow>
    broker_step up us w (log_traffic (FromAgent ch sid body) w)"
| loop_binary: "bw_tasks w = add_mset (Loop ch) T \<Longrightarrow> agent_binary ch data w = Some (sid, cw, body) \<Longrightarrow>
    broker_step up us w (set_tasks (add_mset (LoopWrite ch sid cw body) T) (log_traffic (FromAgent ch sid body) w))"
| loop_written: "bw_tasks w = add_mset (LoopWrite ch sid cw body) T \<Longrightarrow> cw \<notin> bw_closed w \<Longrightarrow>
    broker_step up us w (set_tasks (add_mset (Loop ch) T) (log_traffic (ToConsumer ch sid cw body) w))"
| loop_write_failed: "bw_tasks w = add_mset (LoopWrite ch sid cw body) T \<Longrightarrow>
    broker_step up us w (set_tasks (add_mset (Loop ch) T) (closeSession us ch sid ok w))"
| loop_error: "bw_tasks w = add_mset (Loop ch) T \<Longrightarrow>
    broker_step up us w (set_tasks (add_mset (Remove1 ch) T) (ws_close (agent (bw_chan w ch)) w))"
| remove_found: "bw_tasks w = add_mset (Remove1 ch) T \<Longrightarrow>
    remove_take (co_id (bw_chan w ch)) w = (Some ch', w') \<Longrightarrow>
    broker_step up us w (set_tasks (add_mset (Remove2 ch') T) w')"
| remove_not_found: "bw_tasks w = add_mset (Remove1 ch) T \<Longrightarrow>
    remove_take (co_id (bw_chan w ch)) w = (None, w') \<Longrightarrow> broker_step up us w (set_tasks T w')"
| remove_closing: "bw_tasks w = add_mset (Remove2 ch) T \<Longrightarrow>
    broker_step up us w (set_tasks (add_mset (Remove3 ch) T) (remove_sessions ch w))"
| remove_waking: "bw_tasks w = add_mset (Remove3 ch) T \<Longrightarrow>
    broker_step up us w ((set_tasks T (remove_waiters ch w))\<lparr>bw_gone := insert ch (bw_gone w)\<rparr>)"
| attach_none: "attach_lookup chID cons w = (None, w') \<Longrightarrow> broker_step up us w w'"
| attach: "attach_lookup chID cons w = (Some ch, w') \<Longrightarrow> bw_owner w sid = None \<Longrightarrow>
    broker_step up us w ((set_tasks (add_mset (AttachStart ch sid cons) (bw_tasks w)) w')
      \<lparr>bw_owner := (bw_owner w)(sid \<mapsto> (ch, cons))\<rparr>)"
| attach_registered: "bw_tasks w = add_mset (AttachStart ch sid cons) T \<Longrightarrow> attach_register ch sid w = (k, w') \<Longrightarrow>
    broker_step up us w (set_tasks (add_mset (AttachWrite ch sid cons k) T) w')"
| attach_sent: "bw_tasks w = add_mset (AttachWrite ch sid cons k) T \<Longrightarrow> agent (bw_chan w ch) \<notin> bw_closed w \<Longrightarrow>
    broker_step up us w (set_tasks (add_mset (AttachWait ch sid cons k) T) (attach_send us ch sid w))"
| attach_send_failed: "bw_tasks w = add_mset (AttachWrite ch sid cons k) T \<Longrightarrow>
    broker_step up us w (set_tasks T (attach_fail ch sid cons w))"
| attach_accepted: "bw_tasks w = add_mset (AttachWait ch sid cons k) T \<Longrightarrow> bw_mail w k = Some None \<Longrightarrow>
    broker_step up us w (set_tasks (add_mset (AttachInsert ch sid cons) T) (w\<lparr>bw_mail := (bw_mail w)(k := None)\<rparr>))"
| attach_refused: "bw_tasks w = add_mset (AttachWait ch sid cons k) T \<Longrightarrow> bw_mail w k = Some (Some e) \<Longrightarrow>
    broker_step up us w (set_tasks T (attach_fail ch sid cons (w\<lparr>bw_mail := (bw_mail w)(k := None)\<rparr>)))"
| attach_timeout: "bw_tasks w = add_mset (AttachWait ch sid cons k) T \<Longrightarrow>
    broker_step up us w (set_tasks T (attach_fail ch sid cons w))"
| attach_inserted: "bw_tasks w = add_mset (AttachInsert ch sid cons) T \<Longrightarrow>
    broker_step up us w (set_tasks (add_mset (Pump ch sid cons) T) (attach_insert ch sid cons w))"
| pump_sent: "bw_tasks w = add_mset (Pump ch sid cons) T \<Longrightarrow> agent (bw_chan w ch) \<notin> bw_closed w \<Longrightarrow>
    broker_step up us w (pump_forward ch sid payload w)"
| pump_ended: "bw_tasks w = add_mset (Pump ch sid cons) T \<Longrightarrow>
    broker_step up us w (set_tasks T (closeSession us ch sid ok w))"

end
