(* ===== verification/BrokerInv.thy ===== *)
theory BrokerInv
  imports Broker
begin

text \<open>
  Invariants of the broker's step relation, one group each: the map of channels against the tasks
  that serve them (\<open>map_inv\<close>), the owners of session ids (\<open>owner_inv\<close>), waiting consumers and
  their answer boxes (\<open>wait_inv\<close>), sessions and their goroutines (\<open>early_inv\<close>, \<open>pump_inv\<close>). Each group
  has a relation between states that most operations satisfy, proved of them at once, and a step lemma.
\<close>

section \<open>What the operations leave alone\<close>

lemma upd_chan_sel [simp]:
  "bw_channels (upd_chan ch f w) = bw_channels w" "bw_next (upd_chan ch f w) = bw_next w"
  "bw_mail (upd_chan ch f w) = bw_mail w" "bw_nmail (upd_chan ch f w) = bw_nmail w"
  "bw_closed (upd_chan ch f w) = bw_closed w" "bw_tasks (upd_chan ch f w) = bw_tasks w"
  "bw_log (upd_chan ch f w) = bw_log w" "bw_owner (upd_chan ch f w) = bw_owner w"
  "bw_gone (upd_chan ch f w) = bw_gone w"
  "bw_chan (upd_chan ch f w) x = (if x = ch then f (bw_chan w ch) else bw_chan w x)"
  by (simp_all add: upd_chan_def)

lemma ws_close_sel [simp]:
  "bw_channels (ws_close c w) = bw_channels w" "bw_next (ws_close c w) = bw_next w"
  "bw_mail (ws_close c w) = bw_mail w" "bw_nmail (ws_close c w) = bw_nmail w"
  "bw_closed (ws_close c w) = insert c (bw_closed w)" "bw_tasks (ws_close c w) = bw_tasks w"
  "bw_log (ws_close c w) = bw_log w" "bw_owner (ws_close c w) = bw_owner w"
  "bw_gone (ws_close c w) = bw_gone w" "bw_chan (ws_close c w) = bw_chan w"
  by (simp_all add: ws_close_def)

lemma log_traffic_sel [simp]:
  "bw_channels (log_traffic t w) = bw_channels w" "bw_next (log_traffic t w) = bw_next w"
  "bw_mail (log_traffic t w) = bw_mail w" "bw_nmail (log_traffic t w) = bw_nmail w"
  "bw_closed (log_traffic t w) = bw_closed w" "bw_tasks (log_traffic t w) = bw_tasks w"
  "bw_log (log_traffic t w) = bw_log w @ [t]" "bw_owner (log_traffic t w) = bw_owner w"
  "bw_gone (log_traffic t w) = bw_gone w" "bw_chan (log_traffic t w) = bw_chan w"
  by (simp_all add: log_traffic_def)

lemma register_ok:
  "RegisterProvider up fresh conn off w = (Inr (i, ch), w') \<Longrightarrow>
     ch = bw_next w \<and> mget (bw_channels w) i = None
     \<and> (\<exists>off'. w' = w\<lparr>bw_chan := (bw_chan w)(ch := \<lparr>co_id = i, agent = conn, offer = off', sessions = [], ackWait = []\<rparr>),
           bw_next := ch + 1, bw_channels := mput i ch (bw_channels w)\<rparr>)"
  by (auto simp: RegisterProvider_def Let_def split: if_splits option.splits)

lemma register_error: "RegisterProvider up fresh conn off w = (Inl e, w') \<Longrightarrow> w' = w"
  by (auto simp: RegisterProvider_def Let_def split: if_splits option.splits)

text \<open>The fields an operation on one channel object, on the connections, on the answer boxes and on the
  history can change; everything else about the registered channels stays.\<close>

definition same_channels :: "broker_world \<Rightarrow> broker_world \<Rightarrow> bool" where
  "same_channels w w' \<longleftrightarrow> bw_channels w' = bw_channels w \<and> bw_next w' = bw_next w
     \<and> (\<forall>x. co_id (bw_chan w' x) = co_id (bw_chan w x))"

lemma same_channels_ops [simp]:
  "same_channels w w" "same_channels w (ws_close c w)" "same_channels w (log_traffic t w)"
  "same_channels w (agent_text up ch data w)" "same_channels w (closeSession us ch sid ok w)"
  "same_channels w (remove_sessions ch w)" "same_channels w (remove_waiters ch w)"
  "same_channels w (attach_send us ch sid w)" "same_channels w (attach_fail ch sid cons w)"
  "same_channels w (attach_insert ch sid cons w)" "same_channels w (pump_forward ch sid payload w)"
  "attach_register ch sid w = (k, w') \<Longrightarrow> same_channels w w'"
  "attach_lookup i cons w = (x, w') \<Longrightarrow> same_channels w w'"
  by (auto simp: same_channels_def agent_text_def closeSession_def remove_sessions_def remove_waiters_def
      attach_send_def attach_fail_def attach_insert_def pump_forward_def attach_register_def attach_lookup_def
      Let_def split: option.splits)

lemma same_channels_mail [simp]: "same_channels w (attach_fail ch sid cons (w\<lparr>bw_mail := m\<rparr>))"
  by (simp add: same_channels_def attach_fail_def)

lemma tasks_ops [simp]:
  "bw_tasks (agent_text up ch data w) = bw_tasks w" "bw_tasks (closeSession us ch sid ok w) = bw_tasks w"
  "bw_tasks (pump_forward ch sid payload w) = bw_tasks w" "bw_tasks (attach_fail ch sid cons w) = bw_tasks w"
  "attach_lookup i cons w = (x, w') \<Longrightarrow> bw_tasks w' = bw_tasks w"
  by (auto simp: agent_text_def closeSession_def pump_forward_def attach_fail_def attach_lookup_def Let_def
      split: option.splits)

section \<open>The map holds exactly the channels being served\<close>

fun serves :: "task \<Rightarrow> nat multiset" where
  "serves (Registered ch) = {#ch#}"
| "serves (Loop ch) = {#ch#}"
| "serves (LoopWrite ch _ _ _) = {#ch#}"
| "serves (Remove1 ch) = {#ch#}"
| "serves _ = {#}"

definition served :: "task multiset \<Rightarrow> nat multiset" where
  "served T = \<Sum>\<^sub># (image_mset serves T)"

lemma served_simps [simp]: "served {#} = {#}" "served (add_mset t T) = serves t + served T"
  by (simp_all add: served_def)

definition map_inv :: "broker_world \<Rightarrow> bool" where
  "map_inv w \<longleftrightarrow> distinct (mkeys (bw_channels w)) \<and> mset (mvals (bw_channels w)) = served (bw_tasks w)
     \<and> (\<forall>i ch. mget (bw_channels w) i = Some ch \<longrightarrow> ch < bw_next w \<and> co_id (bw_chan w ch) = i)"

lemma map_invD:
  assumes "map_inv w"
  shows "distinct (mkeys (bw_channels w))" "mset (mvals (bw_channels w)) = served (bw_tasks w)"
    "mget (bw_channels w) i = Some ch \<Longrightarrow> ch < bw_next w \<and> co_id (bw_chan w ch) = i"
  using assms unfolding map_inv_def by blast+

lemma map_inv_same:
  "map_inv w \<Longrightarrow> same_channels w w' \<Longrightarrow> served T = served (bw_tasks w) \<Longrightarrow> map_inv (set_tasks T w')"
  by (simp add: map_inv_def same_channels_def)

lemma map_inv_same_tasks:
  "map_inv w \<Longrightarrow> same_channels w w' \<Longrightarrow> bw_tasks w' = bw_tasks w \<Longrightarrow> map_inv w'"
  by (simp add: map_inv_def same_channels_def)

lemma map_inv_ghost [simp]:
  "map_inv (w\<lparr>bw_gone := g\<rparr>) = map_inv w" "map_inv (w\<lparr>bw_owner := own\<rparr>) = map_inv w"
  "map_inv (w\<lparr>bw_mail := m\<rparr>) = map_inv w" "map_inv (w\<lparr>bw_mail := m, bw_tasks := T\<rparr>) = map_inv (w\<lparr>bw_tasks := T\<rparr>)"
  by (simp_all add: map_inv_def)

text \<open>A channel that is served is registered, under its own id.\<close>

lemma served_registered:
  assumes "map_inv w" "ch \<in># served (bw_tasks w)"
  shows "mget (bw_channels w) (co_id (bw_chan w ch)) = Some ch"
proof -
  have "ch \<in># mset (mvals (bw_channels w))" using assms map_invD(2) by metis
  then obtain i where "(i, ch) \<in> set (bw_channels w)" by auto
  then have "mget (bw_channels w) i = Some ch" using mget_Some_iff [OF map_invD(1) [OF assms(1)]] by blast
  moreover from map_invD(3) [OF assms(1) this] have "co_id (bw_chan w ch) = i" by simp
  ultimately show ?thesis by simp
qed

lemma mset_mdel:
  "distinct (mkeys m) \<Longrightarrow> mget m k = Some v \<Longrightarrow> mset (mvals m) = add_mset v (mset (mvals (mdel k m)))"
proof (induction m)
  case (Cons p m)
  show ?case
  proof (cases "fst p = k")
    case True
    with Cons.prems have "mget m k = None" by (cases p) (auto simp: mget_None_iff)
    with True Cons.prems show ?thesis by (cases p) simp
  next
    case False
    with Cons show ?thesis by (cases p) (auto simp: ac_simps)
  qed
qed simp

lemma map_inv_unregister:
  assumes "map_inv w" "bw_tasks w = add_mset t T" "serves t = {#ch#}" "serves t' = {#}"
    and "bw_channels w' = mdel (co_id (bw_chan w ch)) (bw_channels w)" "bw_next w' = bw_next w"
    "\<And>x. co_id (bw_chan w' x) = co_id (bw_chan w x)"
  shows "map_inv (set_tasks T w')" "map_inv (set_tasks (add_mset t' T) w')"
proof -
  have reg: "mget (bw_channels w) (co_id (bw_chan w ch)) = Some ch"
    using assms by (intro served_registered) simp_all
  have "add_mset ch (mset (mvals (bw_channels w'))) = add_mset ch (served T)"
    using mset_mdel [OF map_invD(1) [OF assms(1)] reg] map_invD(2) [OF assms(1)] assms(2,3,5) by simp
  then show "map_inv (set_tasks T w')" "map_inv (set_tasks (add_mset t' T) w')"
    using assms map_invD(1) [OF assms(1)] map_invD(3) [OF assms(1)] by (simp_all add: map_inv_def)
qed

lemma map_inv_step: "broker_step up us w w' \<Longrightarrow> map_inv w \<Longrightarrow> map_inv w'"
proof (induction rule: broker_step.induct)
  case (register fresh conn off w i ch w')
  note r = register_ok [OF register(1)]
  note inv = map_invD [OF register(2)]
  from r inv show ?case
    by (auto simp: map_inv_def mput_absent less_SucI dest: inv(3) split: if_splits)
next
  case (ack_failed w ch T)
  then have reg: "mget (bw_channels w) (co_id (bw_chan w ch)) = Some ch"
    by (intro served_registered) simp_all
  show ?case
    by (rule map_inv_unregister [OF ack_failed(2,1), where t' = "Remove2 ch" and ch = ch])
      (simp_all add: AbortProviderRegistration_def reg)
next
  case (remove_found w ch T ch' w')
  then show ?case
    by (intro map_inv_unregister(2) [OF remove_found(3,1), where ch = ch]) (auto simp: remove_take_def)
next
  case (remove_not_found w ch T w')
  then show ?case
    by (intro map_inv_unregister(1) [OF remove_not_found(3,1), where ch = ch and t' = "Remove2 ch"])
      (auto simp: remove_take_def)
next
  case (register_refused fresh conn off w e w')
  then have "w' = w" by (intro register_error)
  then show ?case by (intro map_inv_same_tasks [OF register_refused(2)]) simp_all
next
  case (attach_none chID cons w w')
  then show ?case by (auto intro: map_inv_same_tasks)
qed (auto intro: map_inv_same map_inv_same_tasks)

section \<open>Session ids keep their owners\<close>

type_synonym owners = "uuid \<Rightarrow> (nat \<times> nat) option"

fun task_owned :: "owners \<Rightarrow> task \<Rightarrow> bool" where
  "task_owned own (LoopWrite ch sid c _) \<longleftrightarrow> own sid = Some (ch, c)"
| "task_owned own (AttachStart ch sid c) \<longleftrightarrow> own sid = Some (ch, c)"
| "task_owned own (AttachWrite ch sid c _) \<longleftrightarrow> own sid = Some (ch, c)"
| "task_owned own (AttachWait ch sid c _) \<longleftrightarrow> own sid = Some (ch, c)"
| "task_owned own (AttachInsert ch sid c) \<longleftrightarrow> own sid = Some (ch, c)"
| "task_owned own (Pump ch sid c) \<longleftrightarrow> own sid = Some (ch, c)"
| "task_owned own _ \<longleftrightarrow> True"

fun traffic_owned :: "owners \<Rightarrow> traffic \<Rightarrow> bool" where
  "traffic_owned own (ToConsumer ch sid c _) \<longleftrightarrow> own sid = Some (ch, c)"
| "traffic_owned own (ToAgent ch (Bin f)) \<longleftrightarrow>
     (\<exists>sid c payload. f = PrependSessionID sid payload \<and> own sid = Some (ch, c))"
| "traffic_owned own _ \<longleftrightarrow> True"

definition owner_inv :: "broker_world \<Rightarrow> bool" where
  "owner_inv w \<longleftrightarrow>
     (\<forall>ch sid c. mget (sessions (bw_chan w ch)) sid = Some c \<longrightarrow> bw_owner w sid = Some (ch, c))
     \<and> (\<forall>ch sid k. mget (ackWait (bw_chan w ch)) sid = Some k \<longrightarrow> (\<exists>c. bw_owner w sid = Some (ch, c)))
     \<and> (\<forall>t \<in># bw_tasks w. task_owned (bw_owner w) t)
     \<and> (\<forall>e \<in> set (bw_log w). traffic_owned (bw_owner w) e)"

lemma owner_invD:
  assumes "owner_inv w"
  shows "mget (sessions (bw_chan w ch)) sid = Some c \<Longrightarrow> bw_owner w sid = Some (ch, c)"
    "mget (ackWait (bw_chan w ch)) sid = Some k \<Longrightarrow> \<exists>c. bw_owner w sid = Some (ch, c)"
    "t \<in># bw_tasks w \<Longrightarrow> task_owned (bw_owner w) t"
    "e \<in> set (bw_log w) \<Longrightarrow> traffic_owned (bw_owner w) e"
  using assms unfolding owner_inv_def by blast+

text \<open>Most steps change the tables by deleting entries, or by inserting one the owner record allows.\<close>

definition owner_grow :: "broker_world \<Rightarrow> broker_world \<Rightarrow> bool" where
  "owner_grow w w' \<longleftrightarrow> bw_owner w' = bw_owner w
     \<and> (\<forall>ch sid c. mget (sessions (bw_chan w' ch)) sid = Some c \<longrightarrow>
          mget (sessions (bw_chan w ch)) sid = Some c \<or> bw_owner w sid = Some (ch, c))
     \<and> (\<forall>ch sid k. mget (ackWait (bw_chan w' ch)) sid = Some k \<longrightarrow>
          mget (ackWait (bw_chan w ch)) sid = Some k \<or> (\<exists>c. bw_owner w sid = Some (ch, c)))
     \<and> (\<forall>e \<in> set (bw_log w'). e \<in> set (bw_log w) \<or> traffic_owned (bw_owner w) e)"

lemma owner_inv_grow:
  assumes "owner_inv w" "owner_grow w w'" "\<forall>t \<in># T. t \<in># bw_tasks w \<or> task_owned (bw_owner w) t"
  shows "owner_inv (set_tasks T w')"
proof -
  have sel: "bw_chan (set_tasks T w') = bw_chan w'" "bw_owner (set_tasks T w') = bw_owner w'"
    "bw_tasks (set_tasks T w') = T" "bw_log (set_tasks T w') = bw_log w'" by simp_all
  note g = assms(2) [unfolded owner_grow_def]
  show ?thesis
    unfolding owner_inv_def sel conjunct1 [OF g]
    by (intro conjI; use g assms(3) owner_invD [OF assms(1)] in blast)
qed

lemma owner_inv_grow_tasks:
  assumes "owner_inv w" "owner_grow w w'" "bw_tasks w' = bw_tasks w"
  shows "owner_inv w'"
  using owner_inv_grow [OF assms(1,2), of "bw_tasks w"] assms(3) by (simp add: owner_inv_def)

lemma owner_grow_ops [simp]:
  "owner_grow w w" "owner_grow w (ws_close c w)"
  "owner_grow w (agent_text up ch data w)" "owner_grow w (closeSession us ch sid ok w)"
  "owner_grow w (remove_sessions ch w)" "owner_grow w (remove_waiters ch w)"
  "owner_grow w (attach_send us ch sid w)" "owner_grow w (attach_fail ch sid cons w)"
  "owner_grow w (attach_fail ch sid cons (w\<lparr>bw_mail := m\<rparr>))" "owner_grow w (w\<lparr>bw_mail := m\<rparr>)"
  "owner_grow w (AbortProviderRegistration i w)"
  "traffic_owned (bw_owner w) t \<Longrightarrow> owner_grow w (log_traffic t w)"
  "bw_owner w sid = Some (ch, cons) \<Longrightarrow> owner_grow w (attach_insert ch sid cons w)"
  "bw_owner w sid = Some (ch, cons) \<Longrightarrow> owner_grow w (pump_forward ch sid payload w)"
  "bw_owner w sid = Some (ch, cons) \<Longrightarrow> attach_register ch sid w = (k, w') \<Longrightarrow> owner_grow w w'"
  "attach_lookup i cons w = (x, w') \<Longrightarrow> owner_grow w w'"
  "remove_take i w = (x, w') \<Longrightarrow> owner_grow w w'"
  by (auto simp: owner_grow_def agent_text_def closeSession_def remove_sessions_def remove_waiters_def
      attach_send_def attach_fail_def attach_insert_def pump_forward_def attach_register_def attach_lookup_def
      AbortProviderRegistration_def remove_take_def Let_def split: option.splits if_splits)

lemma owner_grow_ghost [simp]: "owner_inv (w\<lparr>bw_gone := g\<rparr>) = owner_inv w"
  by (simp add: owner_inv_def)

lemma owned_update:
  assumes "own sid = None"
  shows "task_owned own t \<Longrightarrow> task_owned (own(sid \<mapsto> x)) t" "traffic_owned own e \<Longrightarrow> traffic_owned (own(sid \<mapsto> x)) e"
  using assms by (cases "(own, t)" rule: task_owned.cases; force)
    (use assms in \<open>cases "(own, e)" rule: traffic_owned.cases; force\<close>)

lemma owner_inv_attach:
  assumes "owner_inv w" "bw_owner w sid = None"
  shows "owner_inv (w\<lparr>bw_tasks := add_mset (AttachStart ch sid cons) (bw_tasks w),
     bw_owner := (bw_owner w)(sid \<mapsto> (ch, cons))\<rparr>)"
proof -
  note inv = owner_invD [OF assms(1)]
  have "mget (sessions (bw_chan w x)) s = Some c \<Longrightarrow> s \<noteq> sid" for x s c
    using inv(1) assms(2) by fastforce
  moreover have "mget (ackWait (bw_chan w x)) s = Some k \<Longrightarrow> s \<noteq> sid" for x s k
    using inv(2) assms(2) by fastforce
  ultimately show ?thesis
    unfolding owner_inv_def using owned_update [where own = "bw_owner w" and sid = sid, OF assms(2)] by (auto dest: inv)
qed

lemma owner_inv_step: "broker_step up us w w' \<Longrightarrow> owner_inv w \<Longrightarrow> owner_inv w'"
proof (induction rule: broker_step.induct)
  case (register fresh conn off w i ch w')
  from register_ok [OF register(1)] have "owner_grow w w'"
    by (auto simp: owner_grow_def split: if_splits)
  then show ?case by (rule owner_inv_grow [OF register(2)]) auto
next
  case (register_refused fresh conn off w e w')
  then have "w' = w" by (intro register_error)
  then show ?case by (intro owner_inv_grow_tasks [OF register_refused(2)]) simp_all
next
  case (loop_binary w ch T data sid cw body)
  then have "mget (sessions (bw_chan w ch)) sid = Some cw"
    by (auto simp: agent_binary_def split: option.splits)
  then have "bw_owner w sid = Some (ch, cw)" using owner_invD(1) [OF loop_binary(3)] by simp
  then show ?case
    using loop_binary(1) by (intro owner_inv_grow [OF loop_binary(3)]) auto
next
  case (loop_written w ch sid cw body T)
  then have "bw_owner w sid = Some (ch, cw)" using owner_invD(3) [OF loop_written(3)] by fastforce
  then show ?case
    using loop_written(1) by (intro owner_inv_grow [OF loop_written(3)]) auto
next
  case (attach chID cons w ch w' sid)
  then have "w' = w" by (auto simp: attach_lookup_def split: option.splits)
  with owner_inv_attach [OF attach(3,2)] show ?case by simp
next
  case (attach_none chID cons w w')
  then show ?case by (auto intro: owner_inv_grow_tasks)
next
  case (attach_registered w ch sid cons T k w')
  then have "bw_owner w sid = Some (ch, cons)" using owner_invD(3) [OF attach_registered(3)] by fastforce
  then show ?case
    using attach_registered(1,2) by (intro owner_inv_grow [OF attach_registered(3)]) auto
next
  case (attach_sent w ch sid cons k T)
  then have "bw_owner w sid = Some (ch, cons)" using owner_invD(3) [OF attach_sent(3)] by fastforce
  then show ?case
    using attach_sent(1) by (intro owner_inv_grow [OF attach_sent(3)]) auto
next
  case (attach_accepted w ch sid cons k T)
  then have "bw_owner w sid = Some (ch, cons)" using owner_invD(3) [OF attach_accepted(3)] by fastforce
  then show ?case
    using attach_accepted(1) by (intro owner_inv_grow [OF attach_accepted(3)]) auto
next
  case (attach_inserted w ch sid cons T)
  then have "bw_owner w sid = Some (ch, cons)" using owner_invD(3) [OF attach_inserted(2)] by fastforce
  then show ?case
    using attach_inserted(1) by (intro owner_inv_grow [OF attach_inserted(2)]) auto
next
  case (pump_sent w ch sid cons T payload)
  then have "bw_owner w sid = Some (ch, cons)" using owner_invD(3) [OF pump_sent(3)] by fastforce
  then show ?case
    by (intro owner_inv_grow_tasks [OF pump_sent(3)]) auto
next
  case (remove_waking w ch T)
  then show ?case by (auto intro: owner_inv_grow)
qed (rule owner_inv_grow owner_inv_grow_tasks, assumption, simp_all)+

section \<open>No waiting consumer is forgotten\<close>

fun task_chan :: "task \<Rightarrow> nat" where
  "task_chan (Registered ch) = ch" | "task_chan (Loop ch) = ch" | "task_chan (LoopWrite ch _ _ _) = ch"
| "task_chan (Remove1 ch) = ch" | "task_chan (Remove2 ch) = ch" | "task_chan (Remove3 ch) = ch"
| "task_chan (AttachStart ch _ _) = ch" | "task_chan (AttachWrite ch _ _ _) = ch"
| "task_chan (AttachWait ch _ _ _) = ch" | "task_chan (AttachInsert ch _ _) = ch" | "task_chan (Pump ch _ _) = ch"

fun box_of :: "task \<Rightarrow> nat multiset" where
  "box_of (AttachWrite _ _ _ k) = {#k#}"
| "box_of (AttachWait _ _ _ k) = {#k#}"
| "box_of _ = {#}"

fun sid_of :: "task \<Rightarrow> uuid multiset" where
  "sid_of (AttachStart _ s _) = {#s#}"
| "sid_of (AttachWrite _ s _ _) = {#s#}"
| "sid_of (AttachWait _ s _ _) = {#s#}"
| "sid_of (AttachInsert _ s _) = {#s#}"
| "sid_of (Pump _ s _) = {#s#}"
| "sid_of _ = {#}"

definition boxes :: "task multiset \<Rightarrow> nat multiset" where
  "boxes T = \<Sum>\<^sub># (image_mset box_of T)"

definition sids :: "task multiset \<Rightarrow> uuid multiset" where
  "sids T = \<Sum>\<^sub># (image_mset sid_of T)"

lemma boxes_sids_simps [simp]:
  "boxes {#} = {#}" "boxes (add_mset t T) = box_of t + boxes T"
  "sids {#} = {#}" "sids (add_mset t T) = sid_of t + sids T"
  by (simp_all add: boxes_def sids_def)

lemma in_boxes: "t \<in># T \<Longrightarrow> k \<in># box_of t \<Longrightarrow> k \<in># boxes T"
  by (auto simp: boxes_def)

lemma in_sids: "t \<in># T \<Longrightarrow> s \<in># sid_of t \<Longrightarrow> s \<in># sids T"
  by (auto simp: sids_def)

lemma boxes_ex: "k \<in># boxes T \<Longrightarrow> \<exists>t \<in># T. k \<in># box_of t"
  by (auto simp: boxes_def)

lemma sids_ex: "s \<in># sids T \<Longrightarrow> \<exists>t \<in># T. s \<in># sid_of t"
  by (auto simp: sids_def)

fun task_wait :: "broker_world \<Rightarrow> task \<Rightarrow> bool" where
  "task_wait w (Remove1 ch) \<longleftrightarrow> agent (bw_chan w ch) \<in> bw_closed w"
| "task_wait w (Remove2 ch) \<longleftrightarrow> agent (bw_chan w ch) \<in> bw_closed w"
| "task_wait w (Remove3 ch) \<longleftrightarrow> agent (bw_chan w ch) \<in> bw_closed w"
| "task_wait w (AttachWrite ch sid _ k) \<longleftrightarrow>
     k < bw_nmail w \<and> (bw_mail w k \<noteq> None \<or> mget (ackWait (bw_chan w ch)) sid = Some k)"
| "task_wait w (AttachWait ch sid _ k) \<longleftrightarrow>
     k < bw_nmail w \<and> (bw_mail w k \<noteq> None \<or> mget (ackWait (bw_chan w ch)) sid = Some k \<and> ch \<notin> bw_gone w)"
| "task_wait w _ \<longleftrightarrow> True"

definition wait_inv :: "broker_world \<Rightarrow> bool" where
  "wait_inv w \<longleftrightarrow>
     (\<forall>t \<in># bw_tasks w. task_chan t < bw_next w \<and> task_wait w t)
     \<and> (\<forall>k. count (boxes (bw_tasks w)) k \<le> 1) \<and> (\<forall>s. count (sids (bw_tasks w)) s \<le> 1)
     \<and> (\<forall>ch \<in> bw_gone w. ch < bw_next w \<and> agent (bw_chan w ch) \<in> bw_closed w)"

lemma wait_invD:
  assumes "wait_inv w"
  shows "t \<in># bw_tasks w \<Longrightarrow> task_chan t < bw_next w" "t \<in># bw_tasks w \<Longrightarrow> task_wait w t"
    "count (boxes (bw_tasks w)) k \<le> 1" "count (sids (bw_tasks w)) s \<le> 1"
    "ch \<in> bw_gone w \<Longrightarrow> ch < bw_next w" "ch \<in> bw_gone w \<Longrightarrow> agent (bw_chan w ch) \<in> bw_closed w"
  using assms unfolding wait_inv_def by blast+

text \<open>What most operations do: answer boxes are only filled, an entry leaves the table of waiters only
  when its box is filled, and the agents of existing channels stay.\<close>

definition wait_grow :: "broker_world \<Rightarrow> broker_world \<Rightarrow> bool" where
  "wait_grow w w' \<longleftrightarrow> bw_next w \<le> bw_next w' \<and> bw_nmail w' = bw_nmail w \<and> bw_gone w' = bw_gone w
     \<and> bw_closed w \<subseteq> bw_closed w'
     \<and> (\<forall>k. bw_mail w k \<noteq> None \<longrightarrow> bw_mail w' k \<noteq> None)
     \<and> (\<forall>ch < bw_next w. agent (bw_chan w' ch) = agent (bw_chan w ch)
          \<and> (\<forall>sid k. mget (ackWait (bw_chan w ch)) sid = Some k \<longrightarrow>
               mget (ackWait (bw_chan w' ch)) sid = Some k \<or> bw_mail w' k \<noteq> None))"

lemma wait_growD:
  assumes "wait_grow w w'"
  shows "bw_next w \<le> bw_next w'" "bw_nmail w' = bw_nmail w" "bw_gone w' = bw_gone w"
    "c \<in> bw_closed w \<Longrightarrow> c \<in> bw_closed w'" "bw_mail w k \<noteq> None \<Longrightarrow> bw_mail w' k \<noteq> None"
    "ch < bw_next w \<Longrightarrow> agent (bw_chan w' ch) = agent (bw_chan w ch)"
    "ch < bw_next w \<Longrightarrow> mget (ackWait (bw_chan w ch)) sid = Some k \<Longrightarrow> bw_mail w' k = None \<Longrightarrow>
       mget (ackWait (bw_chan w' ch)) sid = Some k"
  using assms unfolding wait_grow_def by blast+

lemma task_wait_grow:
  assumes "wait_grow w w'" "task_chan t < bw_next w" "task_wait w t"
  shows "task_wait w' t"
  using assms(2,3) wait_growD [OF assms(1)]
  by (cases "(w, t)" rule: task_wait.cases) (simp_all, (blast | metis)+)

lemma wait_inv_grow:
  assumes "wait_inv w" "wait_grow w w'"
    and "\<And>k. count (boxes T) k \<le> count (boxes (bw_tasks w)) k"
    and "\<And>s. count (sids T) s \<le> count (sids (bw_tasks w)) s"
    and "\<And>t. t \<in># T \<Longrightarrow> t \<in># bw_tasks w \<or> task_chan t < bw_next w' \<and> task_wait w' t"
  shows "wait_inv (set_tasks T w')"
proof -
  note inv = wait_invD [OF assms(1)] and g = wait_growD [OF assms(2)]
  have sel: "task_wait (set_tasks T w') t = task_wait w' t" for t
    by (cases "(w', t)" rule: task_wait.cases) simp_all
  have t: "task_chan t < bw_next w' \<and> task_wait w' t" if "t \<in># T" for t
    using assms(5) [OF that] task_wait_grow [OF assms(2), of t] inv(1,2) [of t] g(1) by fastforce
  have b: "count (boxes T) k \<le> 1" "count (sids T) s \<le> 1" for k s
    using assms(3) [of k] assms(4) [of s] inv(3) [of k] inv(4) [of s] by simp_all
  have d: "ch < bw_next w' \<and> agent (bw_chan w' ch) \<in> bw_closed w'" if "ch \<in> bw_gone w'" for ch
    using that inv(5,6) [of ch] g(1,3,4,6) by fastforce
  show ?thesis using t b d by (simp add: wait_inv_def sel)
qed

lemma wait_inv_grow_tasks:
  assumes "wait_inv w" "wait_grow w w'" "bw_tasks w' = bw_tasks w"
  shows "wait_inv w'"
proof -
  have "set_tasks (bw_tasks w) w' = w'" using assms(3) by simp
  then show ?thesis using wait_inv_grow [OF assms(1,2), of "bw_tasks w"] by simp
qed

lemma post_mono: "mail k \<noteq> None \<Longrightarrow> post j r mail k \<noteq> None"
  by (auto simp: post_def)

lemma fold_post_mono: "mail k \<noteq> None \<Longrightarrow> fold (\<lambda>j. post j r) js mail k \<noteq> None"
  by (induction js arbitrary: mail) (simp_all add: post_mono del: not_None_eq)

lemma fold_post_fills: "k \<in> set js \<Longrightarrow> fold (\<lambda>j. post j r) js mail k \<noteq> None"
proof (induction js arbitrary: mail)
  case (Cons j js)
  show ?case
  proof (cases "k = j")
    case True
    have "post j r mail j \<noteq> None" by (auto simp: post_def)
    with True fold_post_mono show ?thesis by simp
  qed (use Cons in simp)
qed simp

lemma in_mvals: "mget m k = Some v \<Longrightarrow> v \<in> set (mvals m)"
  by (force dest: mget_SomeD)

lemma wait_grow_ops [simp]:
  "wait_grow w w" "wait_grow w (ws_close c w)" "wait_grow w (log_traffic t w)"
  "wait_grow w (closeSession us ch sid ok w)" "wait_grow w (remove_sessions ch w)"
  "wait_grow w (attach_send us ch sid w)" "wait_grow w (attach_insert ch sid cons w)"
  "wait_grow w (pump_forward ch sid payload w)" "wait_grow w (AbortProviderRegistration i w)"
  "attach_lookup i cons w = (x, w') \<Longrightarrow> wait_grow w w'"
  "remove_take i w = (y, w') \<Longrightarrow> wait_grow w w'"
  "RegisterProvider up fresh conn off w = (Inr z, w') \<Longrightarrow> wait_grow w w'"
  by (auto simp: wait_grow_def closeSession_def remove_sessions_def attach_send_def attach_insert_def
      pump_forward_def attach_lookup_def AbortProviderRegistration_def remove_take_def RegisterProvider_def Let_def
      split: option.splits if_splits)

lemma wait_grow_text [simp]: "wait_grow w (agent_text up ch data w)"
  by (auto simp: wait_grow_def agent_text_def Let_def post_def split: option.splits if_splits)

lemma wait_grow_waiters [simp]: "wait_grow w (remove_waiters ch w)"
  unfolding wait_grow_def remove_waiters_def
  using fold_post_fills [OF in_mvals, unfolded not_None_eq]
    fold_post_mono [where mail = "bw_mail w", unfolded not_None_eq]
  by auto

lemma count_excl: "x \<in># A \<Longrightarrow> count A x + count B x \<le> 1 \<Longrightarrow> count B x = 0"
  using count_greater_zero_iff [of A x] by linarith

lemma wait_inv_gone:
  "wait_inv w \<Longrightarrow> ch < bw_next w \<Longrightarrow> agent (bw_chan w ch) \<in> bw_closed w \<Longrightarrow>
   (\<And>sid c k. AttachWait ch sid c k \<in># bw_tasks w \<Longrightarrow> bw_mail w k \<noteq> None) \<Longrightarrow>
     wait_inv (w\<lparr>bw_gone := insert ch (bw_gone w)\<rparr>)"
proof -
  assume a: "wait_inv w" "ch < bw_next w" "agent (bw_chan w ch) \<in> bw_closed w"
    "\<And>sid c k. AttachWait ch sid c k \<in># bw_tasks w \<Longrightarrow> bw_mail w k \<noteq> None"
  have "task_wait (w\<lparr>bw_gone := insert ch (bw_gone w)\<rparr>) t" if "t \<in># bw_tasks w" for t
    using wait_invD(2) [OF a(1) that] a(4) that by (cases "(w, t)" rule: task_wait.cases) auto
  with a wait_invD [OF a(1)] show ?thesis by (simp add: wait_inv_def)
qed

text \<open>Steps of one attach on its own box and its own table entry: the other tasks do not see them.\<close>

lemma wait_inv_own:
  assumes inv: "wait_inv w" and T: "bw_tasks w = add_mset t0 T"
    and boxes: "\<And>k. k \<in># box_of t' \<Longrightarrow> k \<in># box_of t0 \<or> k = bw_nmail w \<and> k \<notin># boxes T"
      "size (box_of t') \<le> 1" "sid_of t' = sid_of t0" "task_chan t' < bw_next w" "task_wait w' t'"
    and same: "bw_next w' = bw_next w" "bw_nmail w \<le> bw_nmail w'" "bw_gone w' = bw_gone w"
      "bw_closed w \<subseteq> bw_closed w'" "\<And>ch. agent (bw_chan w' ch) = agent (bw_chan w ch)"
    and mail: "\<And>k. k \<in># boxes T \<Longrightarrow> bw_mail w' k = bw_mail w k"
    and wt: "\<And>ch s. s \<in># sids T \<Longrightarrow> mget (ackWait (bw_chan w' ch)) s = mget (ackWait (bw_chan w ch)) s"
  shows "wait_inv (set_tasks (add_mset t' T) w')" "wait_inv (set_tasks T w')"
proof -
  note i = wait_invD [OF inv]
  have sel: "task_wait (set_tasks U w') t = task_wait w' t" for t U
    by (cases "(w', t)" rule: task_wait.cases) simp_all
  have old: "task_chan t < bw_next w' \<and> task_wait w' t" if t: "t \<in># T" for t
  proof -
    have tw: "task_chan t < bw_next w" "task_wait w t" using i(1,2) [of t] t T by simp_all
    have m: "bw_mail w' k = bw_mail w k" if "k \<in># box_of t" for k
      using mail in_boxes [OF t that] by simp
    have a: "mget (ackWait (bw_chan w' ch)) s = mget (ackWait (bw_chan w ch)) s" if "s \<in># sid_of t" for ch s
      using wt in_sids [OF t that] by simp
    show ?thesis
      using tw m a same by (cases "(w, t)" rule: task_wait.cases) auto
  qed
  have gone: "\<forall>ch \<in> bw_gone w'. ch < bw_next w' \<and> agent (bw_chan w' ch) \<in> bw_closed w'"
    using i(5,6) same by auto
  have c: "count (box_of t0) k + count (boxes T) k \<le> 1" "count (sid_of t0) s + count (sids T) s \<le> 1" for k s
    using i(3) [of k] i(4) [of s] T by simp_all
  have le: "count (boxes T) k \<le> 1" "count (sids T) s \<le> 1" for k s
    using c(1) [of k] c(2) [of s] by linarith+
  show "wait_inv (set_tasks T w')"
    using old gone le by (simp add: wait_inv_def sel)
  have "count (box_of t') k + count (boxes T) k \<le> 1" for k
  proof (cases "k \<in># box_of t'")
    case True
    have "count (box_of t') k \<le> 1"
      using boxes(2) count_le_size [of "box_of t'" k] by linarith
    moreover have "count (boxes T) k = 0"
      using boxes(1) [OF True] count_excl [OF _ c(1), of k] by (auto simp: not_in_iff)
    ultimately show ?thesis by simp
  next
    case False
    then show ?thesis using le(1) [of k] by (simp add: not_in_iff)
  qed
  moreover have "count (sid_of t') s + count (sids T) s \<le> 1" for s
    using c(2) [of s] boxes(3) by simp
  ultimately show "wait_inv (set_tasks (add_mset t' T) w')"
    using old gone boxes(4,5) same(1) by (simp add: wait_inv_def sel)
qed

lemma boxes_allocated: "wait_inv w \<Longrightarrow> k \<in># boxes (bw_tasks w) \<Longrightarrow> k < bw_nmail w"
proof -
  assume a: "wait_inv w" "k \<in># boxes (bw_tasks w)"
  then obtain t where t: "t \<in># bw_tasks w" "k \<in># box_of t" using boxes_ex by blast
  from wait_invD(2) [OF a(1) t(1)] t(2) show ?thesis
    by (cases "(w, t)" rule: task_wait.cases) auto
qed

lemma own_box_unique:
  assumes "wait_inv w" "bw_tasks w = add_mset t T"
  shows "k \<in># box_of t \<Longrightarrow> k \<notin># boxes T" "s \<in># sid_of t \<Longrightarrow> s \<notin># sids T"
proof -
  have c: "count (box_of t) k + count (boxes T) k \<le> 1" "count (sid_of t) s + count (sids T) s \<le> 1"
    using wait_invD(3) [OF assms(1), of k] wait_invD(4) [OF assms(1), of s] assms(2) by simp_all
  show "k \<in># box_of t \<Longrightarrow> k \<notin># boxes T"
    using count_excl [OF _ c(1)] by (simp add: not_in_iff)
  show "s \<in># sid_of t \<Longrightarrow> s \<notin># sids T"
    using count_excl [OF _ c(2)] by (simp add: not_in_iff)
qed

lemma attach_fail_wait:
  assumes "wait_inv w" "bw_tasks w = add_mset t T" "sid \<in># sid_of t" "\<And>k. k \<in># boxes T \<Longrightarrow> m k = bw_mail w k"
  shows "wait_inv (set_tasks T (attach_fail ch sid cons (w\<lparr>bw_mail := m\<rparr>)))"
proof -
  have "s \<noteq> sid" if "s \<in># sids T" for s using own_box_unique(2) [OF assms(1-3)] that by auto
  moreover have "task_wait (attach_fail ch sid cons (w\<lparr>bw_mail := m\<rparr>)) (AttachStart (task_chan t) sid cons)" by simp
  moreover have "sid_of (AttachStart (task_chan t) sid cons) = sid_of t"
    using assms(3) by (cases t) auto
  moreover have "task_chan t < bw_next w" using wait_invD(1) [OF assms(1)] assms(2) by simp
  ultimately show ?thesis
    by (intro wait_inv_own(2) [OF assms(1,2), where t' = "AttachStart (task_chan t) sid cons"])
      (auto simp: attach_fail_def assms(4))
qed

lemma wait_inv_step: "broker_step up us w w' \<Longrightarrow> map_inv w \<Longrightarrow> owner_inv w \<Longrightarrow> wait_inv w \<Longrightarrow> wait_inv w'"
proof (induction rule: broker_step.induct)
  case (register fresh conn off w i ch w')
  from register_ok [OF register(1)] have r: "ch = bw_next w" "bw_next w' = ch + 1" by auto
  show ?case
    by (rule wait_inv_grow [OF register(4) wait_grow_ops(12) [OF register(1)]]) (auto simp: r)
next
  case (register_refused fresh conn off w e w')
  then have "w' = w" by (intro register_error)
  then show ?case by (intro wait_inv_grow_tasks [OF register_refused(4)]) simp_all
next
  case (loop_binary w ch T data sid cw body)
  then show ?case using wait_invD(1) [OF loop_binary(5), of "Loop ch"] by (intro wait_inv_grow) auto
next
  case (remove_found w ch T ch' w')
  have "ch' = ch"
    using served_registered [OF remove_found(3), of ch] remove_found(1,2) by (auto simp: remove_take_def)
  with remove_found show ?case
    using wait_invD(1,2) [OF remove_found(5), of "Remove1 ch"]
    by (intro wait_inv_grow) (auto simp: remove_take_def)
next
  case (remove_closing w ch T)
  then show ?case
    using wait_invD(1,2) [OF remove_closing(4), of "Remove2 ch"]
    by (intro wait_inv_grow [OF remove_closing(4) wait_grow_ops(5)]) (auto simp: remove_sessions_def)
next
  case (remove_waking w ch T)
  let ?w = "set_tasks T (remove_waiters ch w)"
  have w1: "wait_inv ?w" using remove_waking by (intro wait_inv_grow) auto
  have t0: "ch < bw_next w" "agent (bw_chan w ch) \<in> bw_closed w"
    using wait_invD(1,2) [OF remove_waking(4), of "Remove3 ch"] remove_waking(1) by auto
  have woken: "bw_mail ?w k \<noteq> None" if "AttachWait ch sid c k \<in># bw_tasks ?w" for sid c k
  proof -
    have "task_wait w (AttachWait ch sid c k)"
      using that wait_invD(2) [OF remove_waking(4), of "AttachWait ch sid c k"] remove_waking(1) by simp
    then consider "bw_mail w k \<noteq> None" | "mget (ackWait (bw_chan w ch)) sid = Some k" by auto
    then show ?thesis
    proof cases
      case 1
      then show ?thesis using fold_post_mono [of "bw_mail w" k] by (simp add: remove_waiters_def)
    next
      case 2
      then show ?thesis using fold_post_fills [OF in_mvals [OF 2]] by (simp add: remove_waiters_def)
    qed
  qed
  have "bw_gone ?w = bw_gone w" by (simp add: remove_waiters_def)
  with wait_inv_gone [OF w1 _ _ woken] t0 show ?case by (simp add: remove_waiters_def)
next
  case (attach chID cons w ch w' sid)
  then have w': "w' = w" and reg: "mget (bw_channels w) chID = Some ch"
    by (auto simp: attach_lookup_def split: option.splits)
  have lt: "ch < bw_next w" using map_invD(3) [OF attach(3) reg] by simp
  have new: "sid \<notin># sids (bw_tasks w)"
  proof
    assume "sid \<in># sids (bw_tasks w)"
    then obtain t where "t \<in># bw_tasks w" "sid \<in># sid_of t" using sids_ex by blast
    then have "task_owned (bw_owner w) t" "sid \<in># sid_of t" using owner_invD(3) [OF attach(4)] by auto
    then have "bw_owner w sid \<noteq> None" by (cases t) auto
    with attach(2) show False by simp
  qed
  note i = wait_invD [OF attach(5)]
  have sel: "task_wait (w\<lparr>bw_tasks := U, bw_owner := own\<rparr>) t = task_wait w t" for U own t
    by (cases "(w, t)" rule: task_wait.cases) simp_all
  have "count (sids (bw_tasks w)) sid = 0" using new by (simp add: not_in_iff)
  with i lt show ?case by (auto simp: wait_inv_def w' sel)
next
  case (attach_registered w ch sid cons T k w')
  have k: "k = bw_nmail w" "w' = (upd_chan ch (\<lambda>c. c\<lparr>ackWait := mput sid k (ackWait c)\<rparr>) w)
      \<lparr>bw_nmail := k + 1, bw_mail := (bw_mail w)(k := None)\<rparr>"
    using attach_registered(2) by (auto simp: attach_register_def Let_def)
  have fresh: "bw_nmail w \<notin># boxes T"
    using boxes_allocated [OF attach_registered(5), of "bw_nmail w"] attach_registered(1) by auto
  have "s \<noteq> sid" if "s \<in># sids T" for s
    using own_box_unique(2) [OF attach_registered(5,1), of sid] that by auto
  moreover have "j \<noteq> bw_nmail w" if "j \<in># boxes T" for j using fresh that by auto
  moreover have "ch < bw_next w"
    using wait_invD(1) [OF attach_registered(5), of "AttachStart ch sid cons"] attach_registered(1) by simp
  ultimately show ?case
    using fresh by (intro wait_inv_own(1) [OF attach_registered(5,1)]) (auto simp: k)
next
  case (attach_sent w ch sid cons k T)
  then have "task_wait w (AttachWrite ch sid cons k)" "ch < bw_next w"
    using wait_invD(1,2) [OF attach_sent(5), of "AttachWrite ch sid cons k"] by auto
  moreover have "ch \<notin> bw_gone w" using attach_sent(2) wait_invD(6) [OF attach_sent(5)] by blast
  ultimately show ?case
    using attach_sent by (intro wait_inv_grow [OF attach_sent(5)]) (auto simp: attach_send_def)
next
  case (attach_send_failed w ch sid cons k T)
  then show ?case using attach_fail_wait [OF attach_send_failed(4,1), of sid "bw_mail w" ch cons] by simp
next
  case (attach_timeout w ch sid cons k T)
  then show ?case using attach_fail_wait [OF attach_timeout(4,1), of sid "bw_mail w" ch cons] by simp
next
  case (attach_refused w ch sid cons k T e)
  have "j \<noteq> k" if "j \<in># boxes T" for j
    using own_box_unique(1) [OF attach_refused(5,1), of k] that by auto
  then show ?case using attach_fail_wait [OF attach_refused(5,1), of sid] by simp
next
  case (attach_accepted w ch sid cons k T)
  have "j \<noteq> k" if "j \<in># boxes T" for j
    using own_box_unique(1) [OF attach_accepted(5,1), of k] that by auto
  moreover have "ch < bw_next w"
    using wait_invD(1) [OF attach_accepted(5), of "AttachWait ch sid cons k"] attach_accepted(1) by simp
  ultimately show ?case by (intro wait_inv_own(1) [OF attach_accepted(5,1)]) auto
next
  case (attach_none chID cons w w')
  then show ?case by (auto intro: wait_inv_grow_tasks)
next
  case (loop_error w ch T)
  then show ?case using wait_invD(1) [OF loop_error(4), of "Loop ch"] by (intro wait_inv_grow) auto
next
  case (ack_sent w ch T)
  then show ?case using wait_invD(1) [OF ack_sent(5), of "Registered ch"] by (intro wait_inv_grow) auto
next
  case (loop_written w ch sid cw body T)
  then show ?case using wait_invD(1) [OF loop_written(5), of "LoopWrite ch sid cw body"] by (intro wait_inv_grow) auto
next
  case (loop_write_failed w ch sid cw body T ok)
  then show ?case
    using wait_invD(1) [OF loop_write_failed(4), of "LoopWrite ch sid cw body"]
      wait_growD(1) [OF wait_grow_ops(4) [of w us ch sid ok]]
    by (intro wait_inv_grow) (auto intro: less_le_trans)
next
  case (attach_inserted w ch sid cons T)
  then show ?case
    using wait_invD(1) [OF attach_inserted(4), of "AttachInsert ch sid cons"]
    by (intro wait_inv_grow [OF attach_inserted(4) wait_grow_ops(7)]) (auto simp: attach_insert_def)
next
  case (ack_failed w ch T)
  then show ?case by (intro wait_inv_grow [OF ack_failed(4) wait_grow_ops(9)]) auto
next
  case (loop_text w ch T data)
  then show ?case by (intro wait_inv_grow_tasks [OF loop_text(4)]) auto
next
  case (loop_dropped w ch T data sid body)
  then show ?case by (intro wait_inv_grow_tasks [OF loop_dropped(6)]) auto
next
  case (remove_not_found w ch T w')
  then show ?case by (intro wait_inv_grow [OF remove_not_found(5) wait_grow_ops(11) [OF remove_not_found(2)]]) auto
next
  case (pump_sent w ch sid cons T payload)
  then show ?case by (intro wait_inv_grow_tasks [OF pump_sent(5)]) auto
next
  case (pump_ended w ch sid cons T ok)
  then show ?case by (intro wait_inv_grow [OF pump_ended(4) wait_grow_ops(4)]) auto
qed

section \<open>What is read and delivered\<close>

fun delivered :: "uuid \<Rightarrow> traffic list \<Rightarrow> byte list list" where
  "delivered sid [] = []"
| "delivered sid (ToConsumer _ s _ body # l) = (if s = sid then body # delivered sid l else delivered sid l)"
| "delivered sid (_ # l) = delivered sid l"

fun received :: "nat \<Rightarrow> uuid \<Rightarrow> traffic list \<Rightarrow> byte list list" where
  "received ch sid [] = []"
| "received ch sid (FromAgent c s body # l) =
     (if c = ch \<and> s = sid then body # received ch sid l else received ch sid l)"
| "received ch sid (_ # l) = received ch sid l"

lemma delivered_append: "delivered sid (l @ m) = delivered sid l @ delivered sid m"
  by (induction sid l rule: delivered.induct) auto

lemma received_append: "received ch sid (l @ m) = received ch sid l @ received ch sid m"
  by (induction ch sid l rule: received.induct) auto

lemma delivered_none: "(\<And>c x b. ToConsumer c sid x b \<notin> set l) \<Longrightarrow> delivered sid l = []"
  by (induction sid l rule: delivered.induct) auto

text \<open>A channel is served by one task at a time.\<close>

lemma served_once:
  assumes "map_inv w"
  shows "count (served (bw_tasks w)) ch \<le> 1"
proof -
  have "inj_on (mget (bw_channels w)) {i. mget (bw_channels w) i \<noteq> None}"
    by (rule inj_onI) (metis (mono_tags) map_invD(3) [OF assms] mem_Collect_eq not_None_eq)
  moreover have "distinct (mvals (bw_channels w))"
  proof -
    have "inj_on snd (set (bw_channels w))"
    proof (rule inj_onI)
      fix p q
      assume "p \<in> set (bw_channels w)" "q \<in> set (bw_channels w)" "snd p = snd q"
      then have "mget (bw_channels w) (fst p) = Some (snd p)" "mget (bw_channels w) (fst q) = Some (snd p)"
        using mget_Some_iff [OF map_invD(1) [OF assms]] by (metis prod.collapse)+
      then have "fst p = fst q" using map_invD(3) [OF assms] by metis
      with \<open>snd p = snd q\<close> show "p = q" by (simp add: prod_eq_iff)
    qed
    then show ?thesis using map_invD(1) [OF assms] by (simp add: distinct_map)
  qed
  ultimately show ?thesis
    using map_invD(2) [OF assms] by (metis distinct_count_atmost_1 le_numeral_extra(4) zero_le_one)
qed

section \<open>A session is entered only after its provider's answer\<close>

fun early_sid :: "task \<Rightarrow> uuid multiset" where
  "early_sid (AttachStart _ s _) = {#s#}"
| "early_sid (AttachWrite _ s _ _) = {#s#}"
| "early_sid (AttachWait _ s _ _) = {#s#}"
| "early_sid (AttachInsert _ s _) = {#s#}"
| "early_sid _ = {#}"

definition early_inv :: "broker_world \<Rightarrow> bool" where
  "early_inv w \<longleftrightarrow> (\<forall>t \<in># bw_tasks w. \<forall>s \<in># early_sid t. \<forall>ch. mget (sessions (bw_chan w ch)) s = None)"

lemma early_invD:
  "early_inv w \<Longrightarrow> t \<in># bw_tasks w \<Longrightarrow> s \<in># early_sid t \<Longrightarrow> mget (sessions (bw_chan w ch)) s = None"
  unfolding early_inv_def by blast

definition sess_shrink :: "broker_world \<Rightarrow> broker_world \<Rightarrow> bool" where
  "sess_shrink w w' \<longleftrightarrow>
     (\<forall>ch s. mget (sessions (bw_chan w ch)) s = None \<longrightarrow> mget (sessions (bw_chan w' ch)) s = None)"

lemma early_inv_shrink:
  "early_inv w \<Longrightarrow> sess_shrink w w' \<Longrightarrow>
   (\<And>t s. t \<in># T \<Longrightarrow> s \<in># early_sid t \<Longrightarrow> \<exists>t' \<in># bw_tasks w. s \<in># early_sid t') \<Longrightarrow> early_inv (set_tasks T w')"
  unfolding early_inv_def sess_shrink_def by (simp, metis)

lemma early_inv_shrink_tasks:
  "early_inv w \<Longrightarrow> sess_shrink w w' \<Longrightarrow> bw_tasks w' = bw_tasks w \<Longrightarrow> early_inv w'"
  unfolding early_inv_def sess_shrink_def by simp

lemma sess_shrink_ops [simp]:
  "sess_shrink w w" "sess_shrink w (ws_close c w)" "sess_shrink w (log_traffic t w)"
  "sess_shrink w (agent_text up ch data w)" "sess_shrink w (closeSession us ch sid ok w)"
  "sess_shrink w (remove_sessions ch w)" "sess_shrink w (remove_waiters ch w)"
  "sess_shrink w (attach_send us ch sid w)" "sess_shrink w (attach_fail ch sid cons w)"
  "sess_shrink w (attach_fail ch sid cons (w\<lparr>bw_mail := m'\<rparr>))" "sess_shrink w (w\<lparr>bw_mail := m'\<rparr>)"
  "sess_shrink w (AbortProviderRegistration i w)" "sess_shrink w (pump_forward ch sid payload w)"
  "attach_register ch sid w = (k, w') \<Longrightarrow> sess_shrink w w'"
  "attach_lookup i cons w = (x, w') \<Longrightarrow> sess_shrink w w'"
  "remove_take i w = (x, w') \<Longrightarrow> sess_shrink w w'"
  "RegisterProvider up fresh conn off w = (z, w') \<Longrightarrow> sess_shrink w w'"
  by (auto simp: sess_shrink_def agent_text_def closeSession_def remove_sessions_def remove_waiters_def
      attach_send_def attach_fail_def pump_forward_def attach_register_def attach_lookup_def
      AbortProviderRegistration_def remove_take_def RegisterProvider_def Let_def split: option.splits if_splits)

lemma early_sid_sub: "s \<in># early_sid t \<Longrightarrow> s \<in># sid_of t"
  by (cases t) auto

lemma early_inv_step:
  "broker_step up us w w' \<Longrightarrow> owner_inv w \<Longrightarrow> wait_inv w \<Longrightarrow> early_inv w \<Longrightarrow> early_inv w'"
proof (induction rule: broker_step.induct)
  case (register fresh conn off w i ch w')
  then show ?case by (intro early_inv_shrink [OF register(4)]) auto
next
  case (register_refused fresh conn off w e w')
  then have "w' = w" by (intro register_error)
  then show ?case by (intro early_inv_shrink_tasks [OF register_refused(4)]) simp_all
next
  case (loop_text w ch T data)
  then show ?case by (intro early_inv_shrink_tasks [OF loop_text(4)]) auto
next
  case (loop_dropped w ch T data sid body)
  then show ?case by (intro early_inv_shrink_tasks [OF loop_dropped(6)]) auto
next
  case (pump_sent w ch sid cons T payload)
  then show ?case by (intro early_inv_shrink_tasks [OF pump_sent(5)]) auto
next
  case (attach_none chID cons w w')
  then show ?case by (auto intro: early_inv_shrink_tasks)
next
  case (attach chID cons w ch w' sid)
  then have w': "w' = w" by (auto simp: attach_lookup_def split: option.splits)
  have "mget (sessions (bw_chan w c)) sid = None" for c
    using owner_invD(1) [OF attach(3)] attach(2) by (metis not_None_eq option.distinct(1))
  then show ?case using attach(5) by (simp add: early_inv_def w')
next
  case (attach_inserted w ch sid cons T)
  have no: "s \<noteq> sid" if "t \<in># T" "s \<in># early_sid t" for t s
    using own_box_unique(2) [OF attach_inserted(3,1), of sid] in_sids [OF that(1) early_sid_sub [OF that(2)]] by auto
  have old: "mget (sessions (bw_chan w c)) s = None" if "t \<in># T" "s \<in># early_sid t" for t s c
    using early_invD [OF attach_inserted(4), of t s c] that attach_inserted(1) by simp
  show ?case
    using no old by (auto simp: early_inv_def attach_insert_def)
next
  case (remove_waking w ch T)
  have "early_inv (set_tasks T (remove_waiters ch w))"
    using remove_waking by (intro early_inv_shrink) auto
  then show ?case by (simp add: early_inv_def)
next
  case (remove_found w ch T ch' w')
  then show ?case by (intro early_inv_shrink [OF remove_found(5)]) auto
next
  case (remove_not_found w ch T w')
  then show ?case by (intro early_inv_shrink [OF remove_not_found(5)]) auto
next
  case (attach_registered w ch sid cons T k w')
  then show ?case by (intro early_inv_shrink [OF attach_registered(5)]) auto
qed (rule early_inv_shrink, assumption, simp, auto)+

section \<open>Every session has its goroutine\<close>

definition pump_inv :: "broker_world \<Rightarrow> bool" where
  "pump_inv w \<longleftrightarrow>
     (\<forall>ch s c. mget (sessions (bw_chan w ch)) s = Some c \<longrightarrow> Pump ch s c \<in># bw_tasks w)"

lemma pump_invD: "pump_inv w \<Longrightarrow> mget (sessions (bw_chan w ch)) s = Some c \<Longrightarrow> Pump ch s c \<in># bw_tasks w"
  unfolding pump_inv_def by blast

definition sess_sub :: "broker_world \<Rightarrow> broker_world \<Rightarrow> bool" where
  "sess_sub w w' \<longleftrightarrow>
     (\<forall>ch s c. mget (sessions (bw_chan w' ch)) s = Some c \<longrightarrow> mget (sessions (bw_chan w ch)) s = Some c)"

lemma pump_inv_sub:
  "pump_inv w \<Longrightarrow> sess_sub w w' \<Longrightarrow> (\<And>ch s c. Pump ch s c \<in># bw_tasks w \<Longrightarrow> Pump ch s c \<in># T) \<Longrightarrow>
     pump_inv (set_tasks T w')"
  unfolding pump_inv_def sess_sub_def by (intro allI impI) simp

lemma pump_inv_sub_tasks:
  "pump_inv w \<Longrightarrow> sess_sub w w' \<Longrightarrow> bw_tasks w' = bw_tasks w \<Longrightarrow> pump_inv w'"
  unfolding pump_inv_def sess_sub_def by simp

lemma sess_sub_ops [simp]:
  "sess_sub w w" "sess_sub w (ws_close c w)" "sess_sub w (log_traffic t w)"
  "sess_sub w (agent_text up ch data w)" "sess_sub w (closeSession us ch sid ok w)"
  "sess_sub w (remove_sessions ch w)" "sess_sub w (remove_waiters ch w)"
  "sess_sub w (attach_send us ch sid w)" "sess_sub w (attach_fail ch sid cons w)"
  "sess_sub w (attach_fail ch sid cons (w\<lparr>bw_mail := m'\<rparr>))" "sess_sub w (w\<lparr>bw_mail := m'\<rparr>)"
  "sess_sub w (AbortProviderRegistration i w)" "sess_sub w (pump_forward ch sid payload w)"
  "attach_register ch sid w = (k, w') \<Longrightarrow> sess_sub w w'"
  "attach_lookup i cons w = (x, w') \<Longrightarrow> sess_sub w w'"
  "remove_take i w = (x, w') \<Longrightarrow> sess_sub w w'"
  "RegisterProvider up fresh conn off w = (z, w') \<Longrightarrow> sess_sub w w'"
  by (auto simp: sess_sub_def agent_text_def closeSession_def remove_sessions_def remove_waiters_def
      attach_send_def attach_fail_def pump_forward_def attach_register_def attach_lookup_def
      AbortProviderRegistration_def remove_take_def RegisterProvider_def Let_def split: option.splits if_splits)

lemma pump_inv_step: "broker_step up us w w' \<Longrightarrow> pump_inv w \<Longrightarrow> pump_inv w'"
proof (induction rule: broker_step.induct)
  case (register fresh conn off w i ch w')
  then show ?case by (intro pump_inv_sub [OF register(2)]) auto
next
  case (register_refused fresh conn off w e w')
  then have "w' = w" by (intro register_error)
  then show ?case by (intro pump_inv_sub_tasks [OF register_refused(2)]) simp_all
next
  case (loop_text w ch T data)
  then show ?case by (intro pump_inv_sub_tasks [OF loop_text(2)]) auto
next
  case (loop_dropped w ch T data sid body)
  then show ?case by (intro pump_inv_sub_tasks [OF loop_dropped(4)]) auto
next
  case (pump_sent w ch sid cons T payload)
  then show ?case by (intro pump_inv_sub_tasks [OF pump_sent(3)]) auto
next
  case (attach_none chID cons w w')
  then show ?case by (auto intro: pump_inv_sub_tasks)
next
  case (attach chID cons w ch w' sid)
  then have w': "w' = w" by (auto simp: attach_lookup_def split: option.splits)
  then show ?case using attach(3) by (simp add: pump_inv_def w')
next
  case (attach_inserted w ch sid cons T)
  then show ?case
    using pump_invD [OF attach_inserted(2)] by (auto simp: pump_inv_def attach_insert_def split: if_splits)
next
  case (remove_waking w ch T)
  have "pump_inv (set_tasks T (remove_waiters ch w))"
    using remove_waking by (intro pump_inv_sub) auto
  then show ?case by (simp add: pump_inv_def)
next
  case (remove_found w ch T ch' w')
  then show ?case by (intro pump_inv_sub [OF remove_found(3)]) auto
next
  case (remove_not_found w ch T w')
  then show ?case by (intro pump_inv_sub [OF remove_not_found(3)]) auto
next
  case (attach_registered w ch sid cons T k w')
  then show ?case by (intro pump_inv_sub [OF attach_registered(3)]) auto
next
  case (pump_ended w ch sid cons T ok)
  have gone: "mget (sessions (bw_chan (closeSession us ch sid ok w) ch)) sid = None"
    by (simp add: closeSession_def Let_def split: option.split)
  have sub: "sess_sub w (closeSession us ch sid ok w)" by simp
  have "Pump x s c \<in># T" if m: "mget (sessions (bw_chan (closeSession us ch sid ok w) x)) s = Some c" for x s c
  proof -
    have "Pump x s c \<in># bw_tasks w" using sub m pump_invD [OF pump_ended(2)] by (simp add: sess_sub_def)
    moreover have "x \<noteq> ch \<or> s \<noteq> sid" using gone m by auto
    ultimately show ?thesis using pump_ended(1) by auto
  qed
  then show ?case by (simp add: pump_inv_def)
qed (rule pump_inv_sub, assumption, simp, simp)+

section \<open>Reachable states\<close>

definition broker_inv :: "broker_world \<Rightarrow> bool" where
  "broker_inv w \<longleftrightarrow> map_inv w \<and> owner_inv w \<and> wait_inv w \<and> early_inv w \<and> pump_inv w"

lemma NewBroker_sel:
  "bw_chan NewBroker = (\<lambda>_. no_chan)" "bw_next NewBroker = 0" "bw_channels NewBroker = []"
  "bw_closed NewBroker = {}" "bw_tasks NewBroker = {#}" "bw_log NewBroker = []"
  "bw_owner NewBroker = (\<lambda>_. None)" "bw_gone NewBroker = {}" "bw_nmail NewBroker = 0" "bw_mail NewBroker = (\<lambda>_. None)"
  by (simp_all add: NewBroker_def)

interpretation bk: invariant_system "\<lambda>w. w = NewBroker" "broker_step up us" broker_inv
  for up :: "string \<Rightarrow> uuid option" and us :: "uuid \<Rightarrow> string"
proof
  show "broker_inv w" if "w = NewBroker" for w
    using that by (simp add: broker_inv_def map_inv_def owner_inv_def wait_inv_def early_inv_def
        pump_inv_def NewBroker_sel no_chan_def)
  show "broker_inv w'" if "broker_inv w" "broker_step up us w w'" for w w'
    using that map_inv_step owner_inv_step wait_inv_step early_inv_step pump_inv_step
    unfolding broker_inv_def by metis
qed

abbreviation broker_reachable ::
  "(string \<Rightarrow> uuid option) \<Rightarrow> (uuid \<Rightarrow> string) \<Rightarrow> broker_world \<Rightarrow> bool" where
  "broker_reachable up us \<equiv> reachable_from (\<lambda>w. w = NewBroker) (broker_step up us)"

lemma reachable_invs:
  assumes "broker_reachable up us w"
  shows "map_inv w" "owner_inv w" "wait_inv w" "early_inv w" "pump_inv w"
  using bk.reachable_inv [OF assms] by (simp_all add: broker_inv_def)

end
