(* ===== verification/BrokerOrder.thy ===== *)
theory BrokerOrder
  imports BrokerInv
begin

text \<open>
  Nothing is lost in the middle of a session. What the broker delivers to a consumer is a contiguous part
  of what its provider sent for the session: only a beginning, sent before the session was entered, and
  an end, sent after it was left, can be missing.
\<close>

section \<open>Contiguous relaying\<close>

abbreviation writing :: "nat \<Rightarrow> uuid \<Rightarrow> task multiset \<Rightarrow> bool" where
  "writing ch sid T \<equiv> \<exists>c body. LoopWrite ch sid c body \<in># T"

definition seg_inv :: "broker_world \<Rightarrow> bool" where
  "seg_inv w \<longleftrightarrow>
     (\<forall>ch sid c. bw_owner w sid = Some (ch, c) \<longrightarrow> sublist (delivered sid (bw_log w)) (received ch sid (bw_log w)))
     \<and> (\<forall>ch sid c. mget (sessions (bw_chan w ch)) sid = Some c \<longrightarrow> \<not> writing ch sid (bw_tasks w) \<longrightarrow>
          suffix (delivered sid (bw_log w)) (received ch sid (bw_log w)))
     \<and> (\<forall>ch sid c body. LoopWrite ch sid c body \<in># bw_tasks w \<longrightarrow>
          suffix (delivered sid (bw_log w) @ [body]) (received ch sid (bw_log w)))
     \<and> (\<forall>t \<in># bw_tasks w. \<forall>s \<in># early_sid t.
          delivered s (bw_log w) = [] \<and> (\<forall>ch c body. LoopWrite ch s c body \<notin># bw_tasks w))"

lemma seg_invD:
  assumes "seg_inv w"
  shows "bw_owner w sid = Some (ch, c) \<Longrightarrow> sublist (delivered sid (bw_log w)) (received ch sid (bw_log w))"
    "mget (sessions (bw_chan w ch)) sid = Some c \<Longrightarrow> \<not> writing ch sid (bw_tasks w) \<Longrightarrow>
       suffix (delivered sid (bw_log w)) (received ch sid (bw_log w))"
    "LoopWrite ch sid c body \<in># bw_tasks w \<Longrightarrow>
       suffix (delivered sid (bw_log w) @ [body]) (received ch sid (bw_log w))"
    "t \<in># bw_tasks w \<Longrightarrow> s \<in># early_sid t \<Longrightarrow> delivered s (bw_log w) = []"
    "t \<in># bw_tasks w \<Longrightarrow> s \<in># early_sid t \<Longrightarrow> LoopWrite ch s c body \<notin># bw_tasks w"
  using assms unfolding seg_inv_def by blast+

lemma set_tasks_id: "bw_tasks w = T \<Longrightarrow> set_tasks T w = w"
  by simp

lemma sublist_snoc: "sublist xs ys \<Longrightarrow> sublist xs (ys @ zs)"
  unfolding sublist_def by (metis append.assoc)

text \<open>Most operations write to providers only.\<close>

definition same_flow :: "broker_world \<Rightarrow> broker_world \<Rightarrow> bool" where
  "same_flow w w' \<longleftrightarrow> bw_owner w' = bw_owner w
     \<and> (\<forall>sid. delivered sid (bw_log w') = delivered sid (bw_log w))
     \<and> (\<forall>ch sid. received ch sid (bw_log w') = received ch sid (bw_log w))"

lemma same_flow_ops [simp]:
  "same_flow w w" "same_flow w (ws_close c w)" "same_flow w (log_traffic (ToAgent ch m) w)"
  "same_flow w (agent_text up ch data w)" "same_flow w (closeSession us ch sid ok w)"
  "same_flow w (remove_sessions ch w)" "same_flow w (remove_waiters ch w)"
  "same_flow w (attach_send us ch sid w)" "same_flow w (attach_fail ch sid cons w)"
  "same_flow w (attach_fail ch sid cons (w\<lparr>bw_mail := m'\<rparr>))" "same_flow w (w\<lparr>bw_mail := m'\<rparr>)"
  "same_flow w (AbortProviderRegistration i w)" "same_flow w (attach_insert ch sid cons w)"
  "same_flow w (pump_forward ch sid payload w)"
  "attach_register ch sid w = (k, w') \<Longrightarrow> same_flow w w'"
  "attach_lookup i cons w = (x, w') \<Longrightarrow> same_flow w w'"
  "remove_take i w = (x, w') \<Longrightarrow> same_flow w w'"
  "RegisterProvider up fresh conn off w = (z, w') \<Longrightarrow> same_flow w w'"
  by (auto simp: same_flow_def agent_text_def closeSession_def remove_sessions_def remove_waiters_def
      attach_send_def attach_fail_def attach_insert_def pump_forward_def attach_register_def attach_lookup_def
      AbortProviderRegistration_def remove_take_def RegisterProvider_def Let_def delivered_append received_append
      split: option.splits if_splits)

lemma seg_inv_same:
  assumes "seg_inv w" "same_flow w w'" "sess_sub w w'"
    and "\<And>ch sid c body. LoopWrite ch sid c body \<in># T \<longleftrightarrow> LoopWrite ch sid c body \<in># bw_tasks w"
    and "\<And>t s. t \<in># T \<Longrightarrow> s \<in># early_sid t \<Longrightarrow> \<exists>t' \<in># bw_tasks w. s \<in># early_sid t'"
  shows "seg_inv (set_tasks T w')"
proof -
  have sel: "bw_chan (set_tasks T w') = bw_chan w'" "bw_owner (set_tasks T w') = bw_owner w'"
    "bw_tasks (set_tasks T w') = T" "bw_log (set_tasks T w') = bw_log w'" by simp_all
  have f: "bw_owner w' = bw_owner w" "delivered sid (bw_log w') = delivered sid (bw_log w)"
    "received ch sid (bw_log w') = received ch sid (bw_log w)" for ch sid
    using assms(2) unfolding same_flow_def by blast+
  have sub: "mget (sessions (bw_chan w ch)) s = Some c" if "mget (sessions (bw_chan w' ch)) s = Some c" for ch s c
    using assms(3) that unfolding sess_sub_def by blast
  show ?thesis
    unfolding seg_inv_def sel f assms(4)
  proof (intro conjI allI impI ballI)
    fix ch sid c t s body
    note inv = seg_invD [OF assms(1)]
    show "bw_owner w sid = Some (ch, c) \<Longrightarrow> sublist (delivered sid (bw_log w)) (received ch sid (bw_log w))"
      by (rule inv(1))
    show "mget (sessions (bw_chan w' ch)) sid = Some c \<Longrightarrow> \<not> writing ch sid (bw_tasks w) \<Longrightarrow>
        suffix (delivered sid (bw_log w)) (received ch sid (bw_log w))"
      by (rule inv(2) [OF sub])
    show "LoopWrite ch sid c body \<in># bw_tasks w \<Longrightarrow>
        suffix (delivered sid (bw_log w) @ [body]) (received ch sid (bw_log w))"
      by (rule inv(3))
    assume t: "t \<in># T" "s \<in># early_sid t"
    obtain t' where "t' \<in># bw_tasks w" "s \<in># early_sid t'" using assms(5) [OF t] by blast
    then show "delivered s (bw_log w) = []" "LoopWrite ch s c body \<notin># bw_tasks w" using inv(4,5) by blast+
  qed
qed

lemma seg_inv_same_tasks:
  assumes "seg_inv w" "same_flow w w'" "sess_sub w w'" "bw_tasks w' = bw_tasks w"
  shows "seg_inv w'"
  using seg_inv_same [OF assms(1-3), of "bw_tasks w"] set_tasks_id [OF assms(4)] by auto

lemma seg_inv_gone [simp]: "seg_inv (w\<lparr>bw_gone := g\<rparr>) = seg_inv w"
  by (simp add: seg_inv_def)

text \<open>A read of a frame: for a session that is not in the table, it is lost; for one that is, it is about to
  be written.\<close>

lemma seg_inv_received:
  assumes inv: "seg_inv w" and T: "\<And>c s x b. LoopWrite c s x b \<in># T \<Longrightarrow> LoopWrite c s x b \<in># bw_tasks w
      \<or> c = ch \<and> s = sid \<and> b = body"
    "\<And>c s. writing c s (bw_tasks w) \<Longrightarrow> writing c s T \<and> (c, s) \<noteq> (ch, sid)"
    "\<And>t s. t \<in># T \<Longrightarrow> s \<in># early_sid t \<Longrightarrow> \<exists>t' \<in># bw_tasks w. s \<in># early_sid t'"
    and table: "mget (sessions (bw_chan w ch)) sid = None \<or> writing ch sid T"
    and written: "\<And>x b. LoopWrite ch sid x b \<in># T \<Longrightarrow> mget (sessions (bw_chan w ch)) sid \<noteq> None"
    and early: "early_inv w"
  shows "seg_inv (set_tasks T (log_traffic (FromAgent ch sid body) w))"
proof -
  let ?l = "bw_log w @ [FromAgent ch sid body]"
  have d: "delivered s ?l = delivered s (bw_log w)" for s by (simp add: delivered_append)
  have r: "received c s ?l = (if c = ch \<and> s = sid then received c s (bw_log w) @ [body] else received c s (bw_log w))"
    for c s by (auto simp: received_append)
  have 1: "sublist (delivered s ?l) (received c s ?l)" if "bw_owner w s = Some (c, x)" for c s x
    using seg_invD(1) [OF inv that] by (auto simp: d r sublist_snoc)
  have 2: "suffix (delivered s ?l) (received c s ?l)"
    if "mget (sessions (bw_chan w c)) s = Some x" "\<not> writing c s T" for c s x
  proof -
    have "(c, s) \<noteq> (ch, sid)" using that table by auto
    moreover have "\<not> writing c s (bw_tasks w)" using T(2) that(2) by blast
    ultimately show ?thesis using seg_invD(2) [OF inv that(1)] by (auto simp: d r)
  qed
  have 3: "suffix (delivered s ?l @ [b]) (received c s ?l)" if m: "LoopWrite c s x b \<in># T" for c s x b
  proof (cases "c = ch \<and> s = sid")
    case True
    have n: "\<not> writing ch sid (bw_tasks w)" using T(2) by blast
    obtain y where "mget (sessions (bw_chan w ch)) sid = Some y" using written m True by blast
    from seg_invD(2) [OF inv this n] have "suffix (delivered sid (bw_log w)) (received ch sid (bw_log w))" .
    moreover have "b = body" using T(1) [OF m] True n by blast
    ultimately show ?thesis using True by (simp add: d r suffix_def)
  next
    case False
    then show ?thesis using T(1) [OF m] seg_invD(3) [OF inv] by (auto simp: d r)
  qed
  have 4: "delivered s ?l = [] \<and> LoopWrite c s x b \<notin># T" if m: "t \<in># T" "s \<in># early_sid t" for t s c x b
  proof -
    obtain t' where t': "t' \<in># bw_tasks w" "s \<in># early_sid t'" using T(3) [OF m] by blast
    have "mget (sessions (bw_chan w ch)) s = None" by (rule early_invD [OF early t'])
    then show ?thesis using seg_invD(4,5) [OF inv t'] T(1) [of c s x b] written by (auto simp: d)
  qed
  show ?thesis
    unfolding seg_inv_def using 1 2 3 4 by simp
qed

text \<open>While one write is on its way, its channel's loop does nothing else.\<close>

lemma one_write:
  assumes "map_inv w" "owner_inv w" "bw_tasks w = add_mset (LoopWrite ch sid cw body) T" "LoopWrite c s x b \<in># T"
  shows "c \<noteq> ch" "s \<noteq> sid"
proof -
  show c: "c \<noteq> ch"
  proof
    assume "c = ch"
    moreover obtain U where "T = add_mset (LoopWrite c s x b) U" using assms(4) by (meson mset_add)
    ultimately show False using served_once [OF assms(1), of ch] assms(3) by simp
  qed
  have "bw_owner w sid = Some (ch, cw)" "bw_owner w s = Some (c, x)"
    using owner_invD(3) [OF assms(2), of "LoopWrite ch sid cw body"] owner_invD(3) [OF assms(2), of "LoopWrite c s x b"]
      assms(3,4) by simp_all
  with c show "s \<noteq> sid" by auto
qed

lemma loop_not_writing:
  assumes "map_inv w" "bw_tasks w = add_mset (Loop ch) T"
  shows "\<not> writing ch s (bw_tasks w)"
proof
  assume "writing ch s (bw_tasks w)"
  then obtain x b where "LoopWrite ch s x b \<in># T" using assms(2) by auto
  then obtain U where "T = add_mset (LoopWrite ch s x b) U" by (meson mset_add)
  then show False using served_once [OF assms(1), of ch] assms(2) by simp
qed

lemma seg_inv_step:
  "broker_step up us w w' \<Longrightarrow> map_inv w \<Longrightarrow> owner_inv w \<Longrightarrow> early_inv w \<Longrightarrow> seg_inv w \<Longrightarrow> seg_inv w'"
proof (induction rule: broker_step.induct)
  case (register fresh conn off w i ch w')
  then show ?case by (intro seg_inv_same [OF register(5)]) auto
next
  case (register_refused fresh conn off w e w')
  then have "w' = w" by (intro register_error)
  then show ?case by (intro seg_inv_same_tasks [OF register_refused(5)]) simp_all
next
  case (loop_text w ch T data)
  then show ?case by (intro seg_inv_same_tasks [OF loop_text(5)]) auto
next
  case (loop_dropped w ch T data sid body)
  have none: "mget (sessions (bw_chan w ch)) sid = None"
    using loop_dropped(2,3) by (auto simp: agent_binary_def split: option.splits)
  have "seg_inv (set_tasks (bw_tasks w) (log_traffic (FromAgent ch sid body) w))"
    using none loop_dropped(6) loop_not_writing [OF loop_dropped(4,1)] by (intro seg_inv_received [OF loop_dropped(7)]) auto
  then show ?case by (subst (asm) set_tasks_id) simp_all
next
  case (loop_binary w ch T data sid cw body)
  have s: "mget (sessions (bw_chan w ch)) sid = Some cw"
    using loop_binary(2) by (auto simp: agent_binary_def split: option.splits)
  show ?case
    using s loop_binary(5) loop_not_writing [OF loop_binary(3,1)] loop_binary(1)
    by (intro seg_inv_received [OF loop_binary(6)]) auto
next
  case (loop_written w ch sid cw body T)
  note one = one_write [OF loop_written(3,4,1)]
  have own: "bw_owner w sid = Some (ch, cw)" using owner_invD(3) [OF loop_written(4)] loop_written(1) by fastforce
  have body: "suffix (delivered sid (bw_log w) @ [body]) (received ch sid (bw_log w))"
    using seg_invD(3) [OF loop_written(6), of ch sid cw body] loop_written(1) by simp
  let ?l = "bw_log w @ [ToConsumer ch sid cw body]"
  have d: "delivered s ?l = (if s = sid then delivered sid (bw_log w) @ [body] else delivered s (bw_log w))" for s
    by (simp add: delivered_append)
  have r: "received c s ?l = received c s (bw_log w)" for c s by (simp add: received_append)
  have 1: "sublist (delivered s ?l) (received c s ?l)" if "bw_owner w s = Some (c, x)" for c s x
    using seg_invD(1) [OF loop_written(6) that] own that body by (auto simp: d r)
  have 2: "suffix (delivered s ?l) (received c s ?l)"
    if m: "mget (sessions (bw_chan w c)) s = Some x" "\<not> writing c s T" for c s x
  proof (cases "s = sid")
    case True
    then have "c = ch" using owner_invD(1) [OF loop_written(4) m(1)] own by simp
    with True body show ?thesis by (simp add: d r)
  next
    case False
    then have "\<not> writing c s (bw_tasks w)" using m(2) loop_written(1) by auto
    with False seg_invD(2) [OF loop_written(6) m(1)] show ?thesis by (simp add: d r)
  qed
  have 3: "suffix (delivered s ?l @ [b]) (received c s ?l)" if "LoopWrite c s x b \<in># T" for c s x b
    using seg_invD(3) [OF loop_written(6), of c s x b] that one(2) [OF that] loop_written(1) by (simp add: d r)
  have 4: "delivered s ?l = [] \<and> LoopWrite c s x b \<notin># T" if "t \<in># T" "s \<in># early_sid t" for t s c x b
    using seg_invD(4,5) [OF loop_written(6), of t s] that loop_written(1) by (auto simp: d)
  show ?case
    unfolding seg_inv_def using 1 2 3 4 by simp
next
  case (loop_write_failed w ch sid cw body T ok)
  let ?w = "closeSession us ch sid ok w"
  note one = one_write [OF loop_write_failed(2,3,1)]
  have gone: "mget (sessions (bw_chan ?w ch)) sid = None" by (simp add: closeSession_def Let_def split: option.split)
  have sub: "sess_sub w ?w" and flow: "same_flow w ?w" by simp_all
  have f: "bw_owner ?w = bw_owner w" "delivered s (bw_log ?w) = delivered s (bw_log w)"
    "received c s (bw_log ?w) = received c s (bw_log w)" for c s using flow unfolding same_flow_def by blast+
  have 2: "suffix (delivered s (bw_log w)) (received c s (bw_log w))"
    if m: "mget (sessions (bw_chan ?w c)) s = Some x" "\<not> writing c s T" for c s x
  proof -
    have "mget (sessions (bw_chan w c)) s = Some x" using sub m(1) unfolding sess_sub_def by blast
    moreover have "(c, s) \<noteq> (ch, sid)" using gone m(1) by auto
    then have "\<not> writing c s (bw_tasks w)" using m(2) loop_write_failed(1) by auto
    ultimately show ?thesis by (rule seg_invD(2) [OF loop_write_failed(5)])
  qed
  have 3: "suffix (delivered s (bw_log w) @ [b]) (received c s (bw_log w))" if "LoopWrite c s x b \<in># T" for c s x b
    using seg_invD(3) [OF loop_write_failed(5), of c s x b] that loop_write_failed(1) by simp
  have 4: "delivered s (bw_log w) = [] \<and> LoopWrite c s x b \<notin># T" if "t \<in># T" "s \<in># early_sid t" for t s c x b
    using seg_invD(4,5) [OF loop_write_failed(5), of t s] that loop_write_failed(1) by simp
  show ?case
    unfolding seg_inv_def using 2 3 4 seg_invD(1) [OF loop_write_failed(5)] by (simp add: f)
next
  case (attach chID cons w ch w' sid)
  then have w': "w' = w" by (auto simp: attach_lookup_def split: option.splits)
  have none: "delivered sid (bw_log w) = []"
  proof -
    have "ToConsumer c sid x b \<notin> set (bw_log w)" for c x b
      using owner_invD(4) [OF attach(4), of "ToConsumer c sid x b"] attach(2) by auto
    then show ?thesis by (rule delivered_none)
  qed
  have new: "LoopWrite c sid x b \<notin># bw_tasks w" for c x b
    using owner_invD(3) [OF attach(4), of "LoopWrite c sid x b"] attach(2) by auto
  show ?case
    unfolding seg_inv_def w' using seg_invD [OF attach(6)] none new by auto
next
  case (attach_none chID cons w w')
  then show ?case by (intro seg_inv_same_tasks [OF attach_none(5)]) auto
next
  case (attach_inserted w ch sid cons T)
  let ?w = "attach_insert ch sid cons w"
  have none: "delivered sid (bw_log w) = []"
    using seg_invD(4) [OF attach_inserted(5), of "AttachInsert ch sid cons" sid] attach_inserted(1) by simp
  have l: "bw_log ?w = bw_log w" "bw_owner ?w = bw_owner w" by (simp_all add: attach_insert_def)
  have 2: "suffix (delivered s (bw_log w)) (received c s (bw_log w))"
    if "mget (sessions (bw_chan ?w c)) s = Some x" "\<not> writing c s T" for c s x
    using that none seg_invD(2) [OF attach_inserted(5), of c s x] attach_inserted(1)
    by (auto simp: attach_insert_def split: if_splits)
  have 3: "suffix (delivered s (bw_log w) @ [b]) (received c s (bw_log w))" if "LoopWrite c s x b \<in># T" for c s x b
    using seg_invD(3) [OF attach_inserted(5), of c s x b] that attach_inserted(1) by simp
  have 4: "delivered s (bw_log w) = [] \<and> LoopWrite c s x b \<notin># T" if "t \<in># T" "s \<in># early_sid t" for t s c x b
    using seg_invD(4,5) [OF attach_inserted(5), of t s] that attach_inserted(1) by simp
  show ?case
    unfolding seg_inv_def using 2 3 4 seg_invD(1) [OF attach_inserted(5)] by (simp add: l)
next
  case (remove_waking w ch T)
  have "seg_inv (set_tasks T (remove_waiters ch w))"
    using remove_waking by (intro seg_inv_same) auto
  then show ?case by (simp add: seg_inv_def)
next
  case (remove_found w ch T ch' w')
  then show ?case by (intro seg_inv_same [OF remove_found(6)]) auto
next
  case (remove_not_found w ch T w')
  then show ?case by (intro seg_inv_same [OF remove_not_found(6)]) auto
next
  case (attach_registered w ch sid cons T k w')
  then show ?case by (intro seg_inv_same [OF attach_registered(6)]) auto
next
  case (pump_sent w ch sid cons T payload)
  then show ?case by (intro seg_inv_same_tasks [OF pump_sent(6)]) auto
qed (rule seg_inv_same, assumption, simp, simp, auto)+

interpretation seg: invariant_system "\<lambda>w. w = NewBroker" "broker_step up us" "\<lambda>w. broker_inv w \<and> seg_inv w"
  for up :: "string \<Rightarrow> uuid option" and us :: "uuid \<Rightarrow> string"
proof
  show "broker_inv w \<and> seg_inv w" if "w = NewBroker" for w
    using that bk.init_inv by (simp add: seg_inv_def NewBroker_sel no_chan_def)
  show "broker_inv w' \<and> seg_inv w'" if "broker_inv w \<and> seg_inv w" "broker_step up us w w'" for w w'
    using that bk.step_inv seg_inv_step unfolding broker_inv_def by metis
qed

lemma reachable_seg: "broker_reachable up us w \<Longrightarrow> seg_inv w"
  using seg.reachable_inv by blast

end
