(* ===== verification/BrokerProps.thy ===== *)
theory BrokerProps
  imports BrokerOrder
begin

text \<open>
  A run of the broker with one provider and one consumer, up to the states the witnesses use, and the
  broker's properties.
\<close>

section \<open>A run\<close>

text \<open>One channel (address 0, agent connection 7) and one consumer (connection 9).\<close>

definition demo_offer :: Offer where
  "demo_offer = \<lparr>LocalHost = ''h'', LocalPort = 22, ChannelID = []\<rparr>"

definition demo_world :: "uuid \<Rightarrow> (uuid, nat) gomap \<Rightarrow> (uuid, nat) gomap \<Rightarrow> bool \<Rightarrow> string option option \<Rightarrow> nat \<Rightarrow>
    nat set \<Rightarrow> task multiset \<Rightarrow> traffic list \<Rightarrow> owners \<Rightarrow> nat set \<Rightarrow> broker_world" where
  "demo_world i ss aw reg m nm cl T l own g =
     \<lparr>bw_chan = (\<lambda>_. no_chan)(0 := \<lparr>co_id = i, agent = 7, offer = demo_offer, sessions = ss, ackWait = aw\<rparr>),
      bw_next = 1, bw_channels = (if reg then [(i, 0)] else []), bw_mail = (\<lambda>_. None)(0 := m), bw_nmail = nm,
      bw_closed = cl, bw_tasks = T, bw_log = l, bw_owner = own, bw_gone = g\<rparr>"

lemma demo_sel [simp]:
  "bw_chan (demo_world i ss aw reg m nm cl T l own g) 0 =
     \<lparr>co_id = i, agent = 7, offer = demo_offer, sessions = ss, ackWait = aw\<rparr>"
  "bw_channels (demo_world i ss aw reg m nm cl T l own g) = (if reg then [(i, 0)] else [])"
  "bw_mail (demo_world i ss aw reg m nm cl T l own g) 0 = m" "bw_nmail (demo_world i ss aw reg m nm cl T l own g) = nm"
  "bw_closed (demo_world i ss aw reg m nm cl T l own g) = cl" "bw_tasks (demo_world i ss aw reg m nm cl T l own g) = T"
  "bw_log (demo_world i ss aw reg m nm cl T l own g) = l" "bw_owner (demo_world i ss aw reg m nm cl T l own g) = own"
  "bw_gone (demo_world i ss aw reg m nm cl T l own g) = g"
  by (simp_all add: demo_world_def)

lemma run_step: "broker_reachable up us w \<Longrightarrow> broker_step up us w w1 \<Longrightarrow> w1 = w2 \<Longrightarrow> broker_reachable up us w2"
  using reachable_from.step by metis

lemma run_start: "broker_reachable up us NewBroker"
  by (rule reachable_from.start) (rule refl)

lemmas demo_ops = demo_world_def upd_chan_def ws_close_def log_traffic_def fun_eq_iff

lemma demo_registered:
  "broker_reachable up us (demo_world i [] [] True None 0 {} {#Registered 0#} [] (\<lambda>_. None) {})"
proof -
  have r: "RegisterProvider up i 7 demo_offer NewBroker =
      (Inr (i, 0), demo_world i [] [] True None 0 {} {#} [] (\<lambda>_. None) {})"
    by (simp add: RegisterProvider_def demo_offer_def NewBroker_def demo_world_def Let_def fun_eq_iff)
  show ?thesis
    by (rule run_step [OF run_start broker_step.register [OF r]]) (simp add: NewBroker_sel, simp add: demo_world_def)
qed

definition demo_own :: "uuid \<Rightarrow> owners" where
  "demo_own sid = (\<lambda>_. None)(sid \<mapsto> (0, 9))"

abbreviation attach_sent_log :: "(uuid \<Rightarrow> string) \<Rightarrow> uuid \<Rightarrow> traffic list" where
  "attach_sent_log us sid \<equiv> [ToAgent 0 (Txt (attach_msg us sid))]"

text \<open>A consumer attaches while the provider's confirmation is not written yet.\<close>

lemma demo_attach_sent:
  "broker_reachable up us (demo_world i [] [(sid, 0)] True None 1 {} {#AttachWait 0 sid 9 0, Registered 0#}
     (attach_sent_log us sid) (demo_own sid) {})"
proof -
  let ?w1 = "demo_world i [] [] True None 0 {} {#AttachStart 0 sid 9, Registered 0#} [] (demo_own sid) {}"
  let ?w2 = "demo_world i [] [(sid, 0)] True None 1 {} {#AttachWrite 0 sid 9 0, Registered 0#} [] (demo_own sid) {}"
  have "broker_reachable up us ?w1"
    by (rule run_step [OF demo_registered broker_step.attach [of i 9 _ 0]])
      (auto simp: attach_lookup_def demo_own_def demo_ops)
  then have "broker_reachable up us ?w2"
    by (rule run_step [OF _ broker_step.attach_registered [OF demo_sel(6) surjective_pairing]])
      (auto simp: attach_register_def Let_def demo_ops)
  then show ?thesis
    by (rule run_step [OF _ broker_step.attach_sent [OF demo_sel(6)]])
      (auto simp: attach_send_def demo_ops)
qed

lemma demo_confirmed:
  "broker_reachable up us (demo_world i [] [(sid, 0)] True None 1 {} {#Loop 0, AttachWait 0 sid 9 0#}
     (attach_sent_log us sid @ [ToAgent 0 (Txt (provider_ack us i))]) (demo_own sid) {})"
  by (rule run_step [OF demo_attach_sent broker_step.ack_sent [where ch = 0 and T = "{#AttachWait 0 sid 9 0#}"]])
    (auto simp: demo_ops)

text \<open>The provider disconnects while the consumer waits.\<close>

lemma demo_disconnected:
  "broker_reachable up us (demo_world i [] [] False (Some (Some ''provider disconnected'')) 1 {7} {#AttachWait 0 sid 9 0#}
     (attach_sent_log us sid @ [ToAgent 0 (Txt (provider_ack us i))]) (demo_own sid) {0})"
proof -
  let ?l = "attach_sent_log us sid @ [ToAgent 0 (Txt (provider_ack us i))]"
  let ?w = "\<lambda>aw reg m T g. demo_world i [] aw reg m 1 {7} (T + {#AttachWait 0 sid 9 0#}) ?l (demo_own sid) g"
  have "broker_reachable up us (?w [(sid, 0)] True None {#Remove1 0#} {})"
    by (rule run_step [OF demo_confirmed broker_step.loop_error [where ch = 0 and T = "{#AttachWait 0 sid 9 0#}"]])
      (auto simp: demo_ops)
  then have "broker_reachable up us (?w [(sid, 0)] False None {#Remove2 0#} {})"
    by (rule run_step [OF _ broker_step.remove_found [where ch = 0 and ch' = 0 and T = "{#AttachWait 0 sid 9 0#}"]])
      (auto simp: remove_take_def demo_ops)
  then have "broker_reachable up us (?w [(sid, 0)] False None {#Remove3 0#} {})"
    by (rule run_step [OF _ broker_step.remove_closing [where ch = 0 and T = "{#AttachWait 0 sid 9 0#}"]])
      (auto simp: remove_sessions_def demo_ops)
  then show ?thesis
    by (rule run_step [OF _ broker_step.remove_waking [where ch = 0 and T = "{#AttachWait 0 sid 9 0#}"]])
      (auto simp: remove_waiters_def post_def demo_ops)
qed

text \<open>The provider accepts the session.\<close>

lemma demo_accepted:
  assumes "decode_attached data = Some \<lparr>am_Cmd = ''attached'', am_SID = s, am_OK = True, am_Error = e\<rparr>" "up s = Some sid"
  shows "broker_reachable up us (demo_world i [] [] True None 1 {} {#AttachInsert 0 sid 9, Loop 0#}
     (attach_sent_log us sid @ [ToAgent 0 (Txt (provider_ack us i))]) (demo_own sid) {})"
proof -
  let ?l = "attach_sent_log us sid @ [ToAgent 0 (Txt (provider_ack us i))]"
  have "broker_reachable up us (demo_world i [] [] True (Some None) 1 {} {#Loop 0, AttachWait 0 sid 9 0#} ?l (demo_own sid) {})"
    by (rule run_step [OF demo_confirmed broker_step.loop_text [where data = data and ch = 0 and T = "{#AttachWait 0 sid 9 0#}"]])
      (use assms in \<open>auto simp: agent_text_def post_def demo_ops\<close>)
  then show ?thesis
    by (rule run_step [OF _ broker_step.attach_accepted [where ch = 0 and T = "{#Loop 0#}"]])
      (auto simp: demo_ops)
qed

text \<open>A frame for the session is delivered to the consumer.\<close>

lemma demo_delivered:
  assumes "decode_attached data = Some \<lparr>am_Cmd = ''attached'', am_SID = s, am_OK = True, am_Error = e\<rparr>" "up s = Some sid"
  shows "broker_reachable up us (demo_world i [(sid, 9)] [] True None 1 {} {#Loop 0, Pump 0 sid 9#}
     (attach_sent_log us sid @ [ToAgent 0 (Txt (provider_ack us i)), FromAgent 0 sid body, ToConsumer 0 sid 9 body])
     (demo_own sid) {})"
proof -
  let ?l = "attach_sent_log us sid @ [ToAgent 0 (Txt (provider_ack us i))]"
  have "broker_reachable up us (demo_world i [(sid, 9)] [] True None 1 {} {#Loop 0, Pump 0 sid 9#} ?l (demo_own sid) {})"
    by (rule run_step [OF demo_accepted [where data = data and s = s and e = e and up = up and sid = sid, OF assms] broker_step.attach_inserted [where ch = 0 and T = "{#Loop 0#}"]])
      (auto simp: attach_insert_def demo_ops)
  then have "broker_reachable up us (demo_world i [(sid, 9)] [] True None 1 {} {#LoopWrite 0 sid 9 body, Pump 0 sid 9#}
      (?l @ [FromAgent 0 sid body]) (demo_own sid) {})"
    by (rule run_step [OF _ broker_step.loop_binary
          [where ch = 0 and T = "{#Pump 0 sid 9#}" and data = "PrependSessionID sid body"]])
      (auto simp: agent_binary_def demo_ops parse_frame)
  then show ?thesis
    by (rule run_step [OF _ broker_step.loop_written [where ch = 0 and T = "{#Pump 0 sid 9#}"]])
      (auto simp: demo_ops)
qed

text \<open>The provider disconnects between its answer and the insertion of the session.\<close>

lemma demo_late:
  assumes "decode_attached data = Some \<lparr>am_Cmd = ''attached'', am_SID = s, am_OK = True, am_Error = e\<rparr>" "up s = Some sid"
  shows "broker_reachable up us (demo_world i [(sid, 9)] [] False None 1 {7} {#Pump 0 sid 9#}
     (attach_sent_log us sid @ [ToAgent 0 (Txt (provider_ack us i))]) (demo_own sid) {0})"
proof -
  let ?l = "attach_sent_log us sid @ [ToAgent 0 (Txt (provider_ack us i))]"
  let ?w = "\<lambda>reg T g. demo_world i [] [] reg None 1 {7} (T + {#AttachInsert 0 sid 9#}) ?l (demo_own sid) g"
  have "broker_reachable up us (?w True {#Remove1 0#} {})"
    by (rule run_step [OF demo_accepted [where data = data and s = s and e = e and up = up and sid = sid, OF assms] broker_step.loop_error [where ch = 0 and T = "{#AttachInsert 0 sid 9#}"]])
      (auto simp: demo_ops)
  then have "broker_reachable up us (?w False {#Remove2 0#} {})"
    by (rule run_step [OF _ broker_step.remove_found [where ch = 0 and ch' = 0 and T = "{#AttachInsert 0 sid 9#}"]])
      (auto simp: remove_take_def demo_ops)
  then have "broker_reachable up us (?w False {#Remove3 0#} {})"
    by (rule run_step [OF _ broker_step.remove_closing [where ch = 0 and T = "{#AttachInsert 0 sid 9#}"]])
      (auto simp: remove_sessions_def demo_ops)
  then have "broker_reachable up us (?w False {#} {0})"
    by (rule run_step [OF _ broker_step.remove_waking [where ch = 0 and T = "{#AttachInsert 0 sid 9#}"]])
      (auto simp: remove_waiters_def demo_ops)
  then show ?thesis
    by (rule run_step [OF _ broker_step.attach_inserted [where ch = 0 and T = "{#}"]])
      (auto simp: attach_insert_def demo_ops)
qed

lemma demo_answer:
  "decode_attached (json_print (JObj [(''cmd'', JStr ''attached''), (''ok'', JBool True)])) =
     Some \<lparr>am_Cmd = ''attached'', am_SID = [], am_OK = True, am_Error = []\<rparr>"
  unfolding decode_attached_def by (subst json_members_print) (simp_all add: utf8_fix_ascii)

section \<open>Properties\<close>

abbreviation demo_up :: "string \<Rightarrow> uuid option" where
  "demo_up \<equiv> \<lambda>_. Some uuid_nil"

abbreviation demo_us :: "uuid \<Rightarrow> string" where
  "demo_us \<equiv> \<lambda>_. []"

definition greeted :: broker_world where
  "greeted = demo_world uuid_nil [(uuid_nil, 9)] [] True None 1 {} {#Loop 0, Pump 0 uuid_nil 9#}
     (attach_sent_log demo_us uuid_nil @ [ToAgent 0 (Txt (provider_ack demo_us uuid_nil)),
        FromAgent 0 uuid_nil [1], ToConsumer 0 uuid_nil 9 [1]]) (demo_own uuid_nil) {}"

definition accepted :: broker_world where
  "accepted = demo_world uuid_nil [] [] True None 1 {} {#AttachInsert 0 uuid_nil 9, Loop 0#}
     (attach_sent_log demo_us uuid_nil @ [ToAgent 0 (Txt (provider_ack demo_us uuid_nil))]) (demo_own uuid_nil) {}"

definition disconnected :: broker_world where
  "disconnected = demo_world uuid_nil [] [] False (Some (Some ''provider disconnected'')) 1 {7}
     {#AttachWait 0 uuid_nil 9 0#}
     (attach_sent_log demo_us uuid_nil @ [ToAgent 0 (Txt (provider_ack demo_us uuid_nil))]) (demo_own uuid_nil) {0}"

lemma demo_reachable_worlds:
  "broker_reachable demo_up demo_us greeted" "broker_reachable demo_up demo_us accepted"
  "broker_reachable demo_up demo_us disconnected"
  unfolding greeted_def accepted_def disconnected_def
  by (rule demo_delivered [OF demo_answer], simp, rule demo_accepted [OF demo_answer], simp, rule demo_disconnected)

text \<open>C7: One provider per channel. In every reachable state of the broker a channel id is active
  exactly when a goroutine is serving a channel of that id (confirming it, reading from its provider,
  or about to remove it), no channel is served twice, and the number of channels is the number of
  these goroutines: a finishing read loop removes its own channel and never another one that was
  registered under the same id.\<close>

theorem broker_serves_registered:
  assumes "broker_reachable up us w"
  shows "(ChannelActive i w \<longleftrightarrow> (\<exists>ch. ch \<in># served (bw_tasks w) \<and> co_id (bw_chan w ch) = i))
    \<and> ChannelCount w = size (served (bw_tasks w))
    \<and> count (served (bw_tasks w)) ch \<le> 1
    \<and> (ch \<in># served (bw_tasks w) \<and> ch' \<in># served (bw_tasks w)
         \<and> co_id (bw_chan w ch) = co_id (bw_chan w ch') \<longrightarrow> ch = ch')"
proof -
  note inv = reachable_invs(1) [OF assms]
  have m: "mset (mvals (bw_channels w)) = served (bw_tasks w)" using map_invD(2) [OF inv] .
  have act: "\<exists>ch. ch \<in># served (bw_tasks w) \<and> co_id (bw_chan w ch) = i" if "mget (bw_channels w) i = Some ch" for ch
    using that map_invD(3) [OF inv that] in_mvals [OF that] m by (metis set_mset_mset)
  have reg: "mget (bw_channels w) (co_id (bw_chan w ch)) = Some ch" if "ch \<in># served (bw_tasks w)" for ch
    using served_registered [OF inv that] .
  have "size (served (bw_tasks w)) = length (bw_channels w)"
    using arg_cong [OF m, of size] by simp
  with act reg served_once [OF inv] show ?thesis
    by (auto simp: ChannelActive_def ChannelCount_def) (metis option.inject)
qed

theorem broker_serves_registered_witness:
  "ChannelActive uuid_nil (demo_world uuid_nil [] [] True None 0 {} {#Registered 0#} [] (\<lambda>_. None) {})"
  using broker_serves_registered [OF demo_registered [of demo_up demo_us uuid_nil], of uuid_nil 0 0] by simp







text \<open>Early data is lost. While a consumer's attach is on its way, up to and including the moment
  after the provider's positive answer was taken, every frame the provider sends for the session is
  dropped: a service that speaks first, over a provider that forwards at once, loses its greeting.\<close>

lemma broker_drops_early_frames:
  assumes "broker_reachable up us w" "t \<in># bw_tasks w" "sid \<in># early_sid t"
  shows "agent_binary ch (PrependSessionID sid payload) w = None"
  using early_invD [OF reachable_invs(4) [OF assms(1)] assms(2,3)]
  by (simp add: agent_binary_def parse_frame)

text \<open>No session without its goroutine. In every reachable state each session in a channel's table
  has the goroutine that reads from its consumer and that will take it out of the table when the
  consumer leaves.\<close>

lemma broker_session_has_pump:
  assumes "broker_reachable up us w" "mget (sessions (bw_chan w ch)) sid = Some c"
  shows "Pump ch sid c \<in># bw_tasks w"
  using pump_invD [OF reachable_invs(5) [OF assms(1)] assms(2)] .


end
