(* ===== verification/ReverseProvider.thy ===== *)
theory ReverseProvider
  imports BrokerProps Streams Counter
begin

text \<open>
  The client's side of the reverse tunnel, \<open>internal/clienttunnel/reverse.go\<close>: the handshake of a
  provider, its message loop with one TCP connection and one goroutine per session, and the accept
  loop of a consumer. As in \<open>Broker\<close>, \<open>up\<close> and \<open>us\<close> stand for the UUID package; what is assumed of
  it is \<open>uuid_text\<close>, its documented behaviour.
\<close>

section \<open>UUID texts\<close>

definition uuid_text :: "(string \<Rightarrow> uuid option) \<Rightarrow> (uuid \<Rightarrow> string) \<Rightarrow> bool" where
  "uuid_text up us \<longleftrightarrow>
     (\<forall>u. up (us u) = Some u \<and> us u \<noteq> [] \<and> list_all (\<lambda>c. is_hex_char c \<or> c = CHR ''-'') (us u))"

lemma uuid_textD:
  assumes "uuid_text up us"
  shows "up (us u) = Some u" "us u \<noteq> []" "list_all (\<lambda>c. is_hex_char c \<or> c = CHR ''-'') (us u)"
  using assms unfolding uuid_text_def by blast+

lemma uuid_text_ascii [simp]: "uuid_text up us \<Longrightarrow> utf8_fix (us u) = us u"
  by (rule utf8_fix_ascii, rule list.pred_mono_strong [OF uuid_textD(3)])
    (auto simp: is_hex_char_def is_digit_def)

lemma uuid_text_trim [simp]: "uuid_text up us \<Longrightarrow> trim_space (us u) = us u"
proof (rule trim_space_plain)
  assume a: "uuid_text up us"
  have plain: "c \<notin> space_heads \<and> c \<notin> space_lasts" if "c \<in> set (us u)" for c
    using uuid_textD(3) [OF a, of u] that hex_no_space
    by (auto simp: list_all_iff space_heads_code space_lasts_code)
  show "hd (us u) \<notin> space_heads" "last (us u) \<notin> space_lasts"
    using plain uuid_textD(2) [OF a, of u] by simp_all
qed

text \<open>A text form with these properties: thirty-two hexadecimal digits, which \<open>uuid.Parse\<close> accepts.\<close>

fun hex_decode :: "string \<Rightarrow> byte list option" where
  "hex_decode [] = Some []"
| "hex_decode [_] = None"
| "hex_decode (a # b # s) =
     (case (hex_value a, hex_value b, hex_decode s) of
        (Some x, Some y, Some bs) \<Rightarrow> Some (of_nat (16 * x + y) # bs)
      | _ \<Rightarrow> None)"

lemma hex_decode_encode [simp]: "hex_decode (hex_encode bs) = Some bs"
proof (induction bs)
  case (Cons b bs)
  have "unat b < 256" using unsigned_less [of b, where ?'a = nat] by simp
  moreover have "(of_nat (16 * (unat b div 16) + unat b mod 16) :: byte) = b"
    by (simp only: mult_div_mod_eq) simp
  ultimately show ?case using Cons by (simp add: hex_encode_def)
qed (simp add: hex_encode_def)

definition hex_uuid_parse :: "string \<Rightarrow> uuid option" where
  "hex_uuid_parse s = (if length s = 32 then map_option mk_uuid (hex_decode s) else None)"

definition hex_uuid_string :: "uuid \<Rightarrow> string" where
  "hex_uuid_string u = hex_encode (uuid_bytes u)"

lemma hex_uuid_text: "uuid_text hex_uuid_parse hex_uuid_string"
proof -
  have "hex_encode (uuid_bytes u) \<noteq> []" for u
    using length_hex_encode [of "uuid_bytes u"] by (simp flip: length_0_conv)
  moreover have "list_all (\<lambda>c. is_hex_char c \<or> c = CHR ''-'') (hex_encode bs)" for bs
    by (rule list.pred_mono_strong [OF hex_encode_chars]) simp
  ultimately show ?thesis
    by (simp add: uuid_text_def hex_uuid_parse_def hex_uuid_string_def)
qed

section \<open>Handshake\<close>

definition offer_msg :: "string \<Rightarrow> int \<Rightarrow> string \<Rightarrow> string" where
  "offer_msg localHost localPort reuse =
     (let cid = trim_space reuse
      in json_print (JObj ((if cid \<noteq> [] then [(''channel_id'', JStr cid)] else [])
           @ [(''local_host'', JStr localHost), (''local_port'', JNum (itoa localPort))])))"

datatype handshake_error = DialError | WriteError | ReadError | DecodeError | Refused string

text \<open>What the provider makes of the server's first message.\<close>

definition handshake_reply :: "string \<Rightarrow> handshake_error + string" where
  "handshake_reply data =
     (case json_members data of
        None \<Rightarrow> Inl DecodeError
      | Some kvs \<Rightarrow>
          (case (bool_field ''ok'' kvs False, str_field ''channel_id'' kvs [], str_field ''error'' kvs []) of
             (Some ok, Some cid, Some err) \<Rightarrow>
               if \<not> ok then Inl (Refused (if err \<noteq> [] then err else ''register failed'')) else Inr cid
           | _ \<Rightarrow> Inl DecodeError))"

text \<open>The outcome, the message written (if any), and whether the connection was closed again. \<open>dialled\<close>:
  the dial succeeded; \<open>reply\<close>: the first message read, \<open>None\<close> if the read failed.\<close>

definition HandshakeReverseProvider ::
  "bool \<Rightarrow> bool \<Rightarrow> string option \<Rightarrow> string \<Rightarrow> int \<Rightarrow> string \<Rightarrow>
     (handshake_error + string) \<times> string option \<times> bool" where
  "HandshakeReverseProvider dialled write_ok reply localHost localPort reuse =
     (let localHost = (if localHost = [] then ''127.0.0.1'' else localHost)
      in if \<not> dialled then (Inl DialError, None, False)
         else
           let ob = offer_msg localHost localPort reuse
           in if \<not> write_ok then (Inl WriteError, None, True)
              else (case reply of
                      None \<Rightarrow> (Inl ReadError, Some ob, True)
                    | Some data \<Rightarrow>
                        (case handshake_reply data of
                           Inl e \<Rightarrow> (Inl e, Some ob, True)
                         | Inr cid \<Rightarrow> (Inr cid, Some ob, False))))"

section \<open>The provider's message loop\<close>

text \<open>
  \<open>rp_sess\<close> is \<open>tcpBySession\<close>; connections to the local service are numbered in the order they are
  opened, and \<open>rp_opened\<close> lists the sessions they were opened for. \<open>rp_ack\<close> is the answer that the loop still has to write before it reads on, \<open>rp_pumps\<close> the
  goroutines \<open>pumpReverseTCPToWS\<close>. \<open>rp_sent\<close> and \<open>rp_written\<close> record what was sent.
\<close>

record rprovider =
  rp_sess :: "(uuid, nat) gomap"
  rp_opened :: "uuid list"
  rp_closed :: "nat set"
  rp_ack :: "string option"
  rp_pumps :: "(uuid \<times> nat) multiset"
  rp_sent :: "wire list"
  rp_written :: "(nat \<times> byte list) list"
  rp_done :: bool

definition rp_init :: rprovider where
  "rp_init = \<lparr>rp_sess = [], rp_opened = [], rp_closed = {}, rp_ack = None, rp_pumps = {#}, rp_sent = [],
     rp_written = [], rp_done = False\<rparr>"

definition attached_ok :: "string \<Rightarrow> string" where
  "attached_ok sidtext = json_print (JObj [(''cmd'', JStr ''attached''), (''ok'', JBool True), (''sid'', JStr sidtext)])"

definition attached_err :: "string \<Rightarrow> string \<Rightarrow> string" where
  "attached_err sidtext e = json_print (JObj [(''cmd'', JStr ''attached''), (''error'', JStr e),
     (''ok'', JBool False), (''sid'', JStr sidtext)])"

definition decode_command :: "string \<Rightarrow> (string \<times> string) option" where
  "decode_command data =
     (case json_members data of
        None \<Rightarrow> None
      | Some kvs \<Rightarrow>
          (case (str_field ''cmd'' kvs [], str_field ''sid'' kvs []) of
             (Some c, Some s) \<Rightarrow> Some (c, s)
           | _ \<Rightarrow> None))"

text \<open>A text message; \<open>dial\<close> is the outcome of \<open>net.Dial\<close>, \<open>Some e\<close> an error.\<close>

definition provider_text :: "(string \<Rightarrow> uuid option) \<Rightarrow> string \<Rightarrow> string option \<Rightarrow> rprovider \<Rightarrow> rprovider" where
  "provider_text up payload dial r =
     (case decode_command payload of
        None \<Rightarrow> r
      | Some (cmd, sidtext) \<Rightarrow>
          (case up sidtext of
             None \<Rightarrow> r
           | Some sid \<Rightarrow>
               if cmd = ''detach'' then
                 (case mget (rp_sess r) sid of
                    None \<Rightarrow> r
                  | Some tc \<Rightarrow> r\<lparr>rp_sess := mdel sid (rp_sess r), rp_closed := insert tc (rp_closed r)\<rparr>)
               else if cmd = ''attach'' then
                 (case dial of
                    Some e \<Rightarrow> r\<lparr>rp_ack := Some (attached_err sidtext e)\<rparr>
                  | None \<Rightarrow>
                      let tc = length (rp_opened r)
                      in r\<lparr>rp_sess := mput sid tc (rp_sess r), rp_opened := rp_opened r @ [sid],
                        rp_pumps := add_mset (sid, tc) (rp_pumps r),
                        rp_ack := Some (attached_ok sidtext)\<rparr>)
               else r))"

text \<open>A binary message; \<open>ok\<close>: the write to the local service succeeds.\<close>

definition provider_binary :: "byte list \<Rightarrow> bool \<Rightarrow> rprovider \<Rightarrow> rprovider" where
  "provider_binary payload ok r =
     (case ParsePrefixedMessage payload of
        None \<Rightarrow> r
      | Some (sid, body) \<Rightarrow>
          (case mget (rp_sess r) sid of
             None \<Rightarrow> r
           | Some tc \<Rightarrow>
               if ok \<and> tc \<notin> rp_closed r then r\<lparr>rp_written := rp_written r @ [(tc, body)]\<rparr>
               else r\<lparr>rp_sess := mdel sid (rp_sess r), rp_closed := insert tc (rp_closed r)\<rparr>))"

text \<open>The goroutine of a session: it forwards what it reads, and on its way out forgets the session and
  closes the connection.\<close>

definition pump_out :: "uuid \<Rightarrow> byte list \<Rightarrow> rprovider \<Rightarrow> rprovider" where
  "pump_out sid data r = r\<lparr>rp_sent := rp_sent r @ [Bin (PrependSessionID sid data)]\<rparr>"

definition pump_end :: "uuid \<Rightarrow> nat \<Rightarrow> rprovider \<Rightarrow> rprovider" where
  "pump_end sid tc r = r\<lparr>rp_sess := mdel sid (rp_sess r), rp_closed := insert tc (rp_closed r),
     rp_pumps := rp_pumps r - {#(sid, tc)#}\<rparr>"

text \<open>\<open>reads\<close>: one \<open>Read\<close> of the goroutine, its data and whether it ended in an error; \<open>ok\<close>: the
  WebSocket write succeeds.\<close>

definition pump_read :: "uuid \<Rightarrow> nat \<Rightarrow> byte list \<Rightarrow> bool \<Rightarrow> bool \<Rightarrow> rprovider \<Rightarrow> rprovider" where
  "pump_read sid tc data err ok r =
     (if data \<noteq> [] \<and> \<not> ok then pump_end sid tc r
      else
        let r1 = (if data \<noteq> [] then pump_out sid data r else r)
        in if err then pump_end sid tc r1 else r1)"

datatype rp_event =
    RText string "string option"
  | RBinary "byte list" bool
  | RError
  | RAck bool
  | RPump uuid nat "byte list" bool bool

text \<open>The loop reads only when no answer is pending and it has not returned.\<close>

fun rp_step :: "(string \<Rightarrow> uuid option) \<Rightarrow> rp_event \<Rightarrow> rprovider \<Rightarrow> rprovider" where
  "rp_step up (RText payload dial) r =
     (if rp_done r \<or> rp_ack r \<noteq> None then r else provider_text up payload dial r)"
| "rp_step up (RBinary payload ok) r =
     (if rp_done r \<or> rp_ack r \<noteq> None then r else provider_binary payload ok r)"
| "rp_step up RError r = (if rp_done r \<or> rp_ack r \<noteq> None then r else r\<lparr>rp_done := True\<rparr>)"
| "rp_step up (RAck ok) r =
     (case rp_ack r of
        None \<Rightarrow> r
      | Some a \<Rightarrow> if ok then r\<lparr>rp_ack := None, rp_sent := rp_sent r @ [Txt a]\<rparr>
                  else r\<lparr>rp_ack := None, rp_done := True\<rparr>)"
| "rp_step up (RPump sid tc data err ok) r =
     (if (sid, tc) \<in># rp_pumps r then pump_read sid tc data err ok r else r)"

fun ServeReverseProvider :: "(string \<Rightarrow> uuid option) \<Rightarrow> rp_event list \<Rightarrow> rprovider \<Rightarrow> rprovider" where
  "ServeReverseProvider up [] r = r"
| "ServeReverseProvider up (e # es) r = ServeReverseProvider up es (rp_step up e r)"

section \<open>The consumer's accept loop\<close>

datatype rc_event = Accepted | AcceptError bool | BridgeEnded

datatype rc_result = Cancelled | AcceptFailed

record rconsumer =
  rc_active :: "64 word"
  rc_result :: "rc_result option"

definition rc_begin :: "rconsumer \<Rightarrow> rconsumer" where
  "rc_begin s = s\<lparr>rc_active := rc_active s + 1\<rparr>"

definition rc_finish :: "rconsumer \<Rightarrow> rconsumer" where
  "rc_finish s = s\<lparr>rc_active := rc_active s - 1\<rparr>"

fun rc_step :: "rc_event \<Rightarrow> rconsumer \<Rightarrow> rconsumer" where
  "rc_step Accepted s = (if rc_result s = None then rc_begin s else s)"
| "rc_step (AcceptError cancelled) s =
     (if rc_result s = None then s\<lparr>rc_result := Some (if cancelled then Cancelled else AcceptFailed)\<rparr> else s)"
| "rc_step BridgeEnded s = rc_finish s"

fun ServeReverseConsumer :: "rc_event list \<Rightarrow> rconsumer \<Rightarrow> rconsumer" where
  "ServeReverseConsumer [] s = s"
| "ServeReverseConsumer (e # es) s = ServeReverseConsumer es (rc_step e s)"

interpretation rcn: live_counter rc_begin rc_finish rc_active
  by unfold_locales (simp_all add: rc_begin_def rc_finish_def)

definition reverseSessionPath :: "string \<Rightarrow> string" where
  "reverseSessionPath channelID = ''/ws/'' @ channelID"

section \<open>Messages are understood\<close>

lemma decode_attach_msg:
  assumes "uuid_text up us"
  shows "decode_command (attach_msg us sid) = Some (''attach'', us sid)"
    "decode_command (detach_msg us sid) = Some (''detach'', us sid)"
  unfolding decode_command_def attach_msg_def detach_msg_def
  by (subst json_members_print; simp add: utf8_fix_ascii uuid_text_ascii [OF assms])+

lemma decode_attached_ok:
  assumes "uuid_text up us"
  shows "decode_attached (attached_ok (us sid)) =
      Some \<lparr>am_Cmd = ''attached'', am_SID = us sid, am_OK = True, am_Error = []\<rparr>"
    "decode_attached (attached_err (us sid) e) =
      Some \<lparr>am_Cmd = ''attached'', am_SID = us sid, am_OK = False, am_Error = utf8_fix e\<rparr>"
  unfolding decode_attached_def attached_ok_def attached_err_def
  by (subst json_members_print; simp add: utf8_fix_ascii uuid_text_ascii [OF assms])+

lemma handshake_reply_ack:
  assumes "uuid_text up us"
  shows "handshake_reply (provider_ack us i) = Inr (us i)"
  unfolding handshake_reply_def provider_ack_def
  by (subst json_members_print; simp add: utf8_fix_ascii uuid_text_ascii [OF assms])

lemma handshake_reply_attach: "handshake_reply (attach_msg us sid) = Inl (Refused ''register failed'')"
  unfolding handshake_reply_def attach_msg_def
  by (subst json_members_print; simp add: utf8_fix_ascii)

lemma decode_offer_msg:
  assumes "uuid_text up us" "utf8_fix h = h" "in_int64 p" "reuse = us i \<or> reuse = []"
  shows "decode_offer (offer_msg h p reuse) = Some \<lparr>LocalHost = h, LocalPort = p, ChannelID = reuse\<rparr>"
proof -
  have "decode_offer (offer_msg h p (us i)) = Some \<lparr>LocalHost = h, LocalPort = p, ChannelID = us i\<rparr>"
    unfolding decode_offer_def offer_msg_def Let_def uuid_text_trim [OF assms(1)]
    using uuid_textD(2) [OF assms(1), of i]
    by (subst json_members_print; auto simp: utf8_fix_ascii uuid_text_ascii [OF assms(1)] assms(2) parse_int_itoa [OF assms(3)])
  moreover have "decode_offer (offer_msg h p []) = Some \<lparr>LocalHost = h, LocalPort = p, ChannelID = []\<rparr>"
    unfolding decode_offer_def offer_msg_def Let_def
    by (subst json_members_print; auto simp: utf8_fix_ascii assms(2) parse_int_itoa [OF assms(3)])
  ultimately show ?thesis using assms(4) by blast
qed

text \<open>C30: Both ends of a reverse tunnel understand each other. For any UUID package whose texts parse
  back, the provider reads the broker's attach and detach messages as those commands for that session,
  the broker reads the provider's answers as acceptance or as refusal with the provider's error text,
  and the provider's handshake takes the channel id out of the server's confirmation.\<close>

theorem reverse_protocol_roundtrip:
  assumes "uuid_text up us"
  shows "decode_command (attach_msg us sid) = Some (''attach'', us sid)
    \<and> decode_command (detach_msg us sid) = Some (''detach'', us sid)
    \<and> decode_attached (attached_ok (us sid)) =
        Some \<lparr>am_Cmd = ''attached'', am_SID = us sid, am_OK = True, am_Error = []\<rparr>
    \<and> decode_attached (attached_err (us sid) e) =
        Some \<lparr>am_Cmd = ''attached'', am_SID = us sid, am_OK = False, am_Error = utf8_fix e\<rparr>
    \<and> handshake_reply (provider_ack us i) = Inr (us i) \<and> up (us sid) = Some sid"
  using decode_attach_msg [OF assms] decode_attached_ok [OF assms] handshake_reply_ack [OF assms]
    uuid_textD(1) [OF assms] by simp

theorem reverse_protocol_roundtrip_witness:
  "decode_command (attach_msg hex_uuid_string uuid_nil) = Some (''attach'', hex_uuid_string uuid_nil)"
  using reverse_protocol_roundtrip [OF hex_uuid_text, of uuid_nil "[]" uuid_nil] by simp

lemma RegisterProvider_reclaim:
  assumes "1 \<le> LocalPort off" "LocalPort off \<le> 65535" "trim_space (ChannelID off) = t" "t \<noteq> []" "up t = Some i"
    and "mget (bw_channels w) i = None"
  shows "fst (RegisterProvider up fresh conn off w) = Inr (i, bw_next w)
    \<and> ChannelActive i (snd (RegisterProvider up fresh conn off w))"
  using assms by (cases "LocalHost off = []") (simp_all add: RegisterProvider_def Let_def ChannelActive_def)

text \<open>A provider gets its channel back. When a provider that was given a channel id offers it again
  and the channel is not active any more, whatever else the broker has served in between, the broker
  registers the provider under that very id and confirms it, and the handshake returns the same text
  the provider had before.\<close>

lemma provider_reclaims_channel:
  assumes "uuid_text up us" "utf8_fix h = h" "1 \<le> p" "p \<le> 65535" "\<not> ChannelActive i w"
  shows "\<exists>off w'. decode_offer (offer_msg h p (us i)) = Some off
    \<and> RegisterProvider up fresh conn off w = (Inr (i, bw_next w), w')
    \<and> ChannelActive i w'
    \<and> HandshakeReverseProvider True True (Some (provider_ack us i)) h p (us i)
        = (Inr (us i), Some (offer_msg (if h = [] then ''127.0.0.1'' else h) p (us i)), False)"
proof -
  have "decode_offer (offer_msg h p (us i)) = Some \<lparr>LocalHost = h, LocalPort = p, ChannelID = us i\<rparr>"
    using assms decode_offer_msg [OF assms(1,2), of p "us i" i] by (simp add: in_int64_def)
  moreover have "fst (RegisterProvider up fresh conn \<lparr>LocalHost = h, LocalPort = p, ChannelID = us i\<rparr> w)
      = Inr (i, bw_next w)
    \<and> ChannelActive i (snd (RegisterProvider up fresh conn \<lparr>LocalHost = h, LocalPort = p, ChannelID = us i\<rparr> w))"
    using assms uuid_textD(1,2) [OF assms(1), of i] uuid_text_trim [OF assms(1), of i]
    by (intro RegisterProvider_reclaim [of _ "us i"]) (simp_all add: ChannelActive_def)
  ultimately show ?thesis
    by (intro exI conjI) (auto simp: prod_eq_iff HandshakeReverseProvider_def Let_def handshake_reply_ack [OF assms(1)])
qed

text \<open>C34: A consumer that comes too early breaks the handshake. The channel is visible from its
  registration on, before the confirmation is written; there is a run in which a consumer's attach
  message overtakes the confirmation, and the provider, reading it as the server's answer, gives up
  with ``register failed'' although the broker goes on to serve its channel.\<close>

theorem early_attach_breaks_handshake:
  "\<exists>w. broker_reachable up us w \<and> ChannelActive i w
     \<and> bw_log w = [ToAgent 0 (Txt (attach_msg us sid)), ToAgent 0 (Txt (provider_ack us i))]
     \<and> HandshakeReverseProvider True True (Some (attach_msg us sid)) h p reuse
         = (Inl (Refused ''register failed''), Some (offer_msg (if h = [] then ''127.0.0.1'' else h) p reuse), True)"
  by (rule exI, rule conjI [OF demo_confirmed [of up us i sid]])
    (auto simp: ChannelActive_def HandshakeReverseProvider_def Let_def handshake_reply_attach)

section \<open>The provider's sessions\<close>

definition rp_inv :: "rprovider \<Rightarrow> bool" where
  "rp_inv r \<longleftrightarrow>
     (\<forall>sid tc. mget (rp_sess r) sid = Some tc \<longrightarrow> (sid, tc) \<in># rp_pumps r \<and> tc \<notin> rp_closed r)
     \<and> (\<forall>sid tc. (sid, tc) \<in># rp_pumps r \<longrightarrow> tc < length (rp_opened r) \<and> rp_opened r ! tc = sid)
     \<and> (\<forall>tc \<in> rp_closed r. tc < length (rp_opened r))
     \<and> (\<forall>p. count (rp_pumps r) p \<le> 1)"

lemma rp_invD:
  assumes "rp_inv r"
  shows "mget (rp_sess r) sid = Some tc \<Longrightarrow> (sid, tc) \<in># rp_pumps r"
    "mget (rp_sess r) sid = Some tc \<Longrightarrow> tc \<notin> rp_closed r"
    "(sid, tc) \<in># rp_pumps r \<Longrightarrow> tc < length (rp_opened r)"
    "(sid, tc) \<in># rp_pumps r \<Longrightarrow> rp_opened r ! tc = sid"
    "tc \<in> rp_closed r \<Longrightarrow> tc < length (rp_opened r)"
    "count (rp_pumps r) p \<le> 1"
  using assms unfolding rp_inv_def by blast+

lemma rp_inv_init [wf_intros, simp]: "rp_inv rp_init"
  by (simp add: rp_inv_def rp_init_def)

lemma rp_inv_same_tables:
  "rp_inv r \<Longrightarrow> rp_sess r' = rp_sess r \<Longrightarrow> rp_pumps r' = rp_pumps r \<Longrightarrow> rp_closed r' = rp_closed r \<Longrightarrow>
     rp_opened r' = rp_opened r \<Longrightarrow> rp_inv r'"
  by (simp add: rp_inv_def)

text \<open>Forgetting a session and closing its connection, with or without ending its goroutine.\<close>

lemma rp_inv_drop:
  assumes "rp_inv r" "(sid, tc) \<in># rp_pumps r" "rp_sess r' = mdel sid (rp_sess r)"
    "rp_closed r' = insert tc (rp_closed r)" "rp_opened r' = rp_opened r"
    "rp_pumps r' = rp_pumps r \<or> rp_pumps r' = rp_pumps r - {#(sid, tc)#}"
  shows "rp_inv r'"
proof -
  note i = rp_invD [OF assms(1)]
  have sub: "p \<in># rp_pumps r' \<Longrightarrow> p \<in># rp_pumps r" for p
    using assms(6) by (auto dest: in_diffD)
  have cnt: "count (rp_pumps r') p \<le> 1" for p
    using assms(6) i(6) [of p] by auto
  have "(s, c) \<in># rp_pumps r' \<and> c \<notin> rp_closed r'" if m: "mget (rp_sess r') s = Some c" for s c
  proof -
    have s: "s \<noteq> sid" "mget (rp_sess r) s = Some c" using m assms(3) by (auto split: if_splits)
    have "c \<noteq> tc"
      using i(4) [OF i(1) [OF s(2)]] i(4) [OF assms(2)] s(1) by auto
    moreover have "(s, c) \<in># rp_pumps r'"
      using assms(6) i(1) [OF s(2)] s(1) by (elim disjE) (simp_all add: in_diff_count)
    ultimately show ?thesis using i(2) [OF s(2)] assms(4) by simp
  qed
  moreover have "c < length (rp_opened r') \<and> rp_opened r' ! c = s" if "(s, c) \<in># rp_pumps r'" for s c
    using i(3,4) sub [OF that] assms(5) by auto
  moreover have "\<forall>c \<in> rp_closed r'. c < length (rp_opened r')"
    using i(3) [OF assms(2)] i(5) assms(4,5) by auto
  ultimately show ?thesis using cnt unfolding rp_inv_def by blast
qed

lemma rp_inv_open:
  assumes "rp_inv r"
  shows "rp_inv (r\<lparr>rp_sess := mput sid (length (rp_opened r)) (rp_sess r), rp_opened := rp_opened r @ [sid],
    rp_pumps := add_mset (sid, length (rp_opened r)) (rp_pumps r), rp_ack := a\<rparr>)"
proof -
  note i = rp_invD [OF assms]
  have new: "(s, length (rp_opened r)) \<notin># rp_pumps r" for s using i(3) by fastforce
  then have "count (rp_pumps r) (s, length (rp_opened r)) = 0" for s by (simp add: not_in_iff)
  moreover have "length (rp_opened r) \<notin> rp_closed r" using i(5) by fastforce
  ultimately show ?thesis
    using i unfolding rp_inv_def
    by (auto simp: nth_append less_SucI split: if_splits)
qed

text \<open>What one event can add to the records.\<close>

definition rp_effect :: "rp_event \<Rightarrow> rprovider \<Rightarrow> rprovider \<Rightarrow> bool" where
  "rp_effect e r r' \<longleftrightarrow>
     (\<exists>xs. rp_opened r' = rp_opened r @ xs)
     \<and> (rp_written r' = rp_written r
        \<or> (\<exists>payload ok sid body tc. e = RBinary payload ok \<and> ParsePrefixedMessage payload = Some (sid, body)
             \<and> rp_written r' = rp_written r @ [(tc, body)] \<and> tc < length (rp_opened r) \<and> rp_opened r ! tc = sid))
     \<and> (rp_sent r' = rp_sent r \<or> (\<exists>a. rp_sent r' = rp_sent r @ [Txt a])
        \<or> (\<exists>tc data. rp_sent r' = rp_sent r @ [Bin (PrependSessionID (rp_opened r ! tc) data)]
             \<and> tc < length (rp_opened r)))"

lemma rp_step_spec:
  assumes "rp_inv r"
  shows "rp_inv (rp_step up e r) \<and> rp_effect e r (rp_step up e r)"
proof (cases e)
  case (RText payload dial)
  have "rp_inv (provider_text up payload dial r) \<and> rp_effect e r (provider_text up payload dial r)"
  proof (cases "\<exists>sidtext sid. decode_command payload = Some (''detach'', sidtext) \<and> up sidtext = Some sid \<and> mget (rp_sess r) sid \<noteq> None")
    case True
    then obtain sidtext sid tc where d: "decode_command payload = Some (''detach'', sidtext)" "up sidtext = Some sid"
      "mget (rp_sess r) sid = Some tc" by auto
    then have e: "provider_text up payload dial r = r\<lparr>rp_sess := mdel sid (rp_sess r), rp_closed := insert tc (rp_closed r)\<rparr>"
      by (simp add: provider_text_def)
    show ?thesis unfolding e
      using rp_inv_drop [OF assms rp_invD(1) [OF assms d(3)]] by (simp add: rp_effect_def)
  next
    case False
    then show ?thesis
      using assms rp_inv_open [OF assms]
      by (auto simp: provider_text_def Let_def rp_effect_def split: option.splits
          intro: rp_inv_same_tables [OF assms])
  qed
  with assms RText show ?thesis by (simp add: rp_effect_def)
next
  case (RBinary payload ok)
  have "rp_inv (provider_binary payload ok r) \<and> rp_effect e r (provider_binary payload ok r)"
  proof (cases "\<exists>sid body tc. ParsePrefixedMessage payload = Some (sid, body) \<and> mget (rp_sess r) sid = Some tc")
    case True
    then obtain sid body tc where p: "ParsePrefixedMessage payload = Some (sid, body)" "mget (rp_sess r) sid = Some tc"
      by blast
    note t = rp_invD(1) [OF assms p(2)]
    have "rp_inv (r\<lparr>rp_sess := mdel sid (rp_sess r), rp_closed := insert tc (rp_closed r)\<rparr>)"
      by (rule rp_inv_drop [OF assms t]) simp_all
    moreover have "rp_inv (r\<lparr>rp_written := rp_written r @ [(tc, body)]\<rparr>)"
      by (rule rp_inv_same_tables [OF assms]) simp_all
    ultimately show ?thesis
      using RBinary p rp_invD(3,4) [OF assms t] by (auto simp: provider_binary_def rp_effect_def)
  next
    case False
    with assms show ?thesis by (auto simp: provider_binary_def rp_effect_def split: option.splits)
  qed
  with assms RBinary show ?thesis by (simp add: rp_effect_def)
next
  case RError
  then show ?thesis using rp_inv_same_tables [OF assms] by (auto simp: rp_effect_def)
next
  case (RAck ok)
  then show ?thesis using assms by (auto simp: rp_effect_def split: option.split intro: rp_inv_same_tables [OF assms])
next
  case (RPump sid tc data err ok)
  show ?thesis
  proof (cases "(sid, tc) \<in># rp_pumps r")
    case True
    note o = rp_invD(3,4) [OF assms True]
    have end_inv: "rp_inv (pump_end sid tc r)" "rp_inv (pump_end sid tc (pump_out sid data r))"
      by (rule rp_inv_drop [OF assms True]; simp add: pump_end_def pump_out_def)+
    have out_inv: "rp_inv (pump_out sid data r)"
      by (rule rp_inv_same_tables [OF assms]) (simp_all add: pump_out_def)
    have "rp_effect e r (pump_read sid tc data err ok r)"
      using o by (auto simp: pump_read_def rp_effect_def pump_end_def pump_out_def Let_def)
    moreover have "rp_inv (pump_read sid tc data err ok r)"
      using end_inv out_inv assms by (simp add: pump_read_def Let_def)
    ultimately show ?thesis using RPump True by simp
  next
    case False
    with RPump assms show ?thesis by (simp add: rp_effect_def)
  qed
qed

lemma ServeReverseProvider_snoc:
  "ServeReverseProvider up (es @ [e]) r = rp_step up e (ServeReverseProvider up es r)"
  by (induction es arbitrary: r) auto

lemma ServeReverseProvider_inv: "rp_inv r \<Longrightarrow> rp_inv (ServeReverseProvider up es r)"
  by (induction es arbitrary: r) (auto simp: rp_step_spec)

fun frames_for :: "uuid \<Rightarrow> rp_event list \<Rightarrow> byte list list" where
  "frames_for sid [] = []"
| "frames_for sid (RBinary payload _ # es) =
     (case ParsePrefixedMessage payload of
        Some (s, body) \<Rightarrow> if s = sid then body # frames_for sid es else frames_for sid es
      | None \<Rightarrow> frames_for sid es)"
| "frames_for sid (_ # es) = frames_for sid es"

lemma frames_for_append: "frames_for sid (es @ fs) = frames_for sid es @ frames_for sid fs"
  by (induction sid es rule: frames_for.induct) (auto split: option.split)

definition written_to :: "nat \<Rightarrow> rprovider \<Rightarrow> byte list list" where
  "written_to tc r = map snd (filter (\<lambda>x. fst x = tc) (rp_written r))"

lemma written_bound: "(tc, b) \<in> set (rp_written (ServeReverseProvider up es rp_init)) \<Longrightarrow>
    tc < length (rp_opened (ServeReverseProvider up es rp_init))"
proof (induction es rule: rev_induct)
  case (snoc e es)
  have "rp_effect e (ServeReverseProvider up es rp_init) (ServeReverseProvider up (es @ [e]) rp_init)"
    using rp_step_spec [OF ServeReverseProvider_inv [OF rp_inv_init]] by (simp add: ServeReverseProvider_snoc)
  with snoc show ?case by (fastforce simp: rp_effect_def)
qed (simp add: rp_init_def)

lemma provider_in_order:
  "tc < length (rp_opened (ServeReverseProvider up es rp_init)) \<Longrightarrow>
     subseq (written_to tc (ServeReverseProvider up es rp_init))
       (frames_for (rp_opened (ServeReverseProvider up es rp_init) ! tc) es)"
proof (induction es rule: rev_induct)
  case (snoc e es)
  let ?r = "ServeReverseProvider up es rp_init" and ?s = "ServeReverseProvider up (es @ [e]) rp_init"
  have eff: "rp_effect e ?r ?s"
    using rp_step_spec [OF ServeReverseProvider_inv [OF rp_inv_init]] by (simp add: ServeReverseProvider_snoc)
  then obtain xs where xs: "rp_opened ?s = rp_opened ?r @ xs" by (auto simp: rp_effect_def)
  show ?case
  proof (cases "tc < length (rp_opened ?r)")
    case True
    with xs have o: "rp_opened ?s ! tc = rp_opened ?r ! tc" by (simp add: nth_append)
    note IH = snoc.IH [OF True]
    from eff consider "rp_written ?s = rp_written ?r"
      | payload ok sid body c where "e = RBinary payload ok" "ParsePrefixedMessage payload = Some (sid, body)"
        "rp_written ?s = rp_written ?r @ [(c, body)]" "rp_opened ?r ! c = sid"
      by (auto simp: rp_effect_def)
    then show ?thesis
    proof cases
      case 1
      then show ?thesis using IH by (simp add: o written_to_def frames_for_append list_emb_prefix)
    next
      case 2
      show ?thesis
        unfolding o written_to_def 2(3) unfolding frames_for_append 2(1)
        using IH 2(2,4) by (auto simp: written_to_def list_emb_prefix list_emb_append_mono)
    qed
  next
    case False
    then have none: "(tc, b) \<notin> set (rp_written ?r)" for b using written_bound by blast
    from eff have "rp_written ?s = rp_written ?r \<or> (\<exists>c b. rp_written ?s = rp_written ?r @ [(c, b)] \<and> c < length (rp_opened ?r))"
      by (auto simp: rp_effect_def)
    with none False have "written_to tc ?s = []"
      by (auto simp: written_to_def filter_empty_conv)
    then show ?thesis by simp
  qed
qed (simp add: rp_init_def)

lemma provider_sends_sessions:
  "Bin f \<in> set (rp_sent (ServeReverseProvider up es rp_init)) \<Longrightarrow>
     \<exists>tc data. tc < length (rp_opened (ServeReverseProvider up es rp_init))
       \<and> f = PrependSessionID (rp_opened (ServeReverseProvider up es rp_init) ! tc) data"
proof (induction es rule: rev_induct)
  case (snoc e es)
  let ?r = "ServeReverseProvider up es rp_init" and ?s = "ServeReverseProvider up (es @ [e]) rp_init"
  have eff: "rp_effect e ?r ?s"
    using rp_step_spec [OF ServeReverseProvider_inv [OF rp_inv_init]] by (simp add: ServeReverseProvider_snoc)
  then obtain xs where xs: "rp_opened ?s = rp_opened ?r @ xs" by (auto simp: rp_effect_def)
  have "\<exists>tc data. tc < length (rp_opened ?r) \<and> f = PrependSessionID (rp_opened ?r ! tc) data"
  proof (cases "Bin f \<in> set (rp_sent ?r)")
    case True
    then show ?thesis by (rule snoc.IH)
  next
    case False
    with eff snoc.prems obtain tc data where "tc < length (rp_opened ?r)"
      "rp_sent ?s = rp_sent ?r @ [Bin (PrependSessionID (rp_opened ?r ! tc) data)]"
      by (auto simp: rp_effect_def)
    with False snoc.prems show ?thesis by (intro exI [of _ tc] exI [of _ data]) simp
  qed
  then obtain tc data where t: "tc < length (rp_opened ?r)" "f = PrependSessionID (rp_opened ?r ! tc) data" by blast
  with xs show ?case by (intro exI [of _ tc] exI [of _ data]) (simp add: nth_append)
qed (simp add: rp_init_def)

text \<open>C11: The provider keeps its sessions apart. Whatever messages, dial outcomes, reads and failures
  occur in whatever order, the data written to a connection to the local service is, in order, a
  subsequence of the payloads of the frames for the session that connection was opened for; and every
  frame the provider sends carries the session of one of its connections.\<close>

theorem provider_sessions_isolated:
  assumes "tc < length (rp_opened (ServeReverseProvider up es rp_init))"
  shows "subseq (written_to tc (ServeReverseProvider up es rp_init))
      (frames_for (rp_opened (ServeReverseProvider up es rp_init) ! tc) es)
    \<and> (Bin f \<in> set (rp_sent (ServeReverseProvider up es rp_init)) \<longrightarrow>
        (\<exists>sid data. sid \<in> set (rp_opened (ServeReverseProvider up es rp_init)) \<and> f = PrependSessionID sid data))"
  using provider_in_order [OF assms] provider_sends_sessions [of f up es] by (auto intro: nth_mem)

text \<open>An established session is a faithful pipe towards the local service: as long as the writes
  succeed, frames for the session are written to its connection completely and in order.\<close>

lemma provider_forwards_session:
  assumes "mget (rp_sess r) sid = Some tc" "tc \<notin> rp_closed r" "rp_ack r = None" "\<not> rp_done r"
  shows "ServeReverseProvider up (map (\<lambda>p. RBinary (PrependSessionID sid p) True) ps) r
    = r\<lparr>rp_written := rp_written r @ map (\<lambda>p. (tc, p)) ps\<rparr>"
  using assms
proof (induction ps arbitrary: r)
  case (Cons p ps)
  then show ?case by (simp add: provider_binary_def parse_frame)
qed simp

text \<open>The provider may speak before it answers. The goroutine that reads from the local service is
  started before the positive answer is written, so a service that speaks first can have its data on
  the wire before the answer, at a time when the broker drops it.\<close>

lemma provider_may_speak_before_answer:
  assumes "uuid_text up us" "greeting \<noteq> []"
  shows "rp_sent (ServeReverseProvider up
      [RText (attach_msg us sid) None, RPump sid 0 greeting False True, RAck True] rp_init)
    = [Bin (PrependSessionID sid greeting), Txt (attached_ok (us sid))]"
  using assms(2) uuid_textD(1) [OF assms(1)]
  by (simp add: provider_text_def decode_attach_msg [OF assms(1)] rp_init_def Let_def pump_read_def pump_out_def)

text \<open>Losing the server leaks connections. When the provider's WebSocket fails the loop returns and
  leaves the sessions' connections as they are: such a connection stays open for as long as its own
  goroutine does not read anything from the local service, whatever else happens.\<close>

lemma provider_leaks_on_disconnect:
  assumes "mget (rp_sess r) sid = Some tc" "tc \<notin> rp_closed r" "rp_ack r = None"
    and "list_all (\<lambda>e. case e of RPump _ c _ _ _ \<Rightarrow> c \<noteq> tc | _ \<Rightarrow> True) es"
  shows "rp_done (ServeReverseProvider up (RError # es) r)
    \<and> tc \<notin> rp_closed (ServeReverseProvider up (RError # es) r)"
proof -
  have "rp_done r \<Longrightarrow> tc \<notin> rp_closed r \<Longrightarrow> list_all (\<lambda>e. case e of RPump _ c _ _ _ \<Rightarrow> c \<noteq> tc | _ \<Rightarrow> True) es \<Longrightarrow>
      rp_done (ServeReverseProvider up es r) \<and> tc \<notin> rp_closed (ServeReverseProvider up es r)" for r
  proof (induction es arbitrary: r)
    case (Cons e es)
    have "rp_done (rp_step up e r) \<and> tc \<notin> rp_closed (rp_step up e r)"
      using Cons.prems by (cases e) (auto simp: pump_read_def pump_end_def pump_out_def Let_def split: option.split)
    with Cons show ?case by simp
  qed simp
  then show ?thesis using assms by simp
qed

definition one_session :: rprovider where
  "one_session = rp_init\<lparr>rp_sess := [(uuid_nil, 0)], rp_opened := [uuid_nil], rp_pumps := {#(uuid_nil, 0)#}\<rparr>"

theorem provider_sessions_isolated_witness:
  "subseq (written_to 0 (ServeReverseProvider hex_uuid_parse [RText (attach_msg hex_uuid_string uuid_nil) None] rp_init))
     (frames_for uuid_nil [RText (attach_msg hex_uuid_string uuid_nil) None])"
proof -
  have "rp_opened (ServeReverseProvider hex_uuid_parse [RText (attach_msg hex_uuid_string uuid_nil) None] rp_init)
      = [uuid_nil]"
    using uuid_textD(1) [OF hex_uuid_text]
    by (simp add: provider_text_def decode_attach_msg [OF hex_uuid_text] rp_init_def Let_def)
  then show ?thesis
    using provider_sessions_isolated [of 0 hex_uuid_parse "[RText (attach_msg hex_uuid_string uuid_nil) None]"] by simp
qed

end
