(* ===== verification/RowOrder.thy ===== *)
theory RowOrder
  imports Prelude
begin

text \<open>
  The orders in which the client lists its tunnels (the comparison functions given to
  \<open>sort.Slice\<close> in \<open>internal/clienttunnel\<close>), as instances of \<open>linorder\<close>, so that the library's
  \<open>sort_key\<close> and its laws apply to them.
\<close>

section \<open>By port, then id\<close>

datatype row_key = RowKey (rk_port: int) (rk_id: string)

definition row_before :: "row_key \<Rightarrow> row_key \<Rightarrow> bool" where
  "row_before a b =
     (if rk_port a \<noteq> rk_port b then rk_port a < rk_port b else rk_id a < rk_id b)"

instantiation row_key :: linorder
begin

definition less_row_key :: "row_key \<Rightarrow> row_key \<Rightarrow> bool" where
  "less_row_key = row_before"

definition less_eq_row_key :: "row_key \<Rightarrow> row_key \<Rightarrow> bool" where
  "less_eq_row_key a b \<longleftrightarrow> a < b \<or> a = b"

instance
proof
  fix x y z :: row_key
  show "x < y \<longleftrightarrow> x \<le> y \<and> \<not> y \<le> x" "x \<le> x"
    "x \<le> y \<Longrightarrow> y \<le> z \<Longrightarrow> x \<le> z" "x \<le> y \<Longrightarrow> y \<le> x \<Longrightarrow> x = y"
    by (auto simp: less_row_key_def row_before_def less_eq_row_key_def split: if_splits)
  show "x \<le> y \<or> y \<le> x"
    by (cases x; cases y) (auto simp: less_row_key_def row_before_def less_eq_row_key_def)
qed

end

section \<open>By listening address, then id\<close>

datatype listen_key = ListenKey (lk_listen: string) (lk_id: string)

definition listen_before :: "listen_key \<Rightarrow> listen_key \<Rightarrow> bool" where
  "listen_before a b =
     (if lk_listen a \<noteq> lk_listen b then lk_listen a < lk_listen b else lk_id a < lk_id b)"

instantiation listen_key :: linorder
begin

definition less_listen_key :: "listen_key \<Rightarrow> listen_key \<Rightarrow> bool" where
  "less_listen_key = listen_before"

definition less_eq_listen_key :: "listen_key \<Rightarrow> listen_key \<Rightarrow> bool" where
  "less_eq_listen_key a b \<longleftrightarrow> a < b \<or> a = b"

instance
proof
  fix x y z :: listen_key
  show "x < y \<longleftrightarrow> x \<le> y \<and> \<not> y \<le> x" "x \<le> x"
    "x \<le> y \<Longrightarrow> y \<le> z \<Longrightarrow> x \<le> z" "x \<le> y \<Longrightarrow> y \<le> x \<Longrightarrow> x = y"
    by (auto simp: less_listen_key_def listen_before_def less_eq_listen_key_def split: if_splits)
  show "x \<le> y \<or> y \<le> x"
    by (cases x; cases y) (auto simp: less_listen_key_def listen_before_def less_eq_listen_key_def)
qed

end

section \<open>Sorting a map's entries\<close>

text \<open>Any sorted arrangement of distinct keys is the one \<open>sort_key\<close> computes.\<close>

lemma sorted_arrangement:
  "inj_on f (set xs) \<Longrightarrow> mset out = mset xs \<Longrightarrow> sorted (map f out) \<Longrightarrow> sort_key f xs = out"
  by (rule sort_key_inj_key_eq) simp_all

end
