(* ===== verification/ReverseManager.thy ===== *)
theory ReverseManager
  imports Bindings ReverseProvider RowOrder
begin

text \<open>
  The client's manager of reverse tunnels, \<open>internal/clienttunnel/reverse_manager.go\<close>, with the
  persisted entries of \<open>registry.go\<close>. A WebSocket or a listener is a number; the field of a nil
  pointer is \<open>None\<close> (or \<open>False\<close> for the channels that only signal an end). Each operation is
  sequential: waiting for a goroutine is the effect of its end. What the network did, what a
  goroutine returned and the random ids are arguments.
\<close>

declare map_of_eq_Some_iff [simp del]

section \<open>Persisted entries\<close>

record ProviderPersist =
  pp_ID :: string
  pp_ServerURL :: string
  pp_LocalHost :: string
  pp_LocalPort :: int
  pp_APIKey :: string
  pp_ChannelID :: string
  pp_Enabled :: "bool option"

record ConsumerPersist =
  cp_ID :: string
  cp_Listen :: string
  cp_ServerURL :: string
  cp_APIKey :: string
  cp_Enabled :: "bool option"
  cp_LegacyChannelID :: string

definition pp_EffectiveEnabled :: "ProviderPersist \<Rightarrow> bool" where
  "pp_EffectiveEnabled p \<longleftrightarrow> pp_Enabled p = None \<or> pp_Enabled p = Some True"

definition cp_EffectiveEnabled :: "ConsumerPersist \<Rightarrow> bool" where
  "cp_EffectiveEnabled c \<longleftrightarrow> cp_Enabled c = None \<or> cp_Enabled c = Some True"

definition normalizeReverseProviderPersist :: "ProviderPersist \<Rightarrow> ProviderPersist" where
  "normalizeReverseProviderPersist p =
     (let host = trim_space (pp_LocalHost p)
      in p\<lparr>pp_ServerURL := NormalizeServerURLForWS (trim_space (pp_ServerURL p)),
           pp_LocalHost := (if host = [] then ''127.0.0.1'' else host),
           pp_APIKey := trim_space (pp_APIKey p), pp_ID := trim_space (pp_ID p),
           pp_ChannelID := trim_space (pp_ChannelID p)\<rparr>)"

definition NormalizeReverseConsumerPersist :: "ConsumerPersist \<Rightarrow> ConsumerPersist" where
  "NormalizeReverseConsumerPersist c =
     (let legacy = trim_space (cp_LegacyChannelID c); i = trim_space (cp_ID c)
      in c\<lparr>cp_ServerURL := NormalizeServerURLForWS (trim_space (cp_ServerURL c)),
           cp_Listen := trim_space (cp_Listen c), cp_APIKey := trim_space (cp_APIKey c),
           cp_ID := (if legacy \<noteq> [] then legacy else i), cp_LegacyChannelID := []\<rparr>)"

section \<open>Errors and state\<close>

datatype rm_error =
    NoServerURL | BadLocalPort | ConsumerFieldsMissing
  | ListenHitsTarget string string int
  | TargetTaken int
  | ListenTaken string
  | StillRunning
  | HandshakeFailed handshake_error
  | ListenRefused string
  | ServeFailed string

record prov_inst =
  pi_cfg :: ProviderPersist
  pi_channelID :: string
  pi_ws :: "nat option"
  pi_serveDone :: bool
  pi_lastRunErr :: "rm_error option"

record cons_inst =
  ci_cfg :: ConsumerPersist
  ci_done :: bool
  ci_lastRunErr :: "rm_error option"
  ci_cancel :: bool
  ci_listener :: "nat option"
  ci_activeBridges :: "64 word"

text \<open>\<open>rm_fresh\<close> numbers the connections and listeners made so far.\<close>

record rev_manager =
  rm_providers :: "(string, prov_inst) gomap"
  rm_consumers :: "(string, cons_inst) gomap"
  rm_fresh :: nat

definition NewReverseManager :: rev_manager where
  "NewReverseManager = \<lparr>rm_providers = [], rm_consumers = [], rm_fresh = 0\<rparr>"

definition validateProvider :: "ProviderPersist \<Rightarrow> rm_error option" where
  "validateProvider p =
     (if trim_space (pp_ServerURL p) = [] then Some NoServerURL
      else if pp_LocalPort p < 1 \<or> pp_LocalPort p > 65535 then Some BadLocalPort
      else None)"

definition validateConsumer :: "ConsumerPersist \<Rightarrow> rm_error option" where
  "validateConsumer c =
     (if trim_space (cp_ServerURL c) = [] \<or> cp_Listen c = [] \<or> trim_space (cp_ID c) = []
      then Some ConsumerFieldsMissing else None)"

section \<open>The goroutines and waiting for them\<close>

text \<open>The end of a provider's goroutine: it clears the fields if its connection is still the
  entry's.\<close>

definition provider_ended :: "nat \<Rightarrow> string \<Rightarrow> rm_error option \<Rightarrow> rev_manager \<Rightarrow> rev_manager" where
  "provider_ended wsRef rowID runErr r =
     (case mget (rm_providers r) rowID of
        None \<Rightarrow> r
      | Some cur \<Rightarrow>
          if pi_ws cur = Some wsRef
          then r\<lparr>rm_providers := mput rowID
                   (cur\<lparr>pi_lastRunErr := runErr, pi_ws := None, pi_serveDone := False\<rparr>) (rm_providers r)\<rparr>
          else r)"

definition consumer_ended :: "nat \<Rightarrow> string \<Rightarrow> rm_error option \<Rightarrow> rev_manager \<Rightarrow> rev_manager" where
  "consumer_ended ln rowID runErr r =
     (case mget (rm_consumers r) rowID of
        None \<Rightarrow> r
      | Some cur \<Rightarrow>
          if ci_listener cur = Some ln
          then r\<lparr>rm_consumers := mput rowID
                   (cur\<lparr>ci_lastRunErr := runErr, ci_cancel := False, ci_listener := None\<rparr>) (rm_consumers r)\<rparr>
          else r)"

text \<open>Waiting closes the connection (the listener) and returns when the goroutine has ended.\<close>

definition waitProviderEnded :: "rm_error option \<Rightarrow> string \<Rightarrow> prov_inst \<Rightarrow> rev_manager \<Rightarrow> rev_manager" where
  "waitProviderEnded runErr i inst r =
     (if \<not> pi_serveDone inst then r
      else (case pi_ws inst of
              None \<Rightarrow> r
            | Some ws \<Rightarrow> provider_ended ws i runErr r))"

definition waitConsumerEnded :: "rm_error option \<Rightarrow> string \<Rightarrow> cons_inst \<Rightarrow> rev_manager \<Rightarrow> rev_manager" where
  "waitConsumerEnded runErr i inst r =
     (if \<not> ci_done inst then r
      else (case ci_listener inst of
              None \<Rightarrow> r
            | Some ln \<Rightarrow> consumer_ended ln i runErr r))"

text \<open>The connections of a consumer's accept loop.\<close>

definition bridge_opened :: "cons_inst \<Rightarrow> cons_inst" where
  "bridge_opened inst = inst\<lparr>ci_activeBridges := ci_activeBridges inst + 1\<rparr>"

definition bridge_closed :: "cons_inst \<Rightarrow> cons_inst" where
  "bridge_closed inst = inst\<lparr>ci_activeBridges := ci_activeBridges inst - 1\<rparr>"

interpretation brg: live_counter bridge_opened bridge_closed ci_activeBridges
  by unfold_locales (simp_all add: bridge_opened_def bridge_closed_def)

section \<open>Conflicts\<close>

primrec first_error :: "('a \<Rightarrow> 'e option) \<Rightarrow> 'a list \<Rightarrow> 'e option" where
  "first_error f [] = None"
| "first_error f (x # xs) = (case f x of Some e \<Rightarrow> Some e | None \<Rightarrow> first_error f xs)"

lemma first_error_None: "first_error f xs = None \<longleftrightarrow> (\<forall>x \<in> set xs. f x = None)"
  by (induction xs) (auto split: option.split)

lemma first_error_or_else:
  "(case first_error f xs of Some e \<Rightarrow> Some e | None \<Rightarrow> y) = None \<longleftrightarrow> (\<forall>x \<in> set xs. f x = None) \<and> y = None"
  by (cases "first_error f xs") (auto simp: first_error_None [symmetric])

definition default_host :: "string \<Rightarrow> string" where
  "default_host h = (let h = trim_space h in if h = [] then ''127.0.0.1'' else h)"

definition checkProviderConflictsLocked :: "string \<Rightarrow> ProviderPersist \<Rightarrow> rev_manager \<Rightarrow> rm_error option" where
  "checkProviderConflictsLocked selfID p r =
     (let expHost = default_host (pp_LocalHost p)
      in case first_error (\<lambda>(cid, ct).
               if listenHostPortCollidesExpose (cp_Listen (ci_cfg ct)) expHost (pp_LocalPort p)
               then Some (ListenHitsTarget (trim_space (cp_Listen (ci_cfg ct))) expHost (pp_LocalPort p))
               else None) (rm_consumers r) of
           Some e \<Rightarrow> Some e
         | None \<Rightarrow>
             first_error (\<lambda>(pid, ot).
               if pid = selfID then None
               else if pp_LocalPort (pi_cfg ot) = pp_LocalPort p
                       \<and> fuzzyHostMatch (default_host (pp_LocalHost (pi_cfg ot))) expHost
               then Some (TargetTaken (pp_LocalPort p))
               else None) (rm_providers r))"

definition checkConsumerConflictsLocked :: "string \<Rightarrow> ConsumerPersist \<Rightarrow> rev_manager \<Rightarrow> rm_error option" where
  "checkConsumerConflictsLocked selfID c r =
     (case first_error (\<lambda>(cid, oc).
             if cid = selfID then None
             else if tcpBindingsEquiv (cp_Listen (ci_cfg oc)) (cp_Listen c)
             then Some (ListenTaken (trim_space (cp_Listen c)))
             else None) (rm_consumers r) of
        Some e \<Rightarrow> Some e
      | None \<Rightarrow>
          first_error (\<lambda>(pid, pv).
            let ph = default_host (pp_LocalHost (pi_cfg pv))
            in if listenHostPortCollidesExpose (cp_Listen c) ph (pp_LocalPort (pi_cfg pv))
               then Some (ListenHitsTarget (trim_space (cp_Listen c)) ph (pp_LocalPort (pi_cfg pv)))
               else None) (rm_providers r))"

section \<open>Providers\<close>

text \<open>What an operation on an entry meets: the id that \<open>uuid.New\<close> would give, what the goroutine it
  waits for returned, and the network's part of a handshake that offers a given channel id.\<close>

record rm_env =
  re_newID :: string
  re_runErr :: "rm_error option"
  re_net :: "string \<Rightarrow> bool \<times> bool \<times> string option"
  re_listen :: "string option"

definition put_provider :: "string \<Rightarrow> prov_inst \<Rightarrow> rev_manager \<Rightarrow> rev_manager" where
  "put_provider i inst r = r\<lparr>rm_providers := mput i inst (rm_providers r)\<rparr>"

definition wait_prev_provider :: "rm_error option \<Rightarrow> string \<Rightarrow> rev_manager \<Rightarrow> rev_manager" where
  "wait_prev_provider runErr i r =
     (case mget (rm_providers r) i of
        None \<Rightarrow> r
      | Some prev \<Rightarrow> waitProviderEnded runErr i prev r)"

definition StopProvider :: "rm_error option \<Rightarrow> string \<Rightarrow> rev_manager \<Rightarrow> rev_manager" where
  "StopProvider runErr i r =
     (let i = trim_space i
      in if i = [] then r else wait_prev_provider runErr i r)"

definition RemoveProvider :: "rm_error option \<Rightarrow> string \<Rightarrow> rev_manager \<Rightarrow> rev_manager" where
  "RemoveProvider runErr i r =
     (let i = trim_space i
      in if i = [] then r
         else let r = wait_prev_provider runErr i r
              in r\<lparr>rm_providers := mdel i (rm_providers r)\<rparr>)"

definition putProviderInactive :: "ProviderPersist \<Rightarrow> rev_manager \<Rightarrow> rm_error option \<times> rev_manager" where
  "putProviderInactive c r =
     (if (case mget (rm_providers r) (pp_ID c) of
            None \<Rightarrow> False | Some prev \<Rightarrow> pi_ws prev \<noteq> None \<or> pi_serveDone prev)
      then (Some StillRunning, r)
      else (case checkProviderConflictsLocked (pp_ID c) c r of
              Some e \<Rightarrow> (Some e, r)
            | None \<Rightarrow> (None, put_provider (pp_ID c)
                \<lparr>pi_cfg = c, pi_channelID = [], pi_ws = None, pi_serveDone = False, pi_lastRunErr = None\<rparr> r)))"

definition MergePreserveProviderTunnelID :: "ProviderPersist \<Rightarrow> rev_manager \<Rightarrow> ProviderPersist" where
  "MergePreserveProviderTunnelID p r =
     (let p = normalizeReverseProviderPersist p
      in if trim_space (pp_ChannelID p) \<noteq> [] then p
         else let i = trim_space (pp_ID p)
              in if i = [] then p
                 else (case mget (rm_providers r) i of
                         None \<Rightarrow> p
                       | Some prev \<Rightarrow>
                           let ch = trim_space (pp_ChannelID (pi_cfg prev)); ch' = trim_space (pi_channelID prev)
                           in if ch \<noteq> [] then p\<lparr>pp_ChannelID := ch\<rparr>
                              else if ch' \<noteq> [] then p\<lparr>pp_ChannelID := ch'\<rparr> else p))"

text \<open>\<open>StartProvider\<close> up to the point where it gives the lock back: the entry it will start.\<close>

definition provider_admit :: "rm_env \<Rightarrow> ProviderPersist \<Rightarrow> rev_manager \<Rightarrow> (rm_error + ProviderPersist) \<times> rev_manager" where
  "provider_admit env p r =
     (let p = normalizeReverseProviderPersist p;
          p = (if trim_space (pp_ID p) = [] then p\<lparr>pp_ID := re_newID env\<rparr> else p)
      in case validateProvider p of
           Some e \<Rightarrow> (Inl e, r)
         | None \<Rightarrow>
             let r = wait_prev_provider (re_runErr env) (pp_ID p) r
             in case checkProviderConflictsLocked (pp_ID p) p r of
                  Some e \<Rightarrow> (Inl e, r)
                | None \<Rightarrow> (Inr p, r))"

text \<open>The handshake of the entry, first with the preferred channel id, then without.\<close>

definition handshake_with :: "rm_env \<Rightarrow> ProviderPersist \<Rightarrow> string \<Rightarrow> handshake_error + string" where
  "handshake_with env p reuse =
     (case re_net env reuse of
        (dialled, write_ok, reply) \<Rightarrow>
          fst (HandshakeReverseProvider dialled write_ok reply (pp_LocalHost p) (pp_LocalPort p) reuse))"

definition provider_handshake :: "rm_env \<Rightarrow> ProviderPersist \<Rightarrow> handshake_error + string" where
  "provider_handshake env p =
     (let preferred = trim_space (pp_ChannelID p)
      in if preferred \<noteq> [] then
           (case handshake_with env p preferred of
              Inr ch \<Rightarrow> Inr ch
            | Inl _ \<Rightarrow> handshake_with env p [])
         else handshake_with env p [])"

text \<open>Registering the outcome of the handshake, under the lock again.\<close>

definition provider_attach ::
  "ProviderPersist \<Rightarrow> handshake_error + string \<Rightarrow> rev_manager \<Rightarrow> (rm_error + string) \<times> rev_manager" where
  "provider_attach p result r =
     (case result of
        Inl e \<Rightarrow>
          (Inl (HandshakeFailed e), put_provider (pp_ID p)
             \<lparr>pi_cfg = p, pi_channelID = [], pi_ws = None, pi_serveDone = False,
              pi_lastRunErr = Some (HandshakeFailed e)\<rparr> r)
      | Inr ch \<Rightarrow>
          (Inr ch, put_provider (pp_ID p)
             \<lparr>pi_cfg = p\<lparr>pp_ChannelID := trim_space ch\<rparr>, pi_channelID = ch, pi_ws = Some (rm_fresh r),
              pi_serveDone = True, pi_lastRunErr = None\<rparr> (r\<lparr>rm_fresh := rm_fresh r + 1\<rparr>)))"

definition StartProvider :: "rm_env \<Rightarrow> ProviderPersist \<Rightarrow> rev_manager \<Rightarrow> (rm_error + string) \<times> rev_manager" where
  "StartProvider env p r =
     (case provider_admit env p r of
        (Inl e, r) \<Rightarrow> (Inl e, r)
      | (Inr p, r) \<Rightarrow>
          if \<not> pp_EffectiveEnabled p then
            (case putProviderInactive p (StopProvider (re_runErr env) (pp_ID p) r) of
               (Some e, r) \<Rightarrow> (Inl e, r)
             | (None, r) \<Rightarrow> (Inr [], r))
          else provider_attach p (provider_handshake env p) r)"

section \<open>Consumers\<close>

definition put_consumer :: "string \<Rightarrow> cons_inst \<Rightarrow> rev_manager \<Rightarrow> rev_manager" where
  "put_consumer i inst r = r\<lparr>rm_consumers := mput i inst (rm_consumers r)\<rparr>"

definition wait_prev_consumer :: "rm_error option \<Rightarrow> string \<Rightarrow> rev_manager \<Rightarrow> rev_manager" where
  "wait_prev_consumer runErr i r =
     (case mget (rm_consumers r) i of
        None \<Rightarrow> r
      | Some prev \<Rightarrow> waitConsumerEnded runErr i prev r)"

definition StopConsumer :: "rm_error option \<Rightarrow> string \<Rightarrow> rev_manager \<Rightarrow> rev_manager" where
  "StopConsumer runErr i r =
     (let i = trim_space i
      in if i = [] then r else wait_prev_consumer runErr i r)"

definition RemoveConsumer :: "rm_error option \<Rightarrow> string \<Rightarrow> rev_manager \<Rightarrow> rev_manager" where
  "RemoveConsumer runErr i r =
     (let i = trim_space i
      in if i = [] then r
         else let r = wait_prev_consumer runErr i r
              in r\<lparr>rm_consumers := mdel i (rm_consumers r)\<rparr>)"

definition idle_consumer :: "ConsumerPersist \<Rightarrow> rm_error option \<Rightarrow> cons_inst" where
  "idle_consumer c err =
     \<lparr>ci_cfg = c, ci_done = False, ci_lastRunErr = err, ci_cancel = False, ci_listener = None,
      ci_activeBridges = 0\<rparr>"

definition putConsumerInactive :: "ConsumerPersist \<Rightarrow> rev_manager \<Rightarrow> rm_error option \<times> rev_manager" where
  "putConsumerInactive c r =
     (if (case mget (rm_consumers r) (cp_ID c) of
            None \<Rightarrow> False | Some prev \<Rightarrow> ci_cancel prev \<or> ci_listener prev \<noteq> None)
      then (Some StillRunning, r)
      else (case checkConsumerConflictsLocked (cp_ID c) c r of
              Some e \<Rightarrow> (Some e, r)
            | None \<Rightarrow> (None, put_consumer (cp_ID c) (idle_consumer c None) r)))"

definition consumer_admit :: "rm_env \<Rightarrow> ConsumerPersist \<Rightarrow> rev_manager \<Rightarrow> (rm_error + ConsumerPersist) \<times> rev_manager" where
  "consumer_admit env c r =
     (let c = NormalizeReverseConsumerPersist c
      in case validateConsumer c of
           Some e \<Rightarrow> (Inl e, r)
         | None \<Rightarrow>
             let r = wait_prev_consumer (re_runErr env) (cp_ID c) r
             in case checkConsumerConflictsLocked (cp_ID c) c r of
                  Some e \<Rightarrow> (Inl e, r)
                | None \<Rightarrow> (Inr c, r))"

definition consumer_attach ::
  "ConsumerPersist \<Rightarrow> string option \<Rightarrow> rev_manager \<Rightarrow> rm_error option \<times> rev_manager" where
  "consumer_attach c listen_err r =
     (case listen_err of
        Some e \<Rightarrow>
          (Some (ListenRefused e), put_consumer (cp_ID c) (idle_consumer c (Some (ListenRefused e))) r)
      | None \<Rightarrow>
          (None, put_consumer (cp_ID c)
             \<lparr>ci_cfg = c, ci_done = True, ci_lastRunErr = None, ci_cancel = True,
              ci_listener = Some (rm_fresh r), ci_activeBridges = 0\<rparr> (r\<lparr>rm_fresh := rm_fresh r + 1\<rparr>)))"

definition StartConsumer :: "rm_env \<Rightarrow> ConsumerPersist \<Rightarrow> rev_manager \<Rightarrow> rm_error option \<times> rev_manager" where
  "StartConsumer env c r =
     (case consumer_admit env c r of
        (Inl e, r) \<Rightarrow> (Some e, r)
      | (Inr c, r) \<Rightarrow>
          if \<not> cp_EffectiveEnabled c then putConsumerInactive c (StopConsumer (re_runErr env) (cp_ID c) r)
          else consumer_attach c (re_listen env) r)"

section \<open>All entries\<close>

text \<open>\<open>StopAll\<close> waits for the entries that are in the maps when it starts.\<close>

definition rm_StopAll :: "(string \<Rightarrow> rm_error option) \<Rightarrow> rev_manager \<Rightarrow> rev_manager" where
  "rm_StopAll runErr r =
     (let instsP = rm_providers r; instsC = rm_consumers r;
          r = fold (\<lambda>(i, it). waitProviderEnded (runErr i) i it) instsP r
      in fold (\<lambda>(i, it). waitConsumerEnded (runErr i) i it) instsC r)"

fun BootstrapProviders :: "(nat \<Rightarrow> rm_env) \<Rightarrow> nat \<Rightarrow> ProviderPersist list \<Rightarrow> rev_manager \<Rightarrow> rev_manager" where
  "BootstrapProviders env n [] r = r"
| "BootstrapProviders env n (cfg # cfgs) r =
     (let c = normalizeReverseProviderPersist cfg;
          c = (if trim_space (pp_ID c) = [] then c\<lparr>pp_ID := re_newID (env n)\<rparr> else c)
      in BootstrapProviders env (n + 1) cfgs
           (case validateProvider c of
              Some e \<Rightarrow> r
            | None \<Rightarrow>
                if \<not> pp_EffectiveEnabled c then snd (putProviderInactive c r)
                else snd (StartProvider (env n) c r)))"

fun BootstrapConsumers :: "(nat \<Rightarrow> rm_env) \<Rightarrow> nat \<Rightarrow> ConsumerPersist list \<Rightarrow> rev_manager \<Rightarrow> rev_manager" where
  "BootstrapConsumers env n [] r = r"
| "BootstrapConsumers env n (cfg # cfgs) r =
     (let c = NormalizeReverseConsumerPersist cfg
      in BootstrapConsumers env (n + 1) cfgs
           (case validateConsumer c of
              Some e \<Rightarrow> r
            | None \<Rightarrow>
                if \<not> cp_EffectiveEnabled c then snd (putConsumerInactive c r)
                else snd (StartConsumer (env n) c r)))"

section \<open>Status and persisted lists\<close>

text \<open>The error of a row is the error value; its text is not modelled.\<close>

record ProviderRow =
  vr_ID :: string
  vr_Running :: bool
  vr_Error :: "rm_error option"
  vr_ChannelID :: string
  vr_LocalHost :: string
  vr_LocalPort :: int
  vr_ServerURL :: string
  vr_AuthHintOnly :: bool
  vr_Enabled :: bool

record ConsumerRow =
  cr_ID :: string
  cr_Running :: bool
  cr_Error :: "rm_error option"
  cr_Listen :: string
  cr_ServerURL :: string
  cr_AuthHintOnly :: bool
  cr_ActiveConnections :: int
  cr_Enabled :: bool

definition snapshotProvider :: "prov_inst \<Rightarrow> ProviderRow" where
  "snapshotProvider inst =
     (let auth = AuthSecretsConfigured (pp_APIKey (pi_cfg inst));
          chDisp = trim_space (pi_channelID inst);
          chDisp = (if chDisp = [] then trim_space (pp_ChannelID (pi_cfg inst)) else chDisp);
          running = (pi_ws inst \<noteq> None)
      in \<lparr>vr_ID = pp_ID (pi_cfg inst), vr_Running = running,
          vr_Error = (if \<not> running then pi_lastRunErr inst else None), vr_ChannelID = chDisp,
          vr_LocalHost = pp_LocalHost (pi_cfg inst), vr_LocalPort = pp_LocalPort (pi_cfg inst),
          vr_ServerURL = pp_ServerURL (pi_cfg inst), vr_AuthHintOnly = auth,
          vr_Enabled = pp_EffectiveEnabled (pi_cfg inst)\<rparr>)"

definition snapshotConsumer :: "cons_inst \<Rightarrow> ConsumerRow" where
  "snapshotConsumer inst =
     (let auth = AuthSecretsConfigured (cp_APIKey (ci_cfg inst)); running = ci_cancel inst
      in \<lparr>cr_ID = cp_ID (ci_cfg inst), cr_Running = running,
          cr_Error = (if \<not> running then ci_lastRunErr inst else None),
          cr_Listen = cp_Listen (ci_cfg inst), cr_ServerURL = cp_ServerURL (ci_cfg inst),
          cr_AuthHintOnly = auth, cr_ActiveConnections = sint (ci_activeBridges inst),
          cr_Enabled = cp_EffectiveEnabled (ci_cfg inst)\<rparr>)"

definition SnapshotProviders :: "rev_manager \<Rightarrow> ProviderRow list" where
  "SnapshotProviders r =
     sort_key (\<lambda>v. RowKey (vr_LocalPort v) (vr_ID v)) (map (\<lambda>(_, it). snapshotProvider it) (rm_providers r))"

definition SnapshotConsumers :: "rev_manager \<Rightarrow> ConsumerRow list" where
  "SnapshotConsumers r =
     sort_key (\<lambda>v. ListenKey (cr_Listen v) (cr_ID v)) (map (\<lambda>(_, it). snapshotConsumer it) (rm_consumers r))"

definition PersistedProviders :: "rev_manager \<Rightarrow> ProviderPersist list" where
  "PersistedProviders r =
     sort_key (\<lambda>p. RowKey (pp_LocalPort p) (pp_ID p)) (map (\<lambda>(_, it). pi_cfg it) (rm_providers r))"

definition PersistedConsumers :: "rev_manager \<Rightarrow> ConsumerPersist list" where
  "PersistedConsumers r =
     sort_key (\<lambda>c. ListenKey (cp_Listen c) (cp_ID c)) (map (\<lambda>(_, it). ci_cfg it) (rm_consumers r))"

end
