(* ===== verification/ReverseManagerProps.thy ===== *)
theory ReverseManagerProps
  imports ReverseManager
begin

text \<open>
  What the manager of reverse tunnels keeps: the abstract table of claims (which entry claims which
  endpoint), the invariant that no two entries claim the same one, and the behaviour of starting,
  restarting and waiting, including what goes wrong without the lock.
\<close>

section \<open>The table of claims\<close>

datatype slot = ProvSlot string | ConsSlot string

definition prov_claim :: "ProviderPersist \<Rightarrow> string + endpoint" where
  "prov_claim p = Inr (expose_endpoint (pp_LocalHost p) (pp_LocalPort p))"

definition cons_claim :: "ConsumerPersist \<Rightarrow> string + endpoint" where
  "cons_claim c = listen_endpoint (cp_Listen c)"

fun claimed :: "rev_manager \<Rightarrow> slot \<Rightarrow> (string + endpoint) option" where
  "claimed r (ProvSlot i) = map_option (\<lambda>a. prov_claim (pi_cfg a)) (mget (rm_providers r) i)"
| "claimed r (ConsSlot i) = map_option (\<lambda>b. cons_claim (ci_cfg b)) (mget (rm_consumers r) i)"

definition exclusive :: "(slot \<Rightarrow> 'e option) \<Rightarrow> bool" where
  "exclusive f \<longleftrightarrow> (\<forall>s t e. f s = Some e \<longrightarrow> f t = Some e \<longrightarrow> s = t)"

definition free_for :: "slot \<Rightarrow> 'e \<Rightarrow> (slot \<Rightarrow> 'e option) \<Rightarrow> bool" where
  "free_for s e f \<longleftrightarrow> (\<forall>t. t \<noteq> s \<longrightarrow> f t \<noteq> Some e)"

lemma exclusive_claim: "exclusive f \<Longrightarrow> free_for s e f \<Longrightarrow> exclusive (f(s \<mapsto> e))"
  by (auto simp: exclusive_def free_for_def)

lemma exclusive_release: "exclusive f \<Longrightarrow> exclusive (f(s := None))"
  by (auto simp: exclusive_def)

lemma exclusiveD: "exclusive f \<Longrightarrow> f s = Some e \<Longrightarrow> f t = Some e \<Longrightarrow> s = t"
  by (auto simp: exclusive_def)

section \<open>The invariant\<close>

definition prov_ok :: "nat \<Rightarrow> string \<Rightarrow> prov_inst \<Rightarrow> bool" where
  "prov_ok n i a \<longleftrightarrow> pp_ID (pi_cfg a) = i \<and> validateProvider (pi_cfg a) = None
     \<and> (pi_serveDone a \<longleftrightarrow> pi_ws a \<noteq> None) \<and> (\<forall>w. pi_ws a = Some w \<longrightarrow> w < n)"

definition cons_ok :: "nat \<Rightarrow> string \<Rightarrow> cons_inst \<Rightarrow> bool" where
  "cons_ok n i b \<longleftrightarrow> cp_ID (ci_cfg b) = i \<and> validateConsumer (ci_cfg b) = None
     \<and> trim_space (cp_Listen (ci_cfg b)) = cp_Listen (ci_cfg b)
     \<and> (ci_cancel b \<longleftrightarrow> ci_listener b \<noteq> None) \<and> (ci_listener b \<noteq> None \<longrightarrow> ci_done b)
     \<and> (\<forall>w. ci_listener b = Some w \<longrightarrow> w < n)"

definition rm_ok :: "rev_manager \<Rightarrow> bool" where
  "rm_ok r \<longleftrightarrow> distinct (mkeys (rm_providers r)) \<and> distinct (mkeys (rm_consumers r))
     \<and> (\<forall>i a. mget (rm_providers r) i = Some a \<longrightarrow> prov_ok (rm_fresh r) i a)
     \<and> (\<forall>i b. mget (rm_consumers r) i = Some b \<longrightarrow> cons_ok (rm_fresh r) i b)
     \<and> exclusive (claimed r)"

lemma rm_okD:
  assumes "rm_ok r"
  shows "distinct (mkeys (rm_providers r))" "distinct (mkeys (rm_consumers r))"
    "mget (rm_providers r) i = Some a \<Longrightarrow> prov_ok (rm_fresh r) i a"
    "mget (rm_consumers r) i = Some b \<Longrightarrow> cons_ok (rm_fresh r) i b"
    "exclusive (claimed r)"
  using assms by (auto simp: rm_ok_def)

lemma prov_ok_mono: "prov_ok n i a \<Longrightarrow> n \<le> m \<Longrightarrow> prov_ok m i a"
  by (auto simp: prov_ok_def)

lemma cons_ok_mono: "cons_ok n i b \<Longrightarrow> n \<le> m \<Longrightarrow> cons_ok m i b"
  by (auto simp: cons_ok_def)

lemma rm_ok_new: "rm_ok NewReverseManager"
proof -
  have "claimed NewReverseManager s = None" for s by (cases s) (simp_all add: NewReverseManager_def)
  then show ?thesis by (simp add: rm_ok_def NewReverseManager_def exclusive_def)
qed

section \<open>The conflict checks decide whether a claim is free\<close>

lemma host_class_default_host [simp]: "host_class (default_host h) = host_class h"
  using host_class_default [of h] by (simp add: default_host_def Let_def)

lemma validProvider_port: "validateProvider p = None \<Longrightarrow> 1 \<le> pp_LocalPort p"
  by (auto simp: validateProvider_def split: if_splits)

lemma validConsumer_listen: "validateConsumer c = None \<Longrightarrow> cp_Listen c \<noteq> [] \<and> cp_ID c \<noteq> []"
  by (auto simp: validateConsumer_def split: if_splits)

lemma free_for_prov:
  "free_for (ProvSlot i) e (claimed r) \<longleftrightarrow>
     (\<forall>j a. mget (rm_providers r) j = Some a \<longrightarrow> j \<noteq> i \<longrightarrow> prov_claim (pi_cfg a) \<noteq> e)
     \<and> (\<forall>j b. mget (rm_consumers r) j = Some b \<longrightarrow> cons_claim (ci_cfg b) \<noteq> e)"
proof
  assume "free_for (ProvSlot i) e (claimed r)"
  then have "claimed r (ProvSlot j) \<noteq> Some e" "claimed r (ConsSlot k) \<noteq> Some e" if "j \<noteq> i" for j k
    using that by (auto simp: free_for_def simp del: claimed.simps)
  moreover have "claimed r (ConsSlot k) \<noteq> Some e" for k
    using \<open>free_for (ProvSlot i) e (claimed r)\<close> by (auto simp: free_for_def simp del: claimed.simps)
  ultimately show "(\<forall>j a. mget (rm_providers r) j = Some a \<longrightarrow> j \<noteq> i \<longrightarrow> prov_claim (pi_cfg a) \<noteq> e)
     \<and> (\<forall>j b. mget (rm_consumers r) j = Some b \<longrightarrow> cons_claim (ci_cfg b) \<noteq> e)"
    by fastforce
next
  assume *: "(\<forall>j a. mget (rm_providers r) j = Some a \<longrightarrow> j \<noteq> i \<longrightarrow> prov_claim (pi_cfg a) \<noteq> e)
     \<and> (\<forall>j b. mget (rm_consumers r) j = Some b \<longrightarrow> cons_claim (ci_cfg b) \<noteq> e)"
  show "free_for (ProvSlot i) e (claimed r)"
    unfolding free_for_def
  proof (intro allI impI)
    fix t
    assume "t \<noteq> ProvSlot i"
    with * show "claimed r t \<noteq> Some e" by (cases t) auto
  qed
qed

lemma free_for_cons:
  "free_for (ConsSlot i) e (claimed r) \<longleftrightarrow>
     (\<forall>j b. mget (rm_consumers r) j = Some b \<longrightarrow> j \<noteq> i \<longrightarrow> cons_claim (ci_cfg b) \<noteq> e)
     \<and> (\<forall>j a. mget (rm_providers r) j = Some a \<longrightarrow> e \<noteq> prov_claim (pi_cfg a))"
proof
  assume *: "free_for (ConsSlot i) e (claimed r)"
  then have "claimed r (ConsSlot j) \<noteq> Some e" if "j \<noteq> i" for j
    using that by (auto simp: free_for_def simp del: claimed.simps)
  moreover have "claimed r (ProvSlot k) \<noteq> Some e" for k
    using * by (auto simp: free_for_def simp del: claimed.simps)
  ultimately show "(\<forall>j b. mget (rm_consumers r) j = Some b \<longrightarrow> j \<noteq> i \<longrightarrow> cons_claim (ci_cfg b) \<noteq> e)
     \<and> (\<forall>j a. mget (rm_providers r) j = Some a \<longrightarrow> e \<noteq> prov_claim (pi_cfg a))"
    by fastforce
next
  assume *: "(\<forall>j b. mget (rm_consumers r) j = Some b \<longrightarrow> j \<noteq> i \<longrightarrow> cons_claim (ci_cfg b) \<noteq> e)
     \<and> (\<forall>j a. mget (rm_providers r) j = Some a \<longrightarrow> e \<noteq> prov_claim (pi_cfg a))"
  show "free_for (ConsSlot i) e (claimed r)"
    unfolding free_for_def
  proof (intro allI impI)
    fix t
    assume "t \<noteq> ConsSlot i"
    with * show "claimed r t \<noteq> Some e" by (cases t) auto
  qed
qed

lemma ball_gomap: "distinct (mkeys m) \<Longrightarrow> (\<forall>(k, v) \<in> set m. P k v) \<longleftrightarrow> (\<forall>k v. mget m k = Some v \<longrightarrow> P k v)"
  by (auto simp: mget_Some_iff)

lemma check_provider_iff:
  assumes "rm_ok r" "1 \<le> pp_LocalPort p"
  shows "checkProviderConflictsLocked i p r = None \<longleftrightarrow> free_for (ProvSlot i) (prov_claim p) (claimed r)"
proof -
  have "checkProviderConflictsLocked i p r = None \<longleftrightarrow>
      (\<forall>(k, b) \<in> set (rm_consumers r).
         \<not> listenHostPortCollidesExpose (cp_Listen (ci_cfg b)) (default_host (pp_LocalHost p)) (pp_LocalPort p))
      \<and> (\<forall>(j, a) \<in> set (rm_providers r). j \<noteq> i \<longrightarrow>
           \<not> (pp_LocalPort (pi_cfg a) = pp_LocalPort p
              \<and> fuzzyHostMatch (default_host (pp_LocalHost (pi_cfg a))) (default_host (pp_LocalHost p))))"
    by (auto simp: checkProviderConflictsLocked_def first_error_or_else first_error_None case_prod_unfold
        Let_def)
  also have "\<dots> \<longleftrightarrow> free_for (ProvSlot i) (prov_claim p) (claimed r)"
    using assms(2)
    unfolding ball_gomap [OF rm_okD(1) [OF assms(1)]] ball_gomap [OF rm_okD(2) [OF assms(1)]] free_for_prov
    by (auto simp: collides_iff fuzzyHostMatch_iff prov_claim_def cons_claim_def expose_endpoint_def)
  finally show ?thesis .
qed

lemma check_consumer_iff:
  assumes "rm_ok r" "cp_Listen c \<noteq> []" "trim_space (cp_Listen c) = cp_Listen c"
  shows "checkConsumerConflictsLocked i c r = None \<longleftrightarrow> free_for (ConsSlot i) (cons_claim c) (claimed r)"
proof -
  have l: "cp_Listen (ci_cfg b) \<noteq> [] \<and> trim_space (cp_Listen (ci_cfg b)) = cp_Listen (ci_cfg b)"
    if "mget (rm_consumers r) j = Some b" for j b
    using rm_okD(4) [OF assms(1) that] validConsumer_listen by (auto simp: cons_ok_def)
  have pt: "1 \<le> pp_LocalPort (pi_cfg a)" if "mget (rm_providers r) j = Some a" for j a
    using rm_okD(3) [OF assms(1) that] validProvider_port by (auto simp: prov_ok_def)
  have "checkConsumerConflictsLocked i c r = None \<longleftrightarrow>
      (\<forall>(j, b) \<in> set (rm_consumers r). j \<noteq> i \<longrightarrow> \<not> tcpBindingsEquiv (cp_Listen (ci_cfg b)) (cp_Listen c))
      \<and> (\<forall>(j, a) \<in> set (rm_providers r).
           \<not> listenHostPortCollidesExpose (cp_Listen c) (default_host (pp_LocalHost (pi_cfg a)))
               (pp_LocalPort (pi_cfg a)))"
    by (auto simp: checkConsumerConflictsLocked_def first_error_or_else first_error_None case_prod_unfold
        Let_def)
  also have "\<dots> \<longleftrightarrow> free_for (ConsSlot i) (cons_claim c) (claimed r)"
    using assms(2,3) l pt
    unfolding ball_gomap [OF rm_okD(1) [OF assms(1)]] ball_gomap [OF rm_okD(2) [OF assms(1)]] free_for_cons
    by (auto simp: collides_iff bindings_iff prov_claim_def cons_claim_def expose_endpoint_def)
  finally show ?thesis .
qed

section \<open>Every operation keeps the invariant\<close>

text \<open>Operations that change entries without touching their claims.\<close>

lemma rm_ok_same_claims:
  assumes "rm_ok r" "\<And>s. claimed r' s = claimed r s"
    and "distinct (mkeys (rm_providers r'))" "distinct (mkeys (rm_consumers r'))"
    and "\<And>i a. mget (rm_providers r') i = Some a \<Longrightarrow> prov_ok (rm_fresh r') i a"
    and "\<And>i b. mget (rm_consumers r') i = Some b \<Longrightarrow> cons_ok (rm_fresh r') i b"
  shows "rm_ok r'"
proof -
  have "claimed r' = claimed r" using assms(2) by auto
  with assms rm_okD(5) [OF assms(1)] show ?thesis by (simp add: rm_ok_def)
qed

lemma claimed_provider_ended [simp]: "claimed (provider_ended w i e r) s = claimed r s"
  by (cases s) (auto simp: provider_ended_def split: option.split)

lemma claimed_consumer_ended [simp]: "claimed (consumer_ended w i e r) s = claimed r s"
  by (cases s) (auto simp: consumer_ended_def split: option.split)

lemma rm_ok_provider_ended:
  assumes "rm_ok r"
  shows "rm_ok (provider_ended w i e r)"
proof (rule rm_ok_same_claims [OF assms])
  note d = rm_okD [OF assms]
  show "distinct (mkeys (rm_providers (provider_ended w i e r)))"
    "distinct (mkeys (rm_consumers (provider_ended w i e r)))"
    using d(1,2) by (auto simp: provider_ended_def simp del: distinct_map split: option.split)
  show "prov_ok (rm_fresh (provider_ended w i e r)) j a"
    if "mget (rm_providers (provider_ended w i e r)) j = Some a" for j a
    using that d(3) by (auto simp: provider_ended_def prov_ok_def split: option.splits if_splits)
  show "cons_ok (rm_fresh (provider_ended w i e r)) j b"
    if "mget (rm_consumers (provider_ended w i e r)) j = Some b" for j b
    using that d(4) by (auto simp: provider_ended_def split: option.splits if_splits)
qed simp

lemma rm_ok_consumer_ended:
  assumes "rm_ok r"
  shows "rm_ok (consumer_ended w i e r)"
proof (rule rm_ok_same_claims [OF assms])
  note d = rm_okD [OF assms]
  show "distinct (mkeys (rm_providers (consumer_ended w i e r)))"
    "distinct (mkeys (rm_consumers (consumer_ended w i e r)))"
    using d(1,2) by (auto simp: consumer_ended_def simp del: distinct_map split: option.split)
  show "prov_ok (rm_fresh (consumer_ended w i e r)) j a"
    if "mget (rm_providers (consumer_ended w i e r)) j = Some a" for j a
    using that d(3) by (auto simp: consumer_ended_def split: option.splits if_splits)
  show "cons_ok (rm_fresh (consumer_ended w i e r)) j b"
    if "mget (rm_consumers (consumer_ended w i e r)) j = Some b" for j b
    using that d(4) by (auto simp: consumer_ended_def cons_ok_def split: option.splits if_splits)
qed simp

lemma wait_cases:
  "waitProviderEnded e i a r = r \<or> (\<exists>w. waitProviderEnded e i a r = provider_ended w i e r)"
  "waitConsumerEnded e i b r = r \<or> (\<exists>w. waitConsumerEnded e i b r = consumer_ended w i e r)"
  by (auto simp: waitProviderEnded_def waitConsumerEnded_def split: option.split)

lemma rm_ok_wait:
  "rm_ok r \<Longrightarrow> rm_ok (waitProviderEnded e i a r)" "rm_ok r \<Longrightarrow> rm_ok (waitConsumerEnded e i b r)"
  using wait_cases rm_ok_provider_ended rm_ok_consumer_ended by metis+

lemma claimed_wait [simp]:
  "claimed (waitProviderEnded e i a r) s = claimed r s" "claimed (waitConsumerEnded e i b r) s = claimed r s"
  using wait_cases claimed_provider_ended claimed_consumer_ended by metis+

lemma rm_ok_wait_prev:
  "rm_ok r \<Longrightarrow> rm_ok (wait_prev_provider e i r)" "rm_ok r \<Longrightarrow> rm_ok (wait_prev_consumer e i r)"
  by (auto simp: wait_prev_provider_def wait_prev_consumer_def rm_ok_wait split: option.split)

lemma claimed_wait_prev [simp]:
  "claimed (wait_prev_provider e i r) = claimed r" "claimed (wait_prev_consumer e i r) = claimed r"
  by (rule ext, simp add: wait_prev_provider_def wait_prev_consumer_def split: option.split)+

lemma rm_ok_Stop:
  "rm_ok r \<Longrightarrow> rm_ok (StopProvider e i r)" "rm_ok r \<Longrightarrow> rm_ok (StopConsumer e i r)"
  by (simp_all add: StopProvider_def StopConsumer_def Let_def rm_ok_wait_prev)

lemma claimed_Stop [simp]:
  "claimed (StopProvider e i r) = claimed r" "claimed (StopConsumer e i r) = claimed r"
  by (simp_all add: StopProvider_def StopConsumer_def Let_def)

lemma rm_ok_StopAll: "rm_ok r \<Longrightarrow> rm_ok (rm_StopAll errs r)"
proof -
  have p: "rm_ok (fold (\<lambda>(i, it). waitProviderEnded (errs i) i it) xs r)" if "rm_ok r" for xs r
    using that by (induction xs arbitrary: r) (auto simp: rm_ok_wait)
  have c: "rm_ok (fold (\<lambda>(i, it). waitConsumerEnded (errs i) i it) xs r)" if "rm_ok r" for xs r
    using that by (induction xs arbitrary: r) (auto simp: rm_ok_wait)
  assume "rm_ok r"
  then show ?thesis by (simp add: rm_StopAll_def Let_def p c)
qed

text \<open>Entering and removing entries.\<close>

lemma claimed_put_provider:
  "claimed (put_provider i a r) = (claimed r)(ProvSlot i \<mapsto> prov_claim (pi_cfg a))"
proof
  show "claimed (put_provider i a r) s = ((claimed r)(ProvSlot i \<mapsto> prov_claim (pi_cfg a))) s" for s
    by (cases s) (simp_all add: put_provider_def)
qed

lemma claimed_put_consumer:
  "claimed (put_consumer i b r) = (claimed r)(ConsSlot i \<mapsto> cons_claim (ci_cfg b))"
proof
  show "claimed (put_consumer i b r) s = ((claimed r)(ConsSlot i \<mapsto> cons_claim (ci_cfg b))) s" for s
    by (cases s) (simp_all add: put_consumer_def)
qed

lemma claimed_fresh [simp]: "claimed (r\<lparr>rm_fresh := n\<rparr>) = claimed r"
proof
  show "claimed (r\<lparr>rm_fresh := n\<rparr>) s = claimed r s" for s by (cases s) simp_all
qed

lemma rm_ok_fresh: "rm_ok r \<Longrightarrow> rm_fresh r \<le> n \<Longrightarrow> rm_ok (r\<lparr>rm_fresh := n\<rparr>)"
  by (auto simp: rm_ok_def intro: prov_ok_mono [of "rm_fresh r"] cons_ok_mono [of "rm_fresh r"])

lemma rm_ok_put_provider:
  assumes "rm_ok r" "prov_ok (rm_fresh r) i a" "free_for (ProvSlot i) (prov_claim (pi_cfg a)) (claimed r)"
  shows "rm_ok (put_provider i a r)"
  using assms rm_okD [OF assms(1)]
  by (auto simp: rm_ok_def claimed_put_provider exclusive_claim, auto simp: put_provider_def split: if_splits)

lemma rm_ok_put_consumer:
  assumes "rm_ok r" "cons_ok (rm_fresh r) i b" "free_for (ConsSlot i) (cons_claim (ci_cfg b)) (claimed r)"
  shows "rm_ok (put_consumer i b r)"
  using assms rm_okD [OF assms(1)]
  by (auto simp: rm_ok_def claimed_put_consumer exclusive_claim, auto simp: put_consumer_def split: if_splits)

lemma rm_ok_del_provider:
  assumes "rm_ok r"
  shows "rm_ok (r\<lparr>rm_providers := mdel i (rm_providers r)\<rparr>)"
proof -
  have "claimed (r\<lparr>rm_providers := mdel i (rm_providers r)\<rparr>) s = ((claimed r)(ProvSlot i := None)) s" for s
    by (cases s) simp_all
  then have "claimed (r\<lparr>rm_providers := mdel i (rm_providers r)\<rparr>) = (claimed r)(ProvSlot i := None)" by auto
  with rm_okD [OF assms] show ?thesis by (auto simp: rm_ok_def exclusive_release)
qed

lemma rm_ok_del_consumer:
  assumes "rm_ok r"
  shows "rm_ok (r\<lparr>rm_consumers := mdel i (rm_consumers r)\<rparr>)"
proof -
  have "claimed (r\<lparr>rm_consumers := mdel i (rm_consumers r)\<rparr>) s = ((claimed r)(ConsSlot i := None)) s" for s
    by (cases s) simp_all
  then have "claimed (r\<lparr>rm_consumers := mdel i (rm_consumers r)\<rparr>) = (claimed r)(ConsSlot i := None)" by auto
  with rm_okD [OF assms] show ?thesis by (auto simp: rm_ok_def exclusive_release)
qed

lemma rm_ok_Remove:
  "rm_ok r \<Longrightarrow> rm_ok (RemoveProvider e i r)" "rm_ok r \<Longrightarrow> rm_ok (RemoveConsumer e i r)"
  by (simp_all add: RemoveProvider_def RemoveConsumer_def Let_def rm_ok_wait_prev
      rm_ok_del_provider rm_ok_del_consumer)

section \<open>Starting\<close>

lemma rm_ok_putProviderInactive:
  assumes "rm_ok r" "validateProvider p = None"
  shows "rm_ok (snd (putProviderInactive p r))"
proof -
  have "prov_ok n (pp_ID p) \<lparr>pi_cfg = p, pi_channelID = [], pi_ws = None, pi_serveDone = False, pi_lastRunErr = None\<rparr>" for n
    using assms(2) by (simp add: prov_ok_def)
  then show ?thesis
    using assms check_provider_iff [OF assms(1) validProvider_port [OF assms(2)]]
    by (auto simp: putProviderInactive_def intro!: rm_ok_put_provider split: option.split)
qed

lemma provider_admit_ok:
  assumes "rm_ok r" "provider_admit env p r = (res, r')"
  shows "rm_ok r'" "claimed r' = claimed r"
    and "res = Inr q \<Longrightarrow> validateProvider q = None"
    and "res = Inr q \<Longrightarrow> free_for (ProvSlot (pp_ID q)) (prov_claim q) (claimed r)"
proof -
  let ?p = "normalizeReverseProviderPersist p"
  let ?q = "if trim_space (pp_ID ?p) = [] then ?p\<lparr>pp_ID := re_newID env\<rparr> else ?p"
  let ?r = "wait_prev_provider (re_runErr env) (pp_ID ?q) r"
  have ok: "rm_ok ?r" using assms(1) by (rule rm_ok_wait_prev)
  have "(res, r') = (case validateProvider ?q of Some e \<Rightarrow> (Inl e, r)
       | None \<Rightarrow> (case checkProviderConflictsLocked (pp_ID ?q) ?q ?r of
            Some e \<Rightarrow> (Inl e, ?r) | None \<Rightarrow> (Inr ?q, ?r)))"
    by (simp only: assms(2) [symmetric] provider_admit_def Let_def)
  then consider "res \<noteq> Inr q" "r' = r" | "res \<noteq> Inr q" "r' = ?r"
    | "res = Inr ?q" "r' = ?r" "validateProvider ?q = None" "checkProviderConflictsLocked (pp_ID ?q) ?q ?r = None"
    by (auto split: option.splits)
  then show "rm_ok r'" "claimed r' = claimed r"
    "res = Inr q \<Longrightarrow> validateProvider q = None"
    "res = Inr q \<Longrightarrow> free_for (ProvSlot (pp_ID q)) (prov_claim q) (claimed r)"
    using assms(1) ok check_provider_iff [OF ok validProvider_port] by (cases; auto)+
qed

lemma rm_ok_provider_attach:
  assumes "rm_ok r" "validateProvider p = None" "free_for (ProvSlot (pp_ID p)) (prov_claim p) (claimed r)"
  shows "rm_ok (snd (provider_attach p res r))"
proof (cases res)
  case (Inl e)
  then show ?thesis
    using assms by (auto simp: provider_attach_def prov_ok_def intro!: rm_ok_put_provider)
next
  case (Inr ch)
  have r: "rm_ok (r\<lparr>rm_fresh := rm_fresh r + 1\<rparr>)" using assms(1) by (simp add: rm_ok_fresh)
  let ?it = "\<lparr>pi_cfg = p\<lparr>pp_ChannelID := trim_space ch\<rparr>, pi_channelID = ch, pi_ws = Some (rm_fresh r),
      pi_serveDone = True, pi_lastRunErr = None\<rparr>"
  have "prov_ok (rm_fresh r + 1) (pp_ID p) ?it"
    using assms(2) by (auto simp: prov_ok_def validateProvider_def split: if_splits)
  moreover have "prov_claim (pi_cfg ?it) = prov_claim p" by (simp add: prov_claim_def)
  ultimately have "rm_ok (put_provider (pp_ID p) ?it (r\<lparr>rm_fresh := rm_fresh r + 1\<rparr>))"
    using r assms(3) by (intro rm_ok_put_provider) (simp_all del: claimed.simps)
  then show ?thesis by (simp add: Inr provider_attach_def)
qed

lemma rm_ok_StartProvider: "rm_ok r \<Longrightarrow> rm_ok (snd (StartProvider env p r))"
proof -
  assume ok: "rm_ok r"
  obtain res r' where a: "provider_admit env p r = (res, r')" by fastforce
  note ad = provider_admit_ok [OF ok a]
  show ?thesis
  proof (cases res)
    case (Inl e)
    then show ?thesis using ad(1) by (simp add: StartProvider_def a)
  next
    case (Inr q)
    have "rm_ok (snd (putProviderInactive q (StopProvider (re_runErr env) (pp_ID q) r')))"
      using ad(1) ad(3) [OF Inr] by (intro rm_ok_putProviderInactive rm_ok_Stop)
    moreover have "rm_ok (snd (provider_attach q (provider_handshake env q) r'))"
      using ad(1,2) ad(3,4) [OF Inr] by (intro rm_ok_provider_attach) simp_all
    ultimately show ?thesis using Inr
      by (auto simp: StartProvider_def a split: prod.split option.split)
  qed
qed

lemma rm_ok_putConsumerInactive:
  assumes "rm_ok r" "validateConsumer c = None" "trim_space (cp_Listen c) = cp_Listen c"
  shows "rm_ok (snd (putConsumerInactive c r))"
proof -
  have "cons_ok n (cp_ID c) (idle_consumer c e)" for n e
    using assms(2,3) by (simp add: cons_ok_def idle_consumer_def)
  moreover have "ci_cfg (idle_consumer c e) = c" for e by (simp add: idle_consumer_def)
  moreover have "cp_Listen c \<noteq> []" using validConsumer_listen [OF assms(2)] by simp
  ultimately show ?thesis
    using assms(1) check_consumer_iff [OF assms(1) _ assms(3)]
    by (auto simp: putConsumerInactive_def intro!: rm_ok_put_consumer split: option.split)
qed

lemma consumer_admit_ok:
  assumes "rm_ok r" "consumer_admit env c r = (res, r')"
  shows "rm_ok r'" "claimed r' = claimed r"
    and "res = Inr d \<Longrightarrow> validateConsumer d = None \<and> trim_space (cp_Listen d) = cp_Listen d"
    and "res = Inr d \<Longrightarrow> free_for (ConsSlot (cp_ID d)) (cons_claim d) (claimed r)"
proof -
  let ?d = "NormalizeReverseConsumerPersist c"
  let ?r = "wait_prev_consumer (re_runErr env) (cp_ID ?d) r"
  have ok: "rm_ok ?r" using assms(1) by (rule rm_ok_wait_prev)
  have l: "trim_space (cp_Listen ?d) = cp_Listen ?d" by (simp add: NormalizeReverseConsumerPersist_def Let_def)
  have "(res, r') = (case validateConsumer ?d of Some e \<Rightarrow> (Inl e, r)
       | None \<Rightarrow> (case checkConsumerConflictsLocked (cp_ID ?d) ?d ?r of
            Some e \<Rightarrow> (Inl e, ?r) | None \<Rightarrow> (Inr ?d, ?r)))"
    by (simp only: assms(2) [symmetric] consumer_admit_def Let_def)
  then consider "res \<noteq> Inr d" "r' = r" | "res \<noteq> Inr d" "r' = ?r"
    | "res = Inr ?d" "r' = ?r" "validateConsumer ?d = None" "checkConsumerConflictsLocked (cp_ID ?d) ?d ?r = None"
    by (auto split: option.splits)
  then show "rm_ok r'" "claimed r' = claimed r"
    "res = Inr d \<Longrightarrow> validateConsumer d = None \<and> trim_space (cp_Listen d) = cp_Listen d"
    "res = Inr d \<Longrightarrow> free_for (ConsSlot (cp_ID d)) (cons_claim d) (claimed r)"
    using assms(1) ok l check_consumer_iff [OF ok _ l] validConsumer_listen by (cases; auto)+
qed

lemma rm_ok_consumer_attach:
  assumes "rm_ok r" "validateConsumer c = None" "trim_space (cp_Listen c) = cp_Listen c"
    and "free_for (ConsSlot (cp_ID c)) (cons_claim c) (claimed r)"
  shows "rm_ok (snd (consumer_attach c res r))"
proof (cases res)
  case (Some e)
  have "cons_ok n (cp_ID c) (idle_consumer c e)" "ci_cfg (idle_consumer c e) = c" for n e
    using assms(2,3) by (simp_all add: cons_ok_def idle_consumer_def)
  then show ?thesis
    using assms Some by (auto simp: consumer_attach_def intro!: rm_ok_put_consumer)
next
  case None
  have r: "rm_ok (r\<lparr>rm_fresh := rm_fresh r + 1\<rparr>)" using assms(1) by (simp add: rm_ok_fresh)
  let ?it = "\<lparr>ci_cfg = c, ci_done = True, ci_lastRunErr = None, ci_cancel = True,
      ci_listener = Some (rm_fresh r), ci_activeBridges = 0\<rparr>"
  have "cons_ok (rm_fresh r + 1) (cp_ID c) ?it" using assms(2,3) by (simp add: cons_ok_def)
  then have "rm_ok (put_consumer (cp_ID c) ?it (r\<lparr>rm_fresh := rm_fresh r + 1\<rparr>))"
    using r assms(4) by (intro rm_ok_put_consumer) (simp_all del: claimed.simps)
  then show ?thesis by (simp add: None consumer_attach_def)
qed

lemma rm_ok_StartConsumer: "rm_ok r \<Longrightarrow> rm_ok (snd (StartConsumer env c r))"
proof -
  assume ok: "rm_ok r"
  obtain res r' where a: "consumer_admit env c r = (res, r')" by fastforce
  note ad = consumer_admit_ok [OF ok a]
  show ?thesis
  proof (cases res)
    case (Inl e)
    then show ?thesis using ad(1) by (simp add: StartConsumer_def a)
  next
    case (Inr q)
    have "rm_ok (snd (putConsumerInactive q (StopConsumer (re_runErr env) (cp_ID q) r')))"
      using ad(1) ad(3) [OF Inr] by (intro rm_ok_putConsumerInactive rm_ok_Stop) simp_all
    moreover have "rm_ok (snd (consumer_attach q (re_listen env) r'))"
      using ad(1,2) ad(3,4) [OF Inr] by (intro rm_ok_consumer_attach) simp_all
    ultimately show ?thesis using Inr by (simp add: StartConsumer_def a)
  qed
qed

lemma rm_ok_BootstrapProviders: "rm_ok r \<Longrightarrow> rm_ok (BootstrapProviders env n cfgs r)"
  by (induction cfgs arbitrary: n r)
    (auto simp: Let_def rm_ok_StartProvider rm_ok_putProviderInactive split: option.split)

lemma rm_ok_BootstrapConsumers: "rm_ok r \<Longrightarrow> rm_ok (BootstrapConsumers env n cfgs r)"
proof (induction cfgs arbitrary: n r)
  case (Cons cfg cfgs)
  have "trim_space (cp_Listen (NormalizeReverseConsumerPersist cfg)) = cp_Listen (NormalizeReverseConsumerPersist cfg)"
    by (simp add: NormalizeReverseConsumerPersist_def Let_def)
  with Cons show ?case
    by (auto simp: Let_def rm_ok_StartConsumer rm_ok_putConsumerInactive split: option.split)
qed simp

section \<open>Reachable managers\<close>

text \<open>The operations one after another, and in between the goroutines: a provider or an accept loop
  may end at any time, connections come and go.\<close>

inductive rm_step :: "rev_manager \<Rightarrow> rev_manager \<Rightarrow> bool" where
  p_start: "rm_step r (snd (StartProvider env p r))"
| p_stop: "rm_step r (StopProvider e i r)"
| p_remove: "rm_step r (RemoveProvider e i r)"
| p_boot: "rm_step r (BootstrapProviders envs n ps r)"
| p_ends: "rm_step r (provider_ended w i e r)"
| c_start: "rm_step r (snd (StartConsumer env c r))"
| c_stop: "rm_step r (StopConsumer e i r)"
| c_remove: "rm_step r (RemoveConsumer e i r)"
| c_boot: "rm_step r (BootstrapConsumers envs n cs r)"
| c_ends: "rm_step r (consumer_ended w i e r)"
| c_opened: "mget (rm_consumers r) i = Some b \<Longrightarrow> rm_step r (put_consumer i (bridge_opened b) r)"
| c_closed: "mget (rm_consumers r) i = Some b \<Longrightarrow> rm_step r (put_consumer i (bridge_closed b) r)"
| all_stop: "rm_step r (rm_StopAll errs r)"

lemma rm_ok_bridge:
  assumes "rm_ok r" "mget (rm_consumers r) i = Some b" "ci_cfg b' = ci_cfg b" "cons_ok (rm_fresh r) i b'"
  shows "rm_ok (put_consumer i b' r)"
proof (rule rm_ok_put_consumer [OF assms(1,4)])
  have "claimed r (ConsSlot i) = Some (cons_claim (ci_cfg b'))" using assms(2,3) by simp
  then show "free_for (ConsSlot i) (cons_claim (ci_cfg b')) (claimed r)"
    using exclusiveD [OF rm_okD(5) [OF assms(1)]] unfolding free_for_def by blast
qed

lemma rm_step_ok: "rm_step r r' \<Longrightarrow> rm_ok r \<Longrightarrow> rm_ok r'"
proof (induction rule: rm_step.induct)
  case (c_opened r i b)
  then show ?case using rm_okD(4) [OF c_opened(2,1)]
    by (auto intro!: rm_ok_bridge simp: bridge_opened_def cons_ok_def)
next
  case (c_closed r i b)
  then show ?case using rm_okD(4) [OF c_closed(2,1)]
    by (auto intro!: rm_ok_bridge simp: bridge_closed_def cons_ok_def)
qed (simp_all add: rm_ok_StartProvider rm_ok_Stop rm_ok_Remove rm_ok_BootstrapProviders
      rm_ok_provider_ended rm_ok_StartConsumer rm_ok_BootstrapConsumers rm_ok_consumer_ended rm_ok_StopAll)

abbreviation rm_reachable :: "rev_manager \<Rightarrow> bool" where
  "rm_reachable \<equiv> reachable_from (\<lambda>r. r = NewReverseManager) rm_step"

interpretation rmi: invariant_system "\<lambda>r. r = NewReverseManager" rm_step rm_ok
  by unfold_locales (auto intro: rm_step_ok rm_ok_new)

section \<open>What a start does\<close>

lemma provider_admit_normal:
  assumes "rm_ok r" "q = normalizeReverseProviderPersist p" "pp_ID q \<noteq> []" "validateProvider q = None"
    and r': "r' = wait_prev_provider (re_runErr env) (pp_ID q) r"
  shows "provider_admit env p r =
    ((case checkProviderConflictsLocked (pp_ID q) q r' of Some e \<Rightarrow> Inl e | None \<Rightarrow> Inr q), r')"
    "checkProviderConflictsLocked (pp_ID q) q r' = None \<longleftrightarrow> free_for (ProvSlot (pp_ID q)) (prov_claim q) (claimed r)"
proof -
  have "trim_space (pp_ID q) = pp_ID q"
    by (simp add: assms(2) normalizeReverseProviderPersist_def Let_def)
  then show "provider_admit env p r =
    ((case checkProviderConflictsLocked (pp_ID q) q r' of Some e \<Rightarrow> Inl e | None \<Rightarrow> Inr q), r')"
    using assms(3,4) by (simp add: provider_admit_def assms(2) [symmetric] r' Let_def split: option.split)
  show "checkProviderConflictsLocked (pp_ID q) q r' = None \<longleftrightarrow> free_for (ProvSlot (pp_ID q)) (prov_claim q) (claimed r)"
    using check_provider_iff [OF _ validProvider_port [OF assms(4)]] assms(1)
    by (simp add: r' rm_ok_wait_prev)
qed

lemma claimed_provider_attach:
  "claimed (snd (provider_attach q res r)) = (claimed r)(ProvSlot (pp_ID q) \<mapsto> prov_claim q)"
  by (simp add: provider_attach_def claimed_put_provider prov_claim_def split: sum.split)

lemma StartProvider_enabled:
  assumes "rm_ok r" "q = normalizeReverseProviderPersist p" "pp_ID q \<noteq> []" "validateProvider q = None"
    and "pp_EffectiveEnabled q"
    and r': "r' = wait_prev_provider (re_runErr env) (pp_ID q) r"
  shows "StartProvider env p r =
    (case checkProviderConflictsLocked (pp_ID q) q r' of
       Some e \<Rightarrow> (Inl e, r')
     | None \<Rightarrow> provider_attach q (provider_handshake env q) r')"
  using provider_admit_normal(1) [OF assms(1-4) refl] assms(5)
  by (simp add: StartProvider_def r' split: option.split)

lemma consumer_admit_normal:
  assumes "rm_ok r" "d = NormalizeReverseConsumerPersist c" "validateConsumer d = None"
    and r': "r' = wait_prev_consumer (re_runErr env) (cp_ID d) r"
  shows "consumer_admit env c r =
    ((case checkConsumerConflictsLocked (cp_ID d) d r' of Some e \<Rightarrow> Inl e | None \<Rightarrow> Inr d), r')"
    "checkConsumerConflictsLocked (cp_ID d) d r' = None \<longleftrightarrow> free_for (ConsSlot (cp_ID d)) (cons_claim d) (claimed r)"
proof -
  show "consumer_admit env c r =
    ((case checkConsumerConflictsLocked (cp_ID d) d r' of Some e \<Rightarrow> Inl e | None \<Rightarrow> Inr d), r')"
    using assms(3) by (simp add: consumer_admit_def assms(2) [symmetric] r' Let_def split: option.split)
  have "trim_space (cp_Listen d) = cp_Listen d" "cp_Listen d \<noteq> []"
    using validConsumer_listen [OF assms(3)] assms(2)
    by (simp_all add: NormalizeReverseConsumerPersist_def Let_def)
  then show "checkConsumerConflictsLocked (cp_ID d) d r' = None \<longleftrightarrow> free_for (ConsSlot (cp_ID d)) (cons_claim d) (claimed r)"
    using check_consumer_iff assms(1) by (simp add: r' rm_ok_wait_prev)
qed

lemma claimed_consumer_attach:
  "claimed (snd (consumer_attach d res r)) = (claimed r)(ConsSlot (cp_ID d) \<mapsto> cons_claim d)"
  by (simp add: consumer_attach_def claimed_put_consumer idle_consumer_def split: option.split)

lemma StartConsumer_enabled:
  assumes "rm_ok r" "d = NormalizeReverseConsumerPersist c" "validateConsumer d = None"
    and "cp_EffectiveEnabled d"
    and r': "r' = wait_prev_consumer (re_runErr env) (cp_ID d) r"
  shows "StartConsumer env c r =
    (case checkConsumerConflictsLocked (cp_ID d) d r' of
       Some e \<Rightarrow> (Some e, r')
     | None \<Rightarrow> consumer_attach d (re_listen env) r')"
  using consumer_admit_normal(1) [OF assms(1-3) refl] assms(4)
  by (simp add: StartConsumer_def r' split: option.split)

text \<open>Waiting for a running provider leaves it stopped, with its configuration.\<close>

lemma wait_stops_provider:
  assumes "rm_ok r" "mget (rm_providers r) i = Some a" "pi_ws a \<noteq> None"
  shows "mget (rm_providers (wait_prev_provider e i r)) i =
    Some (a\<lparr>pi_lastRunErr := e, pi_ws := None, pi_serveDone := False\<rparr>)"
  using assms rm_okD(3) [OF assms(1,2)]
  by (auto simp: wait_prev_provider_def waitProviderEnded_def provider_ended_def prov_ok_def)

section \<open>Two starts at once\<close>

text \<open>The conflict check and the registration are two critical sections with the handshake in
  between: two starts that expose the same port can both pass the check.\<close>

lemma concurrent_starts_conflict:
  assumes "normalizeReverseProviderPersist p = p" "normalizeReverseProviderPersist q = q"
    and "pp_ID p \<noteq> []" "pp_ID q \<noteq> []" "pp_ID p \<noteq> pp_ID q"
    and "validateProvider p = None" "validateProvider q = None" "prov_claim p = prov_claim q"
  shows "\<exists>r1 r2 r3. provider_admit env p NewReverseManager = (Inr p, NewReverseManager)
    \<and> provider_admit env q NewReverseManager = (Inr q, NewReverseManager)
    \<and> snd (provider_attach p (Inr c1) NewReverseManager) = r1
    \<and> snd (provider_attach q (Inr c2) r1) = r2
    \<and> \<not> exclusive (claimed r2)"
proof -
  have free: "free_for s e (claimed NewReverseManager)" for s e
    unfolding free_for_def
  proof (intro allI impI)
    show "claimed NewReverseManager t \<noteq> Some e" for t by (cases t) (simp_all add: NewReverseManager_def)
  qed
  have w: "wait_prev_provider e i NewReverseManager = NewReverseManager" for e i
    by (simp add: wait_prev_provider_def NewReverseManager_def)
  let ?r2 = "snd (provider_attach q (Inr c2) (snd (provider_attach p (Inr c1) NewReverseManager)))"
  have "claimed ?r2 (ProvSlot (pp_ID p)) = Some (prov_claim p)"
    "claimed ?r2 (ProvSlot (pp_ID q)) = Some (prov_claim p)"
    using assms(5,8) by (simp_all add: claimed_provider_attach del: claimed.simps)
  then have "\<not> exclusive (claimed ?r2)"
    using assms(5) by (auto simp del: claimed.simps dest: exclusiveD)
  moreover have "provider_admit env p NewReverseManager = (Inr p, NewReverseManager)"
    using provider_admit_normal [OF rm_ok_new assms(1) [symmetric] assms(3,6) refl, of env] free
    by (simp add: w del: claimed.simps split: option.splits)
  moreover have "provider_admit env q NewReverseManager = (Inr q, NewReverseManager)"
    using provider_admit_normal [OF rm_ok_new assms(2) [symmetric] assms(4,7) refl, of env] free
    by (simp add: w del: claimed.simps split: option.splits)
  ultimately show ?thesis by blast
qed

section \<open>The channel id of an entry\<close>

lemma provider_attach_entry:
  "fst (provider_attach q res r) = Inr ch \<Longrightarrow>
     mget (rm_providers (snd (provider_attach q res r))) (pp_ID q) =
       Some \<lparr>pi_cfg = q\<lparr>pp_ChannelID := trim_space ch\<rparr>, pi_channelID = ch, pi_ws = Some (rm_fresh r),
             pi_serveDone = True, pi_lastRunErr = None\<rparr>"
  by (auto simp: provider_attach_def put_provider_def split: sum.splits)

text \<open>An entry stopped, by the user or by a lost connection, keeps the channel id it was given.\<close>

lemma cfg_after_stop:
  "map_option pi_cfg (mget (rm_providers (provider_ended w i e r)) j) = map_option pi_cfg (mget (rm_providers r) j)"
  "map_option pi_cfg (mget (rm_providers (StopProvider e i r)) j) = map_option pi_cfg (mget (rm_providers r) j)"
  by (auto simp: provider_ended_def StopProvider_def Let_def wait_prev_provider_def waitProviderEnded_def
      split: option.split)

lemma Merge_stored_channel:
  assumes "map_option pi_cfg (mget (rm_providers r) (trim_space (pp_ID p))) = Some cfg"
    and "trim_space (pp_ID p) \<noteq> []" "trim_space (pp_ChannelID p) = []"
    and "trim_space (pp_ChannelID cfg) = ch" "ch \<noteq> []"
  shows "pp_ChannelID (MergePreserveProviderTunnelID p r) = ch"
  using assms
  by (auto simp: MergePreserveProviderTunnelID_def normalizeReverseProviderPersist_def Let_def)

section \<open>An example\<close>

definition demo_prov :: "string \<Rightarrow> int \<Rightarrow> ProviderPersist" where
  "demo_prov i p = \<lparr>pp_ID = i, pp_ServerURL = ''ws://h'', pp_LocalHost = ''127.0.0.1'', pp_LocalPort = p,
     pp_APIKey = [], pp_ChannelID = [], pp_Enabled = None\<rparr>"

definition demo_env :: rm_env where
  "demo_env = \<lparr>re_newID = ''n'', re_runErr = Some (ServeFailed ''closed''),
     re_net = (\<lambda>_. (True, True, Some (provider_ack hex_uuid_string uuid_nil))), re_listen = None\<rparr>"

definition demo_channel :: string where
  "demo_channel = hex_uuid_string uuid_nil"

lemma demo_ws: "trim_space ''ws://h'' = ''ws://h''" "NormalizeServerURLForWS ''ws://h'' = ''ws://h''"
proof -
  have "trim_space ''h'' = ''h''" by (simp add: trim_space_plain space_heads_code space_lasts_code)
  then have h: "tight ''h''" using tight_suffix [of "[]" "''h''"] by simp
  show "trim_space ''ws://h'' = ''ws://h''" "NormalizeServerURLForWS ''ws://h'' = ''ws://h''"
    using Normalize_ws(1) [OF h] trim_ws(1) [OF h] by simp_all
qed

lemma demo_prov_normal: "trim_space i = i \<Longrightarrow> normalizeReverseProviderPersist (demo_prov i p) = demo_prov i p"
  by (simp add: normalizeReverseProviderPersist_def demo_prov_def Let_def plain_hosts demo_ws)

lemma demo_prov_valid: "1 \<le> p \<Longrightarrow> p \<le> 65535 \<Longrightarrow> validateProvider (demo_prov i p) = None"
  by (simp add: validateProvider_def demo_prov_def demo_ws)

lemma demo_prov_enabled: "pp_EffectiveEnabled (demo_prov i p)"
  by (simp add: pp_EffectiveEnabled_def demo_prov_def)

lemma demo_handshake: "provider_handshake demo_env (demo_prov i p) = Inr demo_channel"
  using handshake_reply_ack [OF hex_uuid_text, of uuid_nil]
  by (simp add: provider_handshake_def handshake_with_def demo_env_def demo_prov_def demo_channel_def
      HandshakeReverseProvider_def Let_def)

lemma demo_channel_plain: "trim_space demo_channel = demo_channel" "demo_channel \<noteq> []"
proof -
  show "trim_space demo_channel = demo_channel" by (simp add: demo_channel_def hex_uuid_string_def)
  show "demo_channel \<noteq> []" using hex_uuid_text by (auto simp: demo_channel_def uuid_text_def)
qed

definition demo_manager :: rev_manager where
  "demo_manager = snd (provider_attach (demo_prov ''a'' 80) (Inr demo_channel)
     (snd (provider_attach (demo_prov ''b'' 81) (Inr demo_channel) NewReverseManager)))"

lemma demo_ids: "trim_space ''a'' = ''a''" "trim_space ''b'' = ''b''"
  by (simp_all add: trim_space_plain space_heads_code space_lasts_code)

lemma rm_new_reachable: "rm_reachable NewReverseManager"
  by (rule reachable_from.start) simp

lemma demo_start:
  assumes "rm_ok r" "trim_space i = i" "i \<noteq> []" "1 \<le> p" "p \<le> 65535" "mget (rm_providers r) i = None"
    and "free_for (ProvSlot i) (prov_claim (demo_prov i p)) (claimed r)"
  shows "StartProvider demo_env (demo_prov i p) r = provider_attach (demo_prov i p) (Inr demo_channel) r"
proof -
  have w: "wait_prev_provider (re_runErr demo_env) i r = r"
    using assms(6) by (simp add: wait_prev_provider_def)
  have i: "pp_ID (demo_prov i p) = i" by (simp add: demo_prov_def)
  have "checkProviderConflictsLocked i (demo_prov i p) r = None"
    using check_provider_iff [OF assms(1), of "demo_prov i p" i] assms(4,7) by (simp add: demo_prov_def)
  then show ?thesis
    using StartProvider_enabled [OF assms(1) demo_prov_normal [OF assms(2), of p, symmetric] _
        demo_prov_valid [OF assms(4,5)] demo_prov_enabled refl, of demo_env] assms(3)
    by (simp add: i w demo_handshake)
qed

lemma demo_manager_entries:
  "mget (rm_providers demo_manager) ''a'' = Some \<lparr>pi_cfg = (demo_prov ''a'' 80)\<lparr>pp_ChannelID := demo_channel\<rparr>,
     pi_channelID = demo_channel, pi_ws = Some 1, pi_serveDone = True, pi_lastRunErr = None\<rparr>"
  "mget (rm_providers demo_manager) ''b'' = Some \<lparr>pi_cfg = (demo_prov ''b'' 81)\<lparr>pp_ChannelID := demo_channel\<rparr>,
     pi_channelID = demo_channel, pi_ws = Some 0, pi_serveDone = True, pi_lastRunErr = None\<rparr>"
  by (simp_all add: demo_manager_def provider_attach_def put_provider_def NewReverseManager_def demo_prov_def
      demo_channel_plain)

lemma demo_manager_reachable: "rm_reachable demo_manager"
proof -
  let ?r1 = "snd (provider_attach (demo_prov ''b'' 81) (Inr demo_channel) NewReverseManager)"
  have free: "free_for s e (claimed NewReverseManager)" for s and e :: "string + endpoint"
    unfolding free_for_def
  proof (intro allI impI)
    show "claimed NewReverseManager t \<noteq> Some e" for t by (cases t) (simp_all add: NewReverseManager_def)
  qed
  have s1: "?r1 = snd (StartProvider demo_env (demo_prov ''b'' 81) NewReverseManager)"
    using demo_start [OF rm_ok_new demo_ids(2), of 81] free by (simp add: NewReverseManager_def)
  then have r1: "rm_reachable ?r1"
    using reachable_from.step [OF rm_new_reachable p_start] by metis
  have "prov_claim (demo_prov ''b'' 81) \<noteq> prov_claim (demo_prov ''a'' 80)"
    by (simp add: prov_claim_def expose_endpoint_def demo_prov_def)
  then have "free_for (ProvSlot ''a'') (prov_claim (demo_prov ''a'' 80)) (claimed ?r1)"
    using free [of "ProvSlot ''a''" "prov_claim (demo_prov ''a'' 80)"]
    by (auto simp: claimed_provider_attach free_for_def simp del: claimed.simps)
  moreover have "mget (rm_providers ?r1) ''a'' = None"
    by (simp add: provider_attach_def put_provider_def NewReverseManager_def demo_prov_def)
  ultimately have "demo_manager = snd (StartProvider demo_env (demo_prov ''a'' 80) ?r1)"
    using demo_start [OF rmi.reachable_inv [OF r1] demo_ids(1), of 80] by (simp add: demo_manager_def)
  then show ?thesis using reachable_from.step [OF r1 p_start] by metis
qed

lemma free_forD: "free_for s e f \<Longrightarrow> t \<noteq> s \<Longrightarrow> f t \<noteq> Some e"
  by (simp add: free_for_def)

lemma demo_claim: "claimed demo_manager (ProvSlot ''a'') = Some (prov_claim (demo_prov i 80))"
  by (simp add: demo_manager_entries prov_claim_def demo_prov_def)

lemma demo_claim_taken:
  "\<not> free_for (ProvSlot ''b'') (prov_claim (demo_prov ''b'' 80)) (claimed demo_manager)"
  using free_forD [of "ProvSlot ''b''" "prov_claim (demo_prov ''b'' 80)" "claimed demo_manager" "ProvSlot ''a''"]
    demo_claim [of "''b''"] by blast

section \<open>Properties\<close>



text \<open>C21: Starting a provider follows the table of claims. A valid, enabled entry is accepted if and
  only if no other entry claims its endpoint; then it claims the endpoint, whether or not the
  handshake succeeds, and the answer is the handshake's. Otherwise the start is refused and the
  claims are as before.\<close>

theorem provider_start_decides:
  assumes "rm_reachable r" "q = normalizeReverseProviderPersist p" "pp_ID q \<noteq> []"
    and "validateProvider q = None" "pp_EffectiveEnabled q" "StartProvider env p r = (res, r')"
  shows "if free_for (ProvSlot (pp_ID q)) (prov_claim q) (claimed r)
    then claimed r' = (claimed r)(ProvSlot (pp_ID q) \<mapsto> prov_claim q)
         \<and> res = map_sum HandshakeFailed id (provider_handshake env q)
    else isl res \<and> claimed r' = claimed r"
proof -
  have ok: "rm_ok r" using assms(1) by (rule rmi.reachable_inv)
  let ?w = "wait_prev_provider (re_runErr env) (pp_ID q) r"
  have s: "(res, r') = (case checkProviderConflictsLocked (pp_ID q) q ?w of
       Some e \<Rightarrow> (Inl e, ?w) | None \<Rightarrow> provider_attach q (provider_handshake env q) ?w)"
    using StartProvider_enabled [OF ok assms(2-5) refl, of env] assms(6) by simp
  have f: "checkProviderConflictsLocked (pp_ID q) q ?w = None \<longleftrightarrow>
      free_for (ProvSlot (pp_ID q)) (prov_claim q) (claimed r)"
    using provider_admit_normal(2) [OF ok assms(2-4) refl] .
  have "fst (provider_attach q x ?w) = map_sum HandshakeFailed id x" for x
    by (simp add: provider_attach_def split: sum.split)
  with s f show ?thesis
    using claimed_provider_attach [of q "provider_handshake env q" ?w]
    by (cases "checkProviderConflictsLocked (pp_ID q) q ?w") (auto simp del: claimed.simps simp: prod_eq_iff)
qed

theorem provider_start_decides_witness:
  "isl (fst (StartProvider demo_env (demo_prov ''b'' 80) demo_manager))"
proof -
  note demo_claim_taken
  moreover have "pp_ID (demo_prov ''b'' 80) = ''b''" by (simp add: demo_prov_def)
  ultimately show ?thesis
    using provider_start_decides [OF demo_manager_reachable demo_prov_normal [OF demo_ids(2), of 80, symmetric]
        _ demo_prov_valid demo_prov_enabled surjective_pairing, of demo_env]
    by (simp split: if_splits)
qed

text \<open>C38: A refused change stops the running tunnel. When the entry of a running provider is started
  again with an endpoint that another entry claims, the start is refused, and the provider, which was
  serving until then, is down, with its old configuration.\<close>

theorem refused_restart_stops_provider:
  assumes "rm_reachable r" "q = normalizeReverseProviderPersist p" "pp_ID q \<noteq> []"
    and "validateProvider q = None" "pp_EffectiveEnabled q" "StartProvider env p r = (res, r')"
    and "mget (rm_providers r) (pp_ID q) = Some a" "pi_ws a \<noteq> None"
    and "\<not> free_for (ProvSlot (pp_ID q)) (prov_claim q) (claimed r)"
  shows "isl res \<and> (\<exists>a'. mget (rm_providers r') (pp_ID q) = Some a' \<and> pi_cfg a' = pi_cfg a
    \<and> \<not> vr_Running (snapshotProvider a'))"
proof -
  have ok: "rm_ok r" using assms(1) by (rule rmi.reachable_inv)
  let ?w = "wait_prev_provider (re_runErr env) (pp_ID q) r"
  obtain e where "checkProviderConflictsLocked (pp_ID q) q ?w = Some e"
    using provider_admit_normal(2) [OF ok assms(2-4) refl] assms(9) by blast
  then have "res = Inl e" "r' = ?w"
    using StartProvider_enabled [OF ok assms(2-5) refl, of env] assms(6) by simp_all
  with wait_stops_provider [OF ok assms(7,8)] show ?thesis
    by (simp add: snapshotProvider_def Let_def)
qed

theorem refused_restart_stops_provider_witness:
  "\<exists>a'. mget (rm_providers (snd (StartProvider demo_env (demo_prov ''b'' 80) demo_manager))) ''b'' = Some a'
     \<and> pp_LocalPort (pi_cfg a') = 81 \<and> \<not> vr_Running (snapshotProvider a')"
proof -
  note demo_claim_taken
  moreover have "pp_ID (demo_prov ''b'' 80) = ''b''" by (simp add: demo_prov_def)
  ultimately show ?thesis
    using refused_restart_stops_provider [OF demo_manager_reachable demo_prov_normal [OF demo_ids(2), of 80, symmetric]
        _ demo_prov_valid demo_prov_enabled surjective_pairing, where env = demo_env]
    by (auto simp: demo_manager_entries demo_prov_def)
qed

text \<open>C22: A provider keeps its channel. After a successful start the entry remembers the channel id
  the server confirmed, also when the provider is stopped or loses its connection; an edit of the
  entry that leaves the channel id blank gets it back, and the next start offers it first and asks
  for a new one only if the server refuses it.\<close>

theorem provider_keeps_channel:
  assumes "rm_reachable r" "q = normalizeReverseProviderPersist p" "pp_ID q \<noteq> []"
    and "validateProvider q = None" "pp_EffectiveEnabled q" "StartProvider env p r = (Inr ch, r')"
    and "trim_space ch \<noteq> []" "trim_space (pp_ID p') = pp_ID q" "trim_space (pp_ChannelID p') = []"
    and "r2 = StopProvider e (pp_ID q) r' \<or> r2 = provider_ended w i e r'"
    and "m = MergePreserveProviderTunnelID p' r2"
  shows "pp_ChannelID m = trim_space ch
    \<and> provider_handshake env' m =
        (case handshake_with env' m (trim_space ch) of Inr c \<Rightarrow> Inr c | Inl _ \<Rightarrow> handshake_with env' m [])"
proof -
  have ok: "rm_ok r" using assms(1) by (rule rmi.reachable_inv)
  let ?w = "wait_prev_provider (re_runErr env) (pp_ID q) r"
  have "checkProviderConflictsLocked (pp_ID q) q ?w = None"
    "provider_attach q (provider_handshake env q) ?w = (Inr ch, r')"
    using StartProvider_enabled [OF ok assms(2-5) refl, of env] assms(6) by (auto split: option.splits)
  then have "mget (rm_providers r') (pp_ID q) = Some \<lparr>pi_cfg = q\<lparr>pp_ChannelID := trim_space ch\<rparr>,
      pi_channelID = ch, pi_ws = Some (rm_fresh ?w), pi_serveDone = True, pi_lastRunErr = None\<rparr>"
    using provider_attach_entry [of q "provider_handshake env q" ?w ch] by simp
  moreover have stored: "map_option pi_cfg (mget (rm_providers r2) (pp_ID q))
      = map_option pi_cfg (mget (rm_providers r') (pp_ID q))"
    using assms(10) cfg_after_stop by blast
  ultimately have "map_option pi_cfg (mget (rm_providers r2) (trim_space (pp_ID p'))) =
      Some (q\<lparr>pp_ChannelID := trim_space ch\<rparr>)"
    using stored assms(8) by simp
  then have "pp_ChannelID m = trim_space ch"
    unfolding assms(11)
  proof (rule Merge_stored_channel)
    show "trim_space (pp_ID p') \<noteq> []" using assms(3,8) by simp
    show "trim_space (pp_ChannelID (q\<lparr>pp_ChannelID := trim_space ch\<rparr>)) = trim_space ch" by simp
  qed (rule assms(9), rule assms(7))
  with assms(7) show ?thesis by (simp add: provider_handshake_def Let_def)
qed

theorem provider_keeps_channel_witness:
  "\<exists>r'. StartProvider demo_env (demo_prov ''a'' 80) demo_manager = (Inr demo_channel, r')
     \<and> pp_ChannelID (MergePreserveProviderTunnelID (demo_prov ''a'' 82) (StopProvider None ''a'' r')) = demo_channel"
proof -
  obtain res r' where s: "StartProvider demo_env (demo_prov ''a'' 80) demo_manager = (res, r')" by fastforce
  have i: "pp_ID (demo_prov ''a'' 80) = ''a''" "pp_ID (demo_prov ''a'' 82) = ''a''"
    "pp_ChannelID (demo_prov ''a'' 82) = []" by (simp_all add: demo_prov_def)
  from demo_claim [of "''a''"] have free: "free_for (ProvSlot ''a'') (prov_claim (demo_prov ''a'' 80)) (claimed demo_manager)"
    using exclusiveD [OF rm_okD(5) [OF rmi.reachable_inv [OF demo_manager_reachable]]]
    unfolding free_for_def by blast
  let ?w = "wait_prev_provider (re_runErr demo_env) ''a'' demo_manager"
  have "checkProviderConflictsLocked ''a'' (demo_prov ''a'' 80) ?w = None"
    using provider_admit_normal(2) [OF rmi.reachable_inv [OF demo_manager_reachable]
        demo_prov_normal [OF demo_ids(1), of 80, symmetric] _ demo_prov_valid refl, of demo_env] free i
    by simp
  then have "res = Inr demo_channel"
    using StartProvider_enabled [OF rmi.reachable_inv [OF demo_manager_reachable]
        demo_prov_normal [OF demo_ids(1), of 80, symmetric] _ demo_prov_valid demo_prov_enabled refl, of demo_env] s i
    by (simp add: demo_handshake provider_attach_def)
  then have s': "StartProvider demo_env (demo_prov ''a'' 80) demo_manager = (Inr demo_channel, r')"
    using s by simp
  have "pp_ChannelID (MergePreserveProviderTunnelID (demo_prov ''a'' 82) (StopProvider None ''a'' r'))
      = trim_space demo_channel"
  proof (rule provider_keeps_channel [THEN conjunct1, OF demo_manager_reachable _ _ _ _ s'])
    show "demo_prov ''a'' 80 = normalizeReverseProviderPersist (demo_prov ''a'' 80)"
      by (rule demo_prov_normal [OF demo_ids(1), symmetric])
    show "pp_ID (demo_prov ''a'' 80) \<noteq> []" by (simp add: i)
    show "validateProvider (demo_prov ''a'' 80) = None" by (rule demo_prov_valid) simp_all
    show "pp_EffectiveEnabled (demo_prov ''a'' 80)" by (rule demo_prov_enabled)
    show "trim_space demo_channel \<noteq> []" by (simp add: demo_channel_plain)
    show "trim_space (pp_ID (demo_prov ''a'' 82)) = pp_ID (demo_prov ''a'' 80)" by (simp add: i demo_ids)
    show "trim_space (pp_ChannelID (demo_prov ''a'' 82)) = []" by (simp add: i)
    show "StopProvider None ''a'' r' = StopProvider None (pp_ID (demo_prov ''a'' 80)) r'
        \<or> StopProvider None ''a'' r' = provider_ended 0 ''a'' None r'" by (simp add: i)
  qed (rule refl)
  with s' show ?thesis by (auto simp: demo_channel_plain)
qed

end
