(* ===== verification/ProviderWait.thy ===== *)
theory ProviderWait
  imports Prelude
begin

text \<open>
  Waiting for a provider's goroutine without the lock: \<open>waitProviderEnded\<close> and the end of the
  goroutine that \<open>StartProvider\<close> starts (\<open>internal/clienttunnel/reverse_manager.go\<close>), at the
  granularity of their reads and writes of the shared entry. The waiter reads the fields
  \<open>serveDone\<close> and \<open>ws\<close> of the entry again and again; the goroutine sets both to nil under the lock
  and only then closes the channel.
\<close>

datatype wait_pc = AtEntry | AtWsTest | AtWsClose | AtReceive | Waiting | Returned | Panicked | Stuck

datatype serve_pc = Serving | Ended | Cleared | Finished

text \<open>\<open>ww_ws\<close> and \<open>ww_serveDone\<close>: the field is not nil; \<open>ww_closed\<close>: the channel is closed.\<close>

record wait_world =
  ww_ws :: bool
  ww_serveDone :: bool
  ww_closed :: bool
  ww_waiter :: wait_pc
  ww_serving :: serve_pc

definition wait_init :: wait_world where
  "wait_init = \<lparr>ww_ws = True, ww_serveDone = True, ww_closed = False, ww_waiter = AtEntry,
     ww_serving = Serving\<rparr>"

text \<open>One read of the waiter. Closing a nil connection panics; receiving from a nil channel never
  returns.\<close>

fun waiter_step :: "wait_world \<Rightarrow> wait_world option" where
  "waiter_step s =
     (case ww_waiter s of
        AtEntry \<Rightarrow> Some (s\<lparr>ww_waiter := (if ww_serveDone s then AtWsTest else Returned)\<rparr>)
      | AtWsTest \<Rightarrow> Some (s\<lparr>ww_waiter := (if ww_ws s then AtWsClose else AtReceive)\<rparr>)
      | AtWsClose \<Rightarrow> Some (s\<lparr>ww_waiter := (if ww_ws s then AtReceive else Panicked)\<rparr>)
      | AtReceive \<Rightarrow> Some (s\<lparr>ww_waiter := (if ww_serveDone s then Waiting else Stuck)\<rparr>)
      | Waiting \<Rightarrow> if ww_closed s then Some (s\<lparr>ww_waiter := Returned\<rparr>) else None
      | _ \<Rightarrow> None)"

text \<open>The goroutine: \<open>ServeReverseProvider\<close> returns (the connection may fail at any time), the
  fields are cleared, the channel is closed.\<close>

fun server_step :: "wait_world \<Rightarrow> wait_world option" where
  "server_step s =
     (case ww_serving s of
        Serving \<Rightarrow> Some (s\<lparr>ww_serving := Ended\<rparr>)
      | Ended \<Rightarrow> Some (s\<lparr>ww_serving := Cleared, ww_ws := False, ww_serveDone := False\<rparr>)
      | Cleared \<Rightarrow> Some (s\<lparr>ww_serving := Finished, ww_closed := True\<rparr>)
      | Finished \<Rightarrow> None)"

inductive wait_step :: "wait_world \<Rightarrow> wait_world \<Rightarrow> bool" where
  by_waiter: "waiter_step s = Some t \<Longrightarrow> wait_step s t"
| by_server: "server_step s = Some t \<Longrightarrow> wait_step s t"

inductive_cases wait_stepE: "wait_step s t"

definition closed_when_finished :: "wait_world \<Rightarrow> bool" where
  "closed_when_finished s \<longleftrightarrow> (ww_closed s \<longleftrightarrow> ww_serving s = Finished)"

interpretation pw: invariant_system "\<lambda>s. s = wait_init" wait_step closed_when_finished
proof
  show "s = wait_init \<Longrightarrow> closed_when_finished s" for s
    by (simp add: closed_when_finished_def wait_init_def)
  show "closed_when_finished s \<Longrightarrow> wait_step s t \<Longrightarrow> closed_when_finished t" for s t
    by (erule wait_stepE)
      (auto simp: closed_when_finished_def split: wait_pc.splits serve_pc.splits if_splits)
qed

lemma stuck_stays: "wait_step\<^sup>*\<^sup>* s t \<Longrightarrow> ww_waiter s = Stuck \<Longrightarrow> ww_waiter t = Stuck"
proof (induction rule: rtranclp_induct)
  case (step t u)
  then show ?case by (auto elim!: wait_stepE split: serve_pc.splits)
qed

text \<open>A schedule of the two: \<open>True\<close> lets the waiter go.\<close>

fun run_schedule :: "bool list \<Rightarrow> wait_world \<Rightarrow> wait_world option" where
  "run_schedule [] s = Some s"
| "run_schedule (b # bs) s =
     (case (if b then waiter_step s else server_step s) of
        None \<Rightarrow> None
      | Some t \<Rightarrow> run_schedule bs t)"

declare waiter_step.simps [simp del] server_step.simps [simp del]

lemma run_schedule_steps: "run_schedule bs s = Some t \<Longrightarrow> wait_step\<^sup>*\<^sup>* s t"
proof (induction bs arbitrary: s)
  case (Cons b bs)
  then obtain u where u: "(if b then waiter_step s else server_step s) = Some u" "run_schedule bs u = Some t"
    by (auto split: option.splits)
  then have "wait_step s u" by (cases b) (auto intro: wait_step.intros)
  then show ?case using Cons.IH [OF u(2)] by (rule converse_rtranclp_into_rtranclp)
qed simp

text \<open>The waiter closes the connection; the goroutine ends and clears the fields before the waiter
  reads \<open>serveDone\<close> for its receive.\<close>

definition hang_state :: wait_world where
  "hang_state = \<lparr>ww_ws = False, ww_serveDone = False, ww_closed = False, ww_waiter = Stuck,
     ww_serving = Cleared\<rparr>"

lemma hang_reachable: "wait_step\<^sup>*\<^sup>* wait_init hang_state"
proof (rule run_schedule_steps)
  show "run_schedule [True, True, True, False, False, True] wait_init = Some hang_state"
    by (simp add: wait_init_def hang_state_def waiter_step.simps server_step.simps)
qed

lemma final_states:
  assumes "wait_step\<^sup>*\<^sup>* wait_init s" "\<And>t. \<not> wait_step s t"
  shows "ww_waiter s \<in> {Returned, Panicked, Stuck}"
proof -
  have inv: "closed_when_finished s"
    using pw.steps_inv [OF _ assms(1)] by (simp add: closed_when_finished_def wait_init_def)
  have "server_step s = None" "waiter_step s = None"
    using assms(2) wait_step.intros by (metis not_None_eq)+
  with inv show ?thesis
    by (auto simp: closed_when_finished_def waiter_step.simps server_step.simps
        split: wait_pc.splits serve_pc.splits if_splits)
qed

section \<open>Properties\<close>



end
