(* ===== verification/Tunnel.thy ===== *)
theory Tunnel
  imports Dial Counter
begin

text \<open>
  The forward tunnel of the client, \<open>internal/clienttunnel/tunnel.go\<close>: a local listener whose
  connections are paired with WebSockets to the server. \<open>net.Listen\<close> and \<open>Close\<close> answer through
  arguments. A running tunnel is one with a listener; \<open>tn_pairs\<close> records the configuration of each
  live connection's goroutine.
\<close>

section \<open>Configuration\<close>

record TunnelConfig =
  tc_ID :: string
  tc_ServerURL :: string
  tc_ProxyID :: string
  tc_LocalPort :: int
  tc_APIKey :: string

definition zero_config :: TunnelConfig where
  "zero_config = \<lparr>tc_ID = [], tc_ServerURL = [], tc_ProxyID = [], tc_LocalPort = 0, tc_APIKey = []\<rparr>"

datatype tunnel_error =
    ServerURLRequired | ProxyIDRequired | LocalPortRange
  | LocalPortTaken int
  | ListenFailed string string
  | IDRequired

definition tc_validate :: "TunnelConfig \<Rightarrow> tunnel_error option" where
  "tc_validate c =
     (if trim_space (tc_ServerURL c) = [] then Some ServerURLRequired
      else if trim_space (tc_ProxyID c) = [] then Some ProxyIDRequired
      else if tc_LocalPort c < 1 \<or> tc_LocalPort c > 65535 then Some LocalPortRange
      else None)"

definition dialWebSocket ::
  "(string \<Rightarrow> url option) \<Rightarrow> (url \<Rightarrow> nat \<Rightarrow> dial_outcome) \<Rightarrow> int \<Rightarrow> TunnelConfig
     \<Rightarrow> (dial_error + nat) \<times> nat \<times> int list" where
  "dialWebSocket url_Parse dial nowUnix cfg =
     (let proxyID = trim_space (tc_ProxyID cfg)
      in DialWebSocketPath url_Parse dial nowUnix (tc_ServerURL cfg) (''/ws/'' @ proxyID) (tc_APIKey cfg))"

section \<open>The tunnel\<close>

record PublicLastConfig =
  pl_ServerURL :: string
  pl_ProxyID :: string
  pl_LocalPort :: int
  pl_AccessAuthConfigured :: bool

record TunnelStatus =
  st_Running :: bool
  st_Error :: string
  st_Listen :: string
  st_Message :: string
  st_ActiveConnections :: int
  st_LastConfig :: PublicLastConfig

record Tunnel =
  tn_listener :: "string option"
  tn_activeConns :: "64 word"
  tn_runErr :: string
  tn_activeCfg :: TunnelConfig
  tn_pairs :: "TunnelConfig list"

definition NewTunnel :: Tunnel where
  "NewTunnel = \<lparr>tn_listener = None, tn_activeConns = 0, tn_runErr = [], tn_activeCfg = zero_config,
     tn_pairs = []\<rparr>"

text \<open>\<open>net.Listen("tcp", addr)\<close>: an error text, or the address of the listener.\<close>

type_synonym listen = "string \<Rightarrow> string + string"

definition stopUnsafeLocked :: "string option \<Rightarrow> Tunnel \<Rightarrow> string option \<times> Tunnel" where
  "stopUnsafeLocked close_err t =
     (case tn_listener t of
        None \<Rightarrow> (None, t)
      | Some _ \<Rightarrow> (close_err, t\<lparr>tn_listener := None\<rparr>))"

definition loopback :: "int \<Rightarrow> string" where
  "loopback port = ''127.0.0.1:'' @ itoa port"

definition tn_Start :: "listen \<Rightarrow> TunnelConfig \<Rightarrow> Tunnel \<Rightarrow> tunnel_error option \<times> Tunnel" where
  "tn_Start net_Listen cfg t =
     (case tc_validate cfg of
        Some e \<Rightarrow> (Some e, t)
      | None \<Rightarrow>
          let t = snd (stopUnsafeLocked None t);
              t = t\<lparr>tn_runErr := []\<rparr>;
              addr = loopback (tc_LocalPort cfg)
          in (case net_Listen addr of
                Inl e \<Rightarrow> (Some (ListenFailed addr e), t\<lparr>tn_runErr := e\<rparr>)
              | Inr l \<Rightarrow> (None, t\<lparr>tn_listener := Some l, tn_activeCfg := cfg\<rparr>)))"

definition tn_Stop :: "string option \<Rightarrow> Tunnel \<Rightarrow> string option \<times> Tunnel" where
  "tn_Stop close_err t = stopUnsafeLocked close_err t"

text \<open>One round of \<open>acceptLoop\<close>, which runs while the listener is open, and the end of a
  connection's goroutine.\<close>

definition tn_accept :: "Tunnel \<Rightarrow> Tunnel" where
  "tn_accept t =
     (let cfg = tn_activeCfg t
      in t\<lparr>tn_activeConns := tn_activeConns t + 1, tn_pairs := tn_pairs t @ [cfg]\<rparr>)"

definition tn_pair_ends :: "TunnelConfig \<Rightarrow> Tunnel \<Rightarrow> Tunnel" where
  "tn_pair_ends c t = t\<lparr>tn_activeConns := tn_activeConns t - 1, tn_pairs := remove1 c (tn_pairs t)\<rparr>"

definition tn_Snapshot :: "Tunnel \<Rightarrow> TunnelStatus" where
  "tn_Snapshot t =
     (let raw = tn_activeCfg t;
          st = \<lparr>st_Running = False, st_Error = tn_runErr t, st_Listen = [], st_Message = [],
                st_ActiveConnections = sint (tn_activeConns t),
                st_LastConfig = \<lparr>pl_ServerURL = trim_space (tc_ServerURL raw),
                  pl_ProxyID = trim_space (tc_ProxyID raw), pl_LocalPort = tc_LocalPort raw,
                  pl_AccessAuthConfigured = AuthSecretsConfigured (tc_APIKey raw)\<rparr>\<rparr>
      in case tn_listener t of
           None \<Rightarrow> st
         | Some l \<Rightarrow> st\<lparr>st_Running := True, st_Listen := l,
             st_Message := ''websocket /ws/'' @ tc_ProxyID raw @ '' -> '' @ tc_ServerURL raw\<rparr>)"

section \<open>Laws\<close>

interpretation tnc: live_counter tn_accept "tn_pair_ends c" tn_activeConns for c
  by unfold_locales (simp_all add: tn_accept_def tn_pair_ends_def)

lemma stopUnsafeLocked_simps [simp]:
  "snd (stopUnsafeLocked e t) = t\<lparr>tn_listener := None\<rparr>"
  "fst (stopUnsafeLocked e t) = (if tn_listener t = None then None else e)"
  by (cases t, auto simp: stopUnsafeLocked_def split: option.splits)

lemma tn_Stop_simps [simp]: "snd (tn_Stop e t) = t\<lparr>tn_listener := None\<rparr>"
  by (simp add: tn_Stop_def)

lemma tn_Start_invalid: "tc_validate cfg = Some e \<Longrightarrow> tn_Start net_Listen cfg t = (Some e, t)"
  by (simp add: tn_Start_def)

lemma tn_Start_fails:
  "tc_validate cfg = None \<Longrightarrow> net_Listen (loopback (tc_LocalPort cfg)) = Inl e \<Longrightarrow>
     tn_Start net_Listen cfg t =
       (Some (ListenFailed (loopback (tc_LocalPort cfg)) e), t\<lparr>tn_listener := None, tn_runErr := e\<rparr>)"
  by (simp add: tn_Start_def)

lemma tn_Start_listens:
  "tc_validate cfg = None \<Longrightarrow> net_Listen (loopback (tc_LocalPort cfg)) = Inr l \<Longrightarrow>
     tn_Start net_Listen cfg t =
       (None, t\<lparr>tn_listener := Some l, tn_runErr := [], tn_activeCfg := cfg\<rparr>)"
  by (simp add: tn_Start_def)

lemma tn_Start_cases:
  obtains (invalid) e where "tc_validate cfg = Some e" "tn_Start net_Listen cfg t = (Some e, t)"
  | (fails) e where "tc_validate cfg = None" "net_Listen (loopback (tc_LocalPort cfg)) = Inl e"
      "tn_Start net_Listen cfg t =
         (Some (ListenFailed (loopback (tc_LocalPort cfg)) e), t\<lparr>tn_listener := None, tn_runErr := e\<rparr>)"
  | (listens) l where "tc_validate cfg = None" "net_Listen (loopback (tc_LocalPort cfg)) = Inr l"
      "tn_Start net_Listen cfg t = (None, t\<lparr>tn_listener := Some l, tn_runErr := [], tn_activeCfg := cfg\<rparr>)"
  by (cases "tc_validate cfg"; cases "net_Listen (loopback (tc_LocalPort cfg))")
    (auto simp: tn_Start_invalid tn_Start_fails tn_Start_listens)

text \<open>A tunnel keeps its live connections through restarts and stops: only their own ends remove
  them. The counter counts them.\<close>

definition tn_ok :: "Tunnel \<Rightarrow> bool" where
  "tn_ok t \<longleftrightarrow> tn_activeConns t = of_nat (length (tn_pairs t))
     \<and> (tn_listener t \<noteq> None \<longrightarrow> tc_validate (tn_activeCfg t) = None \<and> tn_runErr t = [])"

lemma tn_ok_new: "tn_ok NewTunnel"
  by (simp add: tn_ok_def NewTunnel_def)

lemma tn_ok_Start: "tn_ok t \<Longrightarrow> tn_ok (snd (tn_Start net_Listen cfg t))"
  by (cases rule: tn_Start_cases [of cfg net_Listen t]) (auto simp: tn_ok_def)

lemma tn_ok_Stop: "tn_ok t \<Longrightarrow> tn_ok (t\<lparr>tn_listener := None\<rparr>)"
  by (simp add: tn_ok_def)

lemma tn_ok_accept: "tn_ok t \<Longrightarrow> tn_ok (tn_accept t)"
  by (simp add: tn_ok_def tn_accept_def)

lemma tn_ok_pair_ends: "tn_ok t \<Longrightarrow> c \<in> set (tn_pairs t) \<Longrightarrow> tn_ok (tn_pair_ends c t)"
proof -
  assume ok: "tn_ok t" and c: "c \<in> set (tn_pairs t)"
  then obtain n where n: "length (tn_pairs t) = Suc n" by (cases "tn_pairs t") auto
  with c have "length (remove1 c (tn_pairs t)) = n" by (simp add: length_remove1)
  with ok n show ?thesis by (simp add: tn_ok_def tn_pair_ends_def)
qed

lemma pairs_Start [simp]: "tn_pairs (snd (tn_Start net_Listen cfg t)) = tn_pairs t"
  by (cases rule: tn_Start_cases [of cfg net_Listen t]) simp_all

end
