(* ===== verification/Registry.thy ===== *)
theory Registry
  imports Tunnel RowOrder
begin

text \<open>
  The registry of forward tunnels, \<open>internal/clienttunnel/registry.go\<close>: a map from ids to a tunnel
  and its last accepted configuration. \<open>Start\<close> looks for a taken port before it takes the lock, so
  it is modelled as that check and the locked rest, and as their sequential composition. The order
  of the lists it returns is Go's comparison function, an instance of \<open>linorder\<close>.
\<close>

section \<open>State\<close>

record reg_inst =
  ri_tun :: Tunnel
  ri_cfg :: TunnelConfig

type_synonym registry = "(string, reg_inst) gomap"

definition NewRegistry :: registry where
  "NewRegistry = []"

definition DefaultSingleProxyID :: string where
  "DefaultSingleProxyID = ''default''"

definition EnsureProxyID :: "string \<Rightarrow> string" where
  "EnsureProxyID i = (let s = trim_space i in if s \<noteq> [] then s else DefaultSingleProxyID)"

definition PublicFromConfig :: "TunnelConfig \<Rightarrow> PublicLastConfig" where
  "PublicFromConfig c =
     \<lparr>pl_ServerURL = NormalizeServerURLForWS (trim_space (tc_ServerURL c)),
      pl_ProxyID = trim_space (tc_ProxyID c), pl_LocalPort = tc_LocalPort c,
      pl_AccessAuthConfigured = AuthSecretsConfigured (tc_APIKey c)\<rparr>"

definition trimCopy :: "TunnelConfig \<Rightarrow> TunnelConfig" where
  "trimCopy c = c\<lparr>tc_ServerURL := NormalizeServerURLForWS (trim_space (tc_ServerURL c)),
     tc_ProxyID := trim_space (tc_ProxyID c), tc_APIKey := trim_space (tc_APIKey c),
     tc_ID := trim_space (tc_ID c)\<rparr>"

definition localPortBusy :: "int \<Rightarrow> string \<Rightarrow> registry \<Rightarrow> bool" where
  "localPortBusy port exceptID items \<longleftrightarrow>
     \<not> port < 1 \<and> list_ex (\<lambda>(i, it). i \<noteq> exceptID \<and> tc_LocalPort (ri_cfg it) = port) items"

section \<open>Operations\<close>

text \<open>What \<open>Start\<close> does before it takes the lock: the configuration to start, or an error.\<close>

definition start_check :: "TunnelConfig \<Rightarrow> registry \<Rightarrow> tunnel_error + TunnelConfig" where
  "start_check cfg items =
     (let cfg = trimCopy cfg;
          cfg = cfg\<lparr>tc_ID := EnsureProxyID (tc_ID cfg)\<rparr>
      in case tc_validate cfg of
           Some e \<Rightarrow> Inl e
         | None \<Rightarrow>
             if localPortBusy (tc_LocalPort cfg) (tc_ID cfg) items
             then Inl (LocalPortTaken (tc_LocalPort cfg)) else Inr cfg)"

text \<open>The instance \<open>Start\<close> works on: a new one has a new tunnel and Go's zero configuration.\<close>

definition inst_of :: "registry \<Rightarrow> string \<Rightarrow> reg_inst" where
  "inst_of items i =
     (case mget items i of Some inst \<Rightarrow> inst | None \<Rightarrow> \<lparr>ri_tun = NewTunnel, ri_cfg = zero_config\<rparr>)"

definition start_locked :: "listen \<Rightarrow> TunnelConfig \<Rightarrow> registry \<Rightarrow> tunnel_error option \<times> registry" where
  "start_locked net_Listen cfg items =
     (let inst = inst_of items (tc_ID cfg);
          (err, tun) = tn_Start net_Listen cfg (ri_tun inst);
          inst = inst\<lparr>ri_tun := tun\<rparr>
      in case err of
           Some e \<Rightarrow> (Some e, mput (tc_ID cfg) inst items)
         | None \<Rightarrow> (None, mput (tc_ID cfg) (inst\<lparr>ri_cfg := cfg\<rparr>) items))"

definition reg_Start :: "listen \<Rightarrow> TunnelConfig \<Rightarrow> registry \<Rightarrow> tunnel_error option \<times> registry" where
  "reg_Start net_Listen cfg items =
     (case start_check cfg items of
        Inl e \<Rightarrow> (Some e, items)
      | Inr cfg' \<Rightarrow> start_locked net_Listen cfg' items)"

definition reg_Stop :: "string option \<Rightarrow> string \<Rightarrow> registry \<Rightarrow> string option \<times> registry" where
  "reg_Stop close_err i items =
     (let i = trim_space i; i = (if i = [] then DefaultSingleProxyID else i)
      in case mget items i of
           None \<Rightarrow> (None, items)
         | Some inst \<Rightarrow>
             let (err, tun) = tn_Stop close_err (ri_tun inst)
             in (err, mput i (inst\<lparr>ri_tun := tun\<rparr>) items))"

definition reg_StopAll :: "registry \<Rightarrow> registry" where
  "reg_StopAll items =
     map (\<lambda>(i, it). (i, it\<lparr>ri_tun := snd (tn_Stop None (ri_tun it))\<rparr>)) items"

definition reg_Remove :: "string \<Rightarrow> registry \<Rightarrow> tunnel_error option \<times> registry" where
  "reg_Remove i items =
     (let i = trim_space i
      in if i = [] then (Some IDRequired, items)
         else (case mget items i of None \<Rightarrow> (None, items) | Some inst \<Rightarrow> (None, mdel i items)))"

definition PersistedConfigs :: "registry \<Rightarrow> TunnelConfig list" where
  "PersistedConfigs items =
     sort_key (\<lambda>c. RowKey (tc_LocalPort c) (tc_ID c)) (map (\<lambda>(_, it). ri_cfg it) items)"

record ProxyRow =
  pr_ID :: string
  pr_Running :: bool
  pr_Error :: string
  pr_Listen :: string
  pr_Message :: string
  pr_ActiveConnections :: int
  pr_LastConfig :: PublicLastConfig

definition proxy_row :: "string \<Rightarrow> reg_inst \<Rightarrow> ProxyRow" where
  "proxy_row i it =
     (let snap = tn_Snapshot (ri_tun it)
      in \<lparr>pr_ID = i, pr_Running = st_Running snap, pr_Error = st_Error snap,
          pr_Listen = st_Listen snap, pr_Message = st_Message snap,
          pr_ActiveConnections = st_ActiveConnections snap,
          pr_LastConfig = PublicFromConfig (ri_cfg it)\<rparr>)"

definition reg_Snapshot :: "registry \<Rightarrow> ProxyRow list" where
  "reg_Snapshot items =
     sort_key (\<lambda>r. RowKey (pl_LocalPort (pr_LastConfig r)) (pr_ID r)) (map (\<lambda>(i, it). proxy_row i it) items)"

text \<open>\<open>BootstrapFromConfigs\<close>; the \<open>n\<close>-th entry meets the network \<open>net n\<close>.\<close>

fun reg_Bootstrap :: "(nat \<Rightarrow> listen) \<Rightarrow> nat \<Rightarrow> TunnelConfig list \<Rightarrow> registry \<Rightarrow> registry" where
  "reg_Bootstrap net n [] items = items"
| "reg_Bootstrap net n (c # cs) items =
     (let cc = trimCopy c;
          cc = cc\<lparr>tc_ID := EnsureProxyID (tc_ID cc)\<rparr>
      in case tc_validate cc of
           Some e \<Rightarrow> reg_Bootstrap net (n + 1) cs items
         | None \<Rightarrow> reg_Bootstrap net (n + 1) cs (snd (reg_Start (net n) cc items)))"

section \<open>Configurations in normal form\<close>

text \<open>What \<open>Start\<close> registers: trimmed, with an id, valid.\<close>

definition cfg_clean :: "TunnelConfig \<Rightarrow> bool" where
  "cfg_clean c \<longleftrightarrow> trimCopy c = c \<and> tc_ID c \<noteq> [] \<and> tc_validate c = None"

lemma EnsureProxyID_trim [simp]: "trim_space (EnsureProxyID i) = EnsureProxyID i"
proof -
  have "trim_space ''default'' = ''default''"
    by (simp add: trim_space_plain space_heads_code space_lasts_code)
  then show ?thesis by (simp add: EnsureProxyID_def Let_def DefaultSingleProxyID_def)
qed

lemma EnsureProxyID_nonempty [simp]: "EnsureProxyID i \<noteq> []"
  by (simp add: EnsureProxyID_def Let_def DefaultSingleProxyID_def)

lemma EnsureProxyID_id: "trim_space i = i \<Longrightarrow> i \<noteq> [] \<Longrightarrow> EnsureProxyID i = i"
  by (simp add: EnsureProxyID_def)

lemma trimCopy_idem: "trimCopy (trimCopy c) = trimCopy c"
  by (simp add: trimCopy_def)

lemma trimCopy_ensured:
  "trimCopy ((trimCopy c)\<lparr>tc_ID := EnsureProxyID i\<rparr>) = (trimCopy c)\<lparr>tc_ID := EnsureProxyID i\<rparr>"
  by (simp add: trimCopy_def)

lemma cfg_clean_start: "start_check cfg items = Inr c \<Longrightarrow> cfg_clean c"
  by (auto simp: start_check_def Let_def cfg_clean_def trimCopy_ensured
      split: option.splits if_splits)

lemma trimCopy_ID: "tc_ID (trimCopy c) = trim_space (tc_ID c)"
  by (simp add: trimCopy_def)

lemma cfg_cleanD:
  assumes "cfg_clean c"
  shows "trimCopy c = c" "c\<lparr>tc_ID := EnsureProxyID (tc_ID c)\<rparr> = c" "tc_validate c = None"
    "1 \<le> tc_LocalPort c" "tc_LocalPort c \<le> 65535" "tc_ID c \<noteq> []" "trim_space (tc_ID c) = tc_ID c"
proof -
  show t: "trimCopy c = c" and v: "tc_validate c = None" and i: "tc_ID c \<noteq> []"
    using assms by (simp_all add: cfg_clean_def)
  from t show "trim_space (tc_ID c) = tc_ID c"
    by (metis trimCopy_ID)
  with i show "c\<lparr>tc_ID := EnsureProxyID (tc_ID c)\<rparr> = c" by (simp add: EnsureProxyID_id)
  from v show "1 \<le> tc_LocalPort c" "tc_LocalPort c \<le> 65535"
    by (auto simp: tc_validate_def split: if_splits)
qed

lemma zero_config_port [simp]: "tc_LocalPort zero_config = 0" "tc_ID zero_config = []"
  by (simp_all add: zero_config_def)

section \<open>The invariant\<close>

text \<open>An entry: either its tunnel never listened and its configuration is Go's zero value, or the
  configuration is a clean one registered under its own id; a listening tunnel uses it.\<close>

definition entry_ok :: "string \<Rightarrow> reg_inst \<Rightarrow> bool" where
  "entry_ok i it \<longleftrightarrow> i \<noteq> [] \<and> trim_space i = i \<and> tn_ok (ri_tun it)
     \<and> (ri_cfg it = zero_config \<and> tn_listener (ri_tun it) = None
        \<or> cfg_clean (ri_cfg it) \<and> tc_ID (ri_cfg it) = i)
     \<and> (tn_listener (ri_tun it) \<noteq> None \<longrightarrow> tn_activeCfg (ri_tun it) = ri_cfg it)"

definition port_free :: "int \<Rightarrow> string \<Rightarrow> registry \<Rightarrow> bool" where
  "port_free p i items \<longleftrightarrow>
     (\<forall>j b. mget items j = Some b \<longrightarrow> j \<noteq> i \<longrightarrow> tc_LocalPort (ri_cfg b) = p \<longrightarrow> p < 1)"

definition reg_ok :: "registry \<Rightarrow> bool" where
  "reg_ok items \<longleftrightarrow> distinct (mkeys items)
     \<and> (\<forall>i a. mget items i = Some a \<longrightarrow> entry_ok i a \<and> port_free (tc_LocalPort (ri_cfg a)) i items)"

lemma reg_okI:
  "distinct (mkeys items) \<Longrightarrow>
   (\<And>i a. mget items i = Some a \<Longrightarrow> entry_ok i a \<and> port_free (tc_LocalPort (ri_cfg a)) i items) \<Longrightarrow>
   reg_ok items"
  by (simp add: reg_ok_def)

lemma reg_okD:
  assumes "reg_ok items"
  shows "distinct (mkeys items)"
    and "mget items i = Some a \<Longrightarrow> entry_ok i a"
    and "mget items i = Some a \<Longrightarrow> port_free (tc_LocalPort (ri_cfg a)) i items"
  using assms by (auto simp: reg_ok_def)

lemma port_freeD: "port_free p i items \<Longrightarrow> mget items j = Some b \<Longrightarrow> j \<noteq> i \<Longrightarrow>
    tc_LocalPort (ri_cfg b) = p \<Longrightarrow> p < 1"
  by (simp add: port_free_def)

lemma localPortBusy_iff:
  "distinct (mkeys items) \<Longrightarrow> \<not> localPortBusy p i items \<longleftrightarrow> p < 1 \<or> port_free p i items"
  by (auto simp: localPortBusy_def port_free_def list_ex_iff mget_Some_iff)

text \<open>Every operation replaces, removes or adds one entry.\<close>

lemma port_free_mput:
  "port_free p j items \<Longrightarrow> j = i \<or> tc_LocalPort (ri_cfg it) \<noteq> p \<or> p < 1 \<Longrightarrow>
     port_free p j (mput i it items)"
  by (auto simp: port_free_def)

lemma reg_ok_mput:
  assumes "reg_ok items" "entry_ok i it" "port_free (tc_LocalPort (ri_cfg it)) i items"
  shows "reg_ok (mput i it items)"
proof (rule reg_okI)
  show "distinct (mkeys (mput i it items))"
    using reg_okD(1) [OF assms(1)] by (rule distinct_mput)
  fix j a
  assume j: "mget (mput i it items) j = Some a"
  show "entry_ok j a \<and> port_free (tc_LocalPort (ri_cfg a)) j (mput i it items)"
  proof (cases "j = i")
    case True
    with j assms(2,3) show ?thesis by (auto intro: port_free_mput)
  next
    case False
    with j have a: "mget items j = Some a" by simp
    moreover have "tc_LocalPort (ri_cfg it) \<noteq> tc_LocalPort (ri_cfg a) \<or> tc_LocalPort (ri_cfg a) < 1"
      using port_freeD [OF assms(3) a False] by auto
    ultimately show ?thesis
      using reg_okD(2,3) [OF assms(1) a] by (auto intro: port_free_mput)
  qed
qed

lemma reg_ok_keep:
  assumes "reg_ok items" "mget items i = Some it" "ri_cfg it' = ri_cfg it" "entry_ok i it'"
  shows "reg_ok (mput i it' items)"
  using assms reg_okD(3) [OF assms(1,2)] by (intro reg_ok_mput) simp_all

lemma reg_ok_mdel: "reg_ok items \<Longrightarrow> reg_ok (mdel i items)"
  by (auto simp: reg_ok_def port_free_def intro: distinct_mdel)

lemma entry_ok_stop: "entry_ok i it \<Longrightarrow> entry_ok i (it\<lparr>ri_tun := (ri_tun it)\<lparr>tn_listener := None\<rparr>\<rparr>)"
  by (auto simp: entry_ok_def tn_ok_Stop)

lemma entry_ok_ghost:
  "i \<noteq> [] \<Longrightarrow> trim_space i = i \<Longrightarrow> tn_ok t \<Longrightarrow> tn_listener t = None \<Longrightarrow>
     entry_ok i \<lparr>ri_tun = t, ri_cfg = zero_config\<rparr>"
  by (simp add: entry_ok_def)

lemma port_free_zero [simp]: "port_free (tc_LocalPort zero_config) i items"
  by (simp add: port_free_def)

lemma reg_ok_new: "reg_ok NewRegistry"
  by (simp add: reg_ok_def NewRegistry_def)

lemma start_check_port:
  assumes "reg_ok items" "start_check cfg items = Inr c"
  shows "port_free (tc_LocalPort c) (tc_ID c) items"
proof -
  have "\<not> localPortBusy (tc_LocalPort c) (tc_ID c) items"
    using assms(2) by (auto simp: start_check_def Let_def split: option.splits if_splits)
  then show ?thesis
    using localPortBusy_iff [OF reg_okD(1) [OF assms(1)]] cfg_cleanD(4) [OF cfg_clean_start [OF assms(2)]]
    by auto
qed

lemma entry_ok_inst_of:
  "reg_ok items \<Longrightarrow> i \<noteq> [] \<Longrightarrow> trim_space i = i \<Longrightarrow> entry_ok i (inst_of items i)"
  by (auto simp: inst_of_def NewTunnel_def tn_ok_new [unfolded NewTunnel_def]
      intro: entry_ok_ghost dest: reg_okD(2) split: option.split)

lemma start_locked_fails:
  assumes "cfg_clean c" "net_Listen (loopback (tc_LocalPort c)) = Inl e"
  shows "start_locked net_Listen c items =
    (Some (ListenFailed (loopback (tc_LocalPort c)) e),
     mput (tc_ID c)
       ((inst_of items (tc_ID c))\<lparr>ri_tun := (ri_tun (inst_of items (tc_ID c)))\<lparr>tn_listener := None, tn_runErr := e\<rparr>\<rparr>)
       items)"
  using assms by (simp add: start_locked_def Let_def tn_Start_fails cfg_cleanD(3))

lemma start_locked_listens:
  assumes "cfg_clean c" "net_Listen (loopback (tc_LocalPort c)) = Inr l"
  shows "start_locked net_Listen c items =
    (None,
     mput (tc_ID c)
       \<lparr>ri_tun = (ri_tun (inst_of items (tc_ID c)))\<lparr>tn_listener := Some l, tn_runErr := [], tn_activeCfg := c\<rparr>,
        ri_cfg = c\<rparr>
       items)"
  using assms by (cases "inst_of items (tc_ID c)") (simp add: start_locked_def Let_def tn_Start_listens cfg_cleanD(3))

lemma reg_ok_start_locked:
  assumes "reg_ok items" "cfg_clean c" "port_free (tc_LocalPort c) (tc_ID c) items"
  shows "reg_ok (snd (start_locked net_Listen c items))"
proof -
  let ?i = "tc_ID c" and ?it = "inst_of items (tc_ID c)"
  have it: "entry_ok ?i ?it"
    using assms(1,2) by (intro entry_ok_inst_of) (simp_all add: cfg_cleanD)
  show ?thesis
  proof (cases "net_Listen (loopback (tc_LocalPort c))")
    case (Inl e)
    have "entry_ok ?i (?it\<lparr>ri_tun := (ri_tun ?it)\<lparr>tn_listener := None, tn_runErr := e\<rparr>\<rparr>)"
      using it by (auto simp: entry_ok_def tn_ok_def)
    moreover have "port_free (tc_LocalPort (ri_cfg ?it)) ?i items"
      using reg_okD(3) [OF assms(1)] port_free_zero
      by (auto simp: inst_of_def simp del: zero_config_port split: option.split)
    ultimately show ?thesis
      using assms(1) by (auto simp: start_locked_fails assms(2) Inl intro!: reg_ok_mput)
  next
    case (Inr l)
    have "entry_ok ?i \<lparr>ri_tun = (ri_tun ?it)\<lparr>tn_listener := Some l, tn_runErr := [], tn_activeCfg := c\<rparr>,
        ri_cfg = c\<rparr>"
      using it assms(2) by (auto simp: entry_ok_def tn_ok_def cfg_cleanD)
    then show ?thesis
      using assms(1,3) by (auto simp: start_locked_listens assms(2) Inr intro!: reg_ok_mput)
  qed
qed

lemma reg_ok_Start: "reg_ok items \<Longrightarrow> reg_ok (snd (reg_Start net_Listen cfg items))"
  by (auto simp: reg_Start_def split: sum.split
      intro: reg_ok_start_locked cfg_clean_start start_check_port)

lemma reg_ok_Stop: "reg_ok items \<Longrightarrow> reg_ok (snd (reg_Stop e i items))"
  by (auto simp: reg_Stop_def Let_def tn_Stop_def case_prod_unfold split: option.split
      intro!: reg_ok_keep entry_ok_stop dest: reg_okD(2))

lemma mget_StopAll:
  "mget (reg_StopAll items) i =
     map_option (\<lambda>it. it\<lparr>ri_tun := (ri_tun it)\<lparr>tn_listener := None\<rparr>\<rparr>) (mget items i)"
  by (induction items) (auto simp: reg_StopAll_def)

lemma mkeys_StopAll [simp]: "mkeys (reg_StopAll items) = mkeys items"
  by (induction items) (auto simp: reg_StopAll_def)

lemma reg_ok_StopAll: "reg_ok items \<Longrightarrow> reg_ok (reg_StopAll items)"
proof -
  assume ok: "reg_ok items"
  show ?thesis
  proof (rule reg_okI)
    show "distinct (mkeys (reg_StopAll items))" using reg_okD(1) [OF ok] by (simp del: distinct_map)
    fix i a
    assume "mget (reg_StopAll items) i = Some a"
    then obtain b where b: "mget items i = Some b"
      and a: "a = b\<lparr>ri_tun := (ri_tun b)\<lparr>tn_listener := None\<rparr>\<rparr>"
      by (auto simp: mget_StopAll)
    have "port_free (tc_LocalPort (ri_cfg b)) i (reg_StopAll items)"
      using reg_okD(3) [OF ok b] by (auto simp: port_free_def mget_StopAll)
    with a reg_okD(2) [OF ok b] show "entry_ok i a \<and> port_free (tc_LocalPort (ri_cfg a)) i (reg_StopAll items)"
      by (simp add: entry_ok_stop)
  qed
qed

lemma reg_ok_Remove: "reg_ok items \<Longrightarrow> reg_ok (snd (reg_Remove i items))"
  by (auto simp: reg_Remove_def Let_def reg_ok_mdel split: option.split)

lemma reg_ok_Bootstrap: "reg_ok items \<Longrightarrow> reg_ok (reg_Bootstrap net n cs items)"
  by (induction cs arbitrary: n items) (auto simp: Let_def reg_ok_Start split: option.split)

section \<open>Reachable registries\<close>

text \<open>The operations under the lock, the accept loops and the ends of connections, in any order
  and with any answers of the network.\<close>

inductive reg_step :: "registry \<Rightarrow> registry \<Rightarrow> bool" where
  r_start: "reg_step items (snd (reg_Start net_Listen cfg items))"
| r_stop: "reg_step items (snd (reg_Stop e i items))"
| r_stop_all: "reg_step items (reg_StopAll items)"
| r_remove: "reg_step items (snd (reg_Remove i items))"
| r_bootstrap: "reg_step items (reg_Bootstrap net n cfgs items)"
| r_accept: "mget items i = Some it \<Longrightarrow> tn_listener (ri_tun it) \<noteq> None \<Longrightarrow>
    reg_step items (mput i (it\<lparr>ri_tun := tn_accept (ri_tun it)\<rparr>) items)"
| r_pair_ends: "mget items i = Some it \<Longrightarrow> c \<in> set (tn_pairs (ri_tun it)) \<Longrightarrow>
    reg_step items (mput i (it\<lparr>ri_tun := tn_pair_ends c (ri_tun it)\<rparr>) items)"

lemma entry_ok_accept: "entry_ok i it \<Longrightarrow> entry_ok i (it\<lparr>ri_tun := tn_accept (ri_tun it)\<rparr>)"
  using tn_ok_accept [of "ri_tun it"] by (auto simp: entry_ok_def tn_accept_def Let_def)

lemma entry_ok_pair_ends:
  "entry_ok i it \<Longrightarrow> c \<in> set (tn_pairs (ri_tun it)) \<Longrightarrow>
     entry_ok i (it\<lparr>ri_tun := tn_pair_ends c (ri_tun it)\<rparr>)"
  using tn_ok_pair_ends [of "ri_tun it" c] by (auto simp: entry_ok_def tn_pair_ends_def)

lemma reg_ok_tun:
  assumes "reg_ok items" "mget items i = Some it" "entry_ok i it \<Longrightarrow> entry_ok i (it\<lparr>ri_tun := t\<rparr>)"
  shows "reg_ok (mput i (it\<lparr>ri_tun := t\<rparr>) items)"
  by (rule reg_ok_keep [OF assms(1,2)]) (simp_all add: assms(3) reg_okD(2) [OF assms(1,2)])

lemma reg_step_ok: "reg_step items items' \<Longrightarrow> reg_ok items \<Longrightarrow> reg_ok items'"
  by (induction rule: reg_step.induct)
    (auto intro: reg_ok_Start reg_ok_Stop reg_ok_StopAll reg_ok_Remove reg_ok_Bootstrap
      reg_ok_tun entry_ok_accept entry_ok_pair_ends)

abbreviation reg_reachable :: "registry \<Rightarrow> bool" where
  "reg_reachable \<equiv> reachable_from (\<lambda>items. items = NewRegistry) reg_step"

interpretation rg: invariant_system "\<lambda>items. items = NewRegistry" reg_step reg_ok
  by unfold_locales (auto intro: reg_step_ok reg_ok_new)

section \<open>The persisted list\<close>

abbreviation cfg_key :: "TunnelConfig \<Rightarrow> row_key" where
  "cfg_key c \<equiv> RowKey (tc_LocalPort c) (tc_ID c)"

abbreviation cfgs_of :: "registry \<Rightarrow> TunnelConfig list" where
  "cfgs_of items \<equiv> map (\<lambda>(_, it). ri_cfg it) items"

lemma item_cfg:
  assumes "reg_ok items" "(i, it) \<in> set items"
  shows "mget items i = Some it" "ri_cfg it = zero_config \<or> cfg_clean (ri_cfg it) \<and> tc_ID (ri_cfg it) = i"
proof -
  show m: "mget items i = Some it"
    using assms(2) by (simp add: mget_Some_iff [OF reg_okD(1) [OF assms(1)]])
  show "ri_cfg it = zero_config \<or> cfg_clean (ri_cfg it) \<and> tc_ID (ri_cfg it) = i"
    using reg_okD(2) [OF assms(1) m] by (auto simp: entry_ok_def)
qed

lemma cfgs_ofE:
  assumes "reg_ok items" "c \<in> set (cfgs_of items)"
  obtains i it where "mget items i = Some it" "c = ri_cfg it"
      "c = zero_config \<or> cfg_clean c \<and> tc_ID c = i"
proof -
  from assms(2) obtain i it where "(i, it) \<in> set items" "c = ri_cfg it" by auto
  with item_cfg [OF assms(1)] that [of i it] show thesis by blast
qed

lemma cfgs_shape:
  assumes "reg_ok items" "c \<in> set (cfgs_of items)"
  shows "c = zero_config \<or> cfg_clean c"
  using assms by (rule cfgs_ofE) blast

lemma clean_not_zero: "cfg_clean c \<Longrightarrow> c \<noteq> zero_config"
  using cfg_cleanD(6) by force

lemma same_port_same_cfg:
  assumes "reg_ok items" "c \<in> set (cfgs_of items)" "d \<in> set (cfgs_of items)"
    and "tc_LocalPort c = tc_LocalPort d"
  shows "c = d"
proof -
  from assms(1,2) obtain i a where i: "mget items i = Some a" "c = ri_cfg a"
    "c = zero_config \<or> cfg_clean c \<and> tc_ID c = i" by (rule cfgs_ofE)
  from assms(1,3) obtain j b where j: "mget items j = Some b" "d = ri_cfg b"
    "d = zero_config \<or> cfg_clean d \<and> tc_ID d = j" by (rule cfgs_ofE)
  show ?thesis
  proof (cases "i = j")
    case True
    with i j show ?thesis by simp
  next
    case False
    then have "tc_LocalPort c < 1"
      using port_freeD [OF reg_okD(3) [OF assms(1) i(1)] j(1)] assms(4) i(2) j(2) by auto
    with i(3) j(3) assms(4) show ?thesis by (auto dest: cfg_cleanD(4))
  qed
qed

lemma cfg_key_inj: "reg_ok items \<Longrightarrow> inj_on cfg_key (set (cfgs_of items))"
  by (auto intro!: inj_onI dest: same_port_same_cfg simp del: set_map)

lemma PersistedConfigs_unique:
  "reg_ok items \<Longrightarrow> mset out = mset (cfgs_of items) \<Longrightarrow> sorted (map cfg_key out) \<Longrightarrow>
     PersistedConfigs items = out"
  unfolding PersistedConfigs_def by (rule sort_key_inj_key_eq) (simp_all add: cfg_key_inj del: set_map)

lemma distinct_clean:
  assumes "reg_ok items"
  shows "distinct (map tc_ID (filter cfg_clean (cfgs_of items)))"
    "distinct (map tc_LocalPort (filter cfg_clean (cfgs_of items)))"
proof -
  have "map tc_ID (filter cfg_clean (cfgs_of items)) =
      map fst (filter (\<lambda>(_, it). cfg_clean (ri_cfg it)) items)"
    if "\<And>i it. (i, it) \<in> set items \<Longrightarrow> cfg_clean (ri_cfg it) \<Longrightarrow> tc_ID (ri_cfg it) = i"
    using that by (induction items) auto
  moreover have "tc_ID (ri_cfg it) = i" if "(i, it) \<in> set items" "cfg_clean (ri_cfg it)" for i it
    using item_cfg(2) [OF assms that(1)] clean_not_zero [OF that(2)] by blast
  ultimately have ids: "map tc_ID (filter cfg_clean (cfgs_of items)) =
      map fst (filter (\<lambda>(_, it). cfg_clean (ri_cfg it)) items)" by blast
  then show d: "distinct (map tc_ID (filter cfg_clean (cfgs_of items)))"
    using distinct_map_filter [OF reg_okD(1) [OF assms]] by metis
  have "inj_on tc_LocalPort (set (filter cfg_clean (cfgs_of items)))"
    using same_port_same_cfg [OF assms] by (auto intro!: inj_onI simp del: set_map)
  with d show "distinct (map tc_LocalPort (filter cfg_clean (cfgs_of items)))"
    by (simp only: distinct_map)
qed

section \<open>Restoring the registry\<close>

lemma start_check_clean:
  "cfg_clean c \<Longrightarrow> port_free (tc_LocalPort c) (tc_ID c) items \<Longrightarrow> distinct (mkeys items) \<Longrightarrow>
     start_check c items = Inr c"
  by (simp add: start_check_def cfg_cleanD localPortBusy_iff)

lemma reg_Start_new:
  assumes "reg_ok items" "cfg_clean c" "mget items (tc_ID c) = None"
    and "port_free (tc_LocalPort c) (tc_ID c) items"
  shows "reg_Start net_Listen c items =
    (case net_Listen (loopback (tc_LocalPort c)) of
       Inl e \<Rightarrow> (Some (ListenFailed (loopback (tc_LocalPort c)) e),
                  items @ [(tc_ID c, \<lparr>ri_tun = NewTunnel\<lparr>tn_runErr := e\<rparr>, ri_cfg = zero_config\<rparr>)])
     | Inr l \<Rightarrow> (None,
                  items @ [(tc_ID c, \<lparr>ri_tun = NewTunnel\<lparr>tn_listener := Some l, tn_activeCfg := c\<rparr>,
                                      ri_cfg = c\<rparr>)]))"
  using assms
  by (cases "net_Listen (loopback (tc_LocalPort c))")
    (simp_all add: reg_Start_def start_check_clean reg_okD(1) start_locked_fails start_locked_listens
      inst_of_def mput_absent NewTunnel_def)

lemma zero_config_skipped: "reg_Bootstrap net n (zero_config # cs) items = reg_Bootstrap net (n + 1) cs items"
  by (simp add: zero_config_def trimCopy_def tc_validate_def Normalize_empty)

lemma reg_Bootstrap_clean:
  "cfg_clean c \<Longrightarrow>
     reg_Bootstrap net n (c # cs) items = reg_Bootstrap net (n + 1) cs (snd (reg_Start (net n) c items))"
  by (simp add: cfg_cleanD)

text \<open>Restoring a list of clean configurations (and zero values) with distinct ids and ports.\<close>

lemma reg_Bootstrap_all:
  assumes "\<And>n a. \<not> isl (net n a)"
  shows "reg_ok items \<Longrightarrow> list_all (\<lambda>c. c = zero_config \<or> cfg_clean c) cs \<Longrightarrow>
    distinct (map tc_ID (filter cfg_clean cs)) \<Longrightarrow> distinct (map tc_LocalPort (filter cfg_clean cs)) \<Longrightarrow>
    (\<And>c. c \<in> set (filter cfg_clean cs) \<Longrightarrow>
       mget items (tc_ID c) = None \<and> port_free (tc_LocalPort c) (tc_ID c) items) \<Longrightarrow>
    list_all (\<lambda>(_, it). tn_listener (ri_tun it) \<noteq> None) items \<Longrightarrow>
    cfgs_of (reg_Bootstrap net n cs items) = cfgs_of items @ filter cfg_clean cs
    \<and> list_all (\<lambda>(_, it). tn_listener (ri_tun it) \<noteq> None) (reg_Bootstrap net n cs items)"
proof (induction cs arbitrary: n items)
  case Nil
  then show ?case by simp
next
  case (Cons c cs)
  show ?case
  proof (cases "cfg_clean c")
    case False
    with Cons.prems(2) have "c = zero_config" by simp
    with False Cons show ?thesis by (simp add: zero_config_skipped del: reg_Bootstrap.simps)
  next
    case True
    let ?it = "\<lambda>l. \<lparr>ri_tun = NewTunnel\<lparr>tn_listener := Some l, tn_activeCfg := c\<rparr>, ri_cfg = c\<rparr>"
    obtain l where l: "net n (loopback (tc_LocalPort c)) = Inr l"
      using assms [of n "loopback (tc_LocalPort c)"] by (cases "net n (loopback (tc_LocalPort c))") auto
    have c: "mget items (tc_ID c) = None" "port_free (tc_LocalPort c) (tc_ID c) items"
      using Cons.prems(5) [of c] True by simp_all
    have s: "snd (reg_Start (net n) c items) = items @ [(tc_ID c, ?it l)]"
      using reg_Start_new [OF Cons.prems(1) True c] l by simp
    have "cfgs_of (reg_Bootstrap net (n + 1) cs (items @ [(tc_ID c, ?it l)]))
          = cfgs_of (items @ [(tc_ID c, ?it l)]) @ filter cfg_clean cs
        \<and> list_all (\<lambda>(_, it). tn_listener (ri_tun it) \<noteq> None)
            (reg_Bootstrap net (n + 1) cs (items @ [(tc_ID c, ?it l)]))"
    proof (rule Cons.IH)
      show "reg_ok (items @ [(tc_ID c, ?it l)])"
        using reg_ok_Start [OF Cons.prems(1), of "net n" c] by (simp only: s)
      fix d
      assume d: "d \<in> set (filter cfg_clean cs)"
      with Cons.prems(3,4) True have "tc_ID d \<noteq> tc_ID c" "tc_LocalPort d \<noteq> tc_LocalPort c"
        by (force simp: image_iff)+
      moreover have "mget items (tc_ID d) = None \<and> port_free (tc_LocalPort d) (tc_ID d) items"
        using Cons.prems(5) [of d] d by simp
      ultimately show "mget (items @ [(tc_ID c, ?it l)]) (tc_ID d) = None
          \<and> port_free (tc_LocalPort d) (tc_ID d) (items @ [(tc_ID c, ?it l)])"
        by (auto simp: port_free_def map_add_def split: option.splits if_splits)
    qed (use Cons.prems True in auto)
    with True show ?thesis by (simp add: reg_Bootstrap_clean s del: reg_Bootstrap.simps)
  qed
qed

lemma restore_persisted:
  assumes "reg_ok items" "\<And>n a. \<not> isl (net n a)"
    and items': "items' = reg_Bootstrap net n (PersistedConfigs items) NewRegistry"
  shows "PersistedConfigs items' = filter cfg_clean (PersistedConfigs items)"
    "list_all (\<lambda>(_, it). tn_listener (ri_tun it) \<noteq> None) items'"
proof -
  let ?cs = "PersistedConfigs items"
  have m: "mset ?cs = mset (cfgs_of items)" by (simp add: PersistedConfigs_def)
  then have mf: "mset (filter cfg_clean ?cs) = mset (filter cfg_clean (cfgs_of items))"
    by (metis mset_filter)
  have "set ?cs = set (cfgs_of items)" using m by (rule mset_eq_setD)
  then have "list_all (\<lambda>c. c = zero_config \<or> cfg_clean c) ?cs"
    using cfgs_shape [OF assms(1)] by (simp only: list_all_iff) blast
  moreover have "mset (map tc_ID (filter cfg_clean ?cs)) = mset (map tc_ID (filter cfg_clean (cfgs_of items)))"
    "mset (map tc_LocalPort (filter cfg_clean ?cs)) = mset (map tc_LocalPort (filter cfg_clean (cfgs_of items)))"
    by (simp_all only: mset_map mf)
  then have "distinct (map tc_ID (filter cfg_clean ?cs))" "distinct (map tc_LocalPort (filter cfg_clean ?cs))"
    using distinct_clean [OF assms(1)] mset_eq_imp_distinct_iff by blast+
  ultimately have *: "cfgs_of items' = cfgs_of NewRegistry @ filter cfg_clean ?cs
      \<and> list_all (\<lambda>(_, it). tn_listener (ri_tun it) \<noteq> None) items'"
    unfolding items'
    by (intro reg_Bootstrap_all) (simp_all add: assms(2) reg_ok_new, simp_all add: NewRegistry_def port_free_def)
  then show "list_all (\<lambda>(_, it). tn_listener (ri_tun it) \<noteq> None) items'" by blast
  have "reg_ok items'" unfolding items' by (rule reg_ok_Bootstrap [OF reg_ok_new])
  then show "PersistedConfigs items' = filter cfg_clean ?cs"
  proof (rule PersistedConfigs_unique)
    show "mset (filter cfg_clean ?cs) = mset (cfgs_of items')" using * by (simp add: NewRegistry_def)
    have "sorted (map cfg_key ?cs)" unfolding PersistedConfigs_def by (rule sorted_sort_key)
    then show "sorted (map cfg_key (filter cfg_clean ?cs))" by (rule sorted_filter)
  qed
qed

section \<open>A taken port\<close>

text \<open>A first start whose port the system refuses leaves an entry with Go's zero configuration.\<close>

lemma failed_start:
  assumes "reg_ok items" "start_check cfg items = Inr c" "mget items (tc_ID c) = None"
    and "net_Listen (loopback (tc_LocalPort c)) = Inl e"
  shows "reg_Start net_Listen cfg items =
    (Some (ListenFailed (loopback (tc_LocalPort c)) e),
     items @ [(tc_ID c, \<lparr>ri_tun = NewTunnel\<lparr>tn_runErr := e\<rparr>, ri_cfg = zero_config\<rparr>)])"
  using assms cfg_clean_start [OF assms(2)]
  by (simp add: reg_Start_def start_locked_fails inst_of_def mput_absent NewTunnel_def)

lemma clean_cfg_registered:
  assumes "reg_ok items" "cfg_clean c" "c \<in> set (PersistedConfigs items)"
  shows "mget items (tc_ID c) \<noteq> None"
proof -
  from assms(3) have "c \<in> set (cfgs_of items)" by (simp add: PersistedConfigs_def)
  with assms(1) obtain i it where "mget items i = Some it" "c = zero_config \<or> cfg_clean c \<and> tc_ID c = i"
    by (rule cfgs_ofE)
  with clean_not_zero [OF assms(2)] show ?thesis by auto
qed

text \<open>Two starts that both look for a taken port before either takes the lock.\<close>

lemma registry_port_race:
  assumes "cfg_clean a" "cfg_clean b" "tc_ID a \<noteq> tc_ID b" "tc_LocalPort a = tc_LocalPort b"
    and "net_Listen (loopback (tc_LocalPort a)) = Inr l"
  shows "\<exists>items1 items3.
    start_check a NewRegistry = Inr a
    \<and> reg_Start net_Listen b NewRegistry = (None, items1)
    \<and> start_locked net_Listen a (snd (reg_Stop None (tc_ID b) items1)) = (None, items3)
    \<and> (\<exists>x y. mget items3 (tc_ID a) = Some x \<and> mget items3 (tc_ID b) = Some y
           \<and> tc_LocalPort (ri_cfg x) = tc_LocalPort (ri_cfg y))"
proof -
  have pf: "port_free p i NewRegistry" for p i by (simp add: port_free_def NewRegistry_def)
  have d: "distinct (mkeys NewRegistry)" "mget NewRegistry (tc_ID b) = None" by (simp_all add: NewRegistry_def)
  let ?b = "\<lparr>ri_tun = NewTunnel\<lparr>tn_listener := Some l, tn_activeCfg := b\<rparr>, ri_cfg = b\<rparr>"
  have b: "reg_Start net_Listen b NewRegistry = (None, [(tc_ID b, ?b)])"
    using reg_Start_new [OF reg_ok_new assms(2) d(2) pf, of net_Listen] assms(4,5)
    by (simp add: NewRegistry_def)
  have "snd (reg_Stop None (tc_ID b) [(tc_ID b, ?b)]) = [(tc_ID b, ?b\<lparr>ri_tun := (ri_tun ?b)\<lparr>tn_listener := None\<rparr>\<rparr>)]"
    using assms(2) by (simp add: reg_Stop_def cfg_cleanD case_prod_unfold)
  then show ?thesis
    using assms(3,4) b start_check_clean [OF assms(1) pf d(1)]
    by (simp add: start_locked_listens assms(1,5) assms(5) [unfolded assms(4)])
qed

section \<open>An example\<close>

definition demo_cfg :: "string \<Rightarrow> int \<Rightarrow> TunnelConfig" where
  "demo_cfg i p = \<lparr>tc_ID = i, tc_ServerURL = ''ws://h'', tc_ProxyID = ''p'', tc_LocalPort = p, tc_APIKey = []\<rparr>"

lemma demo_clean: "i \<noteq> [] \<Longrightarrow> trim_space i = i \<Longrightarrow> 1 \<le> p \<Longrightarrow> p \<le> 65535 \<Longrightarrow> cfg_clean (demo_cfg i p)"
proof -
  have t: "trim_space ''p'' = ''p''" "trim_space ''h'' = ''h''"
    by (simp_all add: trim_space_plain space_heads_code space_lasts_code)
  then have h: "tight ''h''" using tight_suffix [of "[]" "''h''"] by simp
  have "NormalizeServerURLForWS ''ws://h'' = ''ws://h''" "trim_space ''ws://h'' = ''ws://h''"
    using Normalize_ws(1) [OF h] trim_ws(1) [OF h] by simp_all
  with t show "i \<noteq> [] \<Longrightarrow> trim_space i = i \<Longrightarrow> 1 \<le> p \<Longrightarrow> p \<le> 65535 \<Longrightarrow> ?thesis"
    by (simp add: cfg_clean_def demo_cfg_def trimCopy_def tc_validate_def)
qed

definition demo_net :: "nat \<Rightarrow> listen" where
  "demo_net n a = Inr a"

definition demo_registry :: registry where
  "demo_registry =
     [(''b'', \<lparr>ri_tun = NewTunnel\<lparr>tn_listener := Some (loopback 2), tn_activeCfg := demo_cfg ''b'' 2\<rparr>,
         ri_cfg = demo_cfg ''b'' 2\<rparr>),
      (''a'', \<lparr>ri_tun = NewTunnel\<lparr>tn_listener := Some (loopback 1), tn_activeCfg := demo_cfg ''a'' 1\<rparr>,
         ri_cfg = demo_cfg ''a'' 1\<rparr>)]"

lemma demo_cfgs: "cfg_clean (demo_cfg ''b'' 2)" "cfg_clean (demo_cfg ''a'' 1)" "cfg_clean (demo_cfg ''c'' 3)"
  by (rule demo_clean; simp add: trim_space_plain space_heads_code space_lasts_code)+

lemma new_reachable: "reg_reachable NewRegistry"
  by (rule reachable_from.start) simp

lemma start_reachable: "reg_reachable items \<Longrightarrow> reg_reachable (snd (reg_Start net_Listen cfg items))"
  by (erule reachable_from.step) (rule r_start)

lemma demo_registry_reachable: "reg_reachable demo_registry"
proof -
  let ?r = "[(''b'', \<lparr>ri_tun = NewTunnel\<lparr>tn_listener := Some (loopback 2), tn_activeCfg := demo_cfg ''b'' 2\<rparr>,
         ri_cfg = demo_cfg ''b'' 2\<rparr>)]"
  have r: "snd (reg_Start (demo_net 0) (demo_cfg ''b'' 2) NewRegistry) = ?r"
    using reg_Start_new [OF reg_ok_new demo_cfgs(1), of "demo_net 0"]
    by (simp add: NewRegistry_def port_free_def demo_net_def demo_cfg_def)
  then have ok: "reg_ok ?r" using reg_ok_Start [OF reg_ok_new] by metis
  have "snd (reg_Start (demo_net 0) (demo_cfg ''a'' 1) ?r) = demo_registry"
    using reg_Start_new [OF ok demo_cfgs(2), of "demo_net 0"]
    by (simp add: demo_registry_def port_free_def demo_net_def demo_cfg_def)
  moreover have "reg_reachable ?r"
    using start_reachable [OF new_reachable] r by metis
  ultimately show ?thesis
    using start_reachable by metis
qed

section \<open>Properties\<close>



text \<open>C32: The list written to the file does not depend on chance. For every reachable registry,
  whatever order Go iterates its map in and however \<open>sort.Slice\<close> arranges equal elements, the
  sorted list of configurations is one and the same.\<close>

theorem persisted_configs_canonical:
  assumes "reg_reachable items"
    and "mset out = mset (map (\<lambda>(_, it). ri_cfg it) items)"
    and "sorted (map (\<lambda>c. RowKey (tc_LocalPort c) (tc_ID c)) out)"
  shows "PersistedConfigs items = out"
  using rg.reachable_inv [OF assms(1)] assms(2,3) by (rule PersistedConfigs_unique)

theorem persisted_configs_canonical_witness:
  "PersistedConfigs demo_registry = [demo_cfg ''a'' 1, demo_cfg ''b'' 2]"
  by (rule persisted_configs_canonical [OF demo_registry_reachable])
    (simp_all add: demo_registry_def demo_cfg_def less_eq_row_key_def less_row_key_def row_before_def)

text \<open>Restarting restores the tunnels. When every port is free, restoring the list a reachable
  registry persists gives a registry that persists the same valid configurations in the same order,
  with every tunnel listening.\<close>

lemma restart_restores_registry:
  assumes "reg_reachable items" "\<And>n a. \<not> isl (net n a)"
  shows "PersistedConfigs (reg_Bootstrap net 0 (PersistedConfigs items) NewRegistry)
      = filter cfg_clean (PersistedConfigs items)
    \<and> list_all (\<lambda>(_, it). tn_listener (ri_tun it) \<noteq> None)
        (reg_Bootstrap net 0 (PersistedConfigs items) NewRegistry)"
  using restore_persisted [where net = net and n = 0, OF rg.reachable_inv [OF assms(1)] assms(2) refl]
  by blast

text \<open>A tunnel whose port is taken loses its configuration. When the first start under an id
  passes the checks but the system refuses to listen, \<open>Start\<close> reports the error, and yet the
  registry now has an entry under that id whose configuration is empty: the list to be written to
  the file contains an empty entry and not the configuration the user gave, and the status row
  shows port 0.\<close>

lemma failed_start_keeps_empty_entry:
  assumes "reg_reachable items" "start_check cfg items = Inr c" "mget items (tc_ID c) = None"
    and "net_Listen (loopback (tc_LocalPort c)) = Inl e"
    and "reg_Start net_Listen cfg items = (err, items')"
  shows "err = Some (ListenFailed (loopback (tc_LocalPort c)) e)
    \<and> zero_config \<in> set (PersistedConfigs items') \<and> c \<notin> set (PersistedConfigs items')
    \<and> (\<exists>row \<in> set (reg_Snapshot items'). pr_ID row = tc_ID c \<and> \<not> pr_Running row \<and> pr_Error row = e
          \<and> pl_LocalPort (pr_LastConfig row) = 0)"
proof -
  have ok: "reg_ok items" using assms(1) by (rule rg.reachable_inv)
  let ?it = "\<lparr>ri_tun = NewTunnel\<lparr>tn_runErr := e\<rparr>, ri_cfg = zero_config\<rparr>"
  have s: "err = Some (ListenFailed (loopback (tc_LocalPort c)) e)" "items' = items @ [(tc_ID c, ?it)]"
    using failed_start [where net_Listen = net_Listen, OF ok assms(2-4)] assms(5) by simp_all
  have c: "cfg_clean c" using assms(2) by (rule cfg_clean_start)
  then have "c \<notin> set (PersistedConfigs items)" using clean_cfg_registered [OF ok] assms(3) by blast
  then have "c \<notin> set (PersistedConfigs items')"
    using clean_not_zero [OF c] by (auto simp: s PersistedConfigs_def)
  moreover have "proxy_row (tc_ID c) ?it \<in> set (reg_Snapshot items')"
    by (simp add: s reg_Snapshot_def)
  then have "\<exists>row \<in> set (reg_Snapshot items'). pr_ID row = tc_ID c \<and> \<not> pr_Running row \<and> pr_Error row = e
      \<and> pl_LocalPort (pr_LastConfig row) = 0"
    by (rule bexI [rotated]) (simp add: proxy_row_def tn_Snapshot_def NewTunnel_def PublicFromConfig_def)
  ultimately show ?thesis by (simp add: s PersistedConfigs_def)
qed

end
