(* ===== verification/BuildTree.thy ===== *)
theory BuildTree
  imports Prelude
begin

text \<open>
  A file tree with the operations the build script \<open>build.go\<close> does on it: \<open>os.MkdirAll\<close>,
  \<open>os.WriteFile\<close>, \<open>os.RemoveAll\<close>, \<open>os.Stat\<close>, and its own \<open>copyDir\<close>. A path is the list of its
  elements. Symbolic links are left out.
\<close>

datatype node = File string | Dir "(string, node) gomap"

type_synonym path = "string list"

fun node_at :: "path \<Rightarrow> node \<Rightarrow> node option" where
  "node_at [] n = Some n"
| "node_at (c # p) (File d) = None"
| "node_at (c # p) (Dir es) = (case mget es c of None \<Rightarrow> None | Some n \<Rightarrow> node_at p n)"

definition file_at :: "path \<Rightarrow> node \<Rightarrow> string option" where
  "file_at p t = (case node_at p t of Some (File d) \<Rightarrow> Some d | _ \<Rightarrow> None)"

definition fileExists :: "path \<Rightarrow> node \<Rightarrow> bool" where
  "fileExists p t \<longleftrightarrow> node_at p t \<noteq> None"

text \<open>An error of \<open>MkdirAll\<close>, when a file is in the way, is ignored by the script.\<close>

fun mkdir_all :: "path \<Rightarrow> node \<Rightarrow> node" where
  "mkdir_all [] n = n"
| "mkdir_all (c # p) (File d) = File d"
| "mkdir_all (c # p) (Dir es) = Dir (mput c (mkdir_all p (case mget es c of None \<Rightarrow> Dir [] | Some n \<Rightarrow> n)) es)"

text \<open>\<open>None\<close>: there is no such directory, or the path is a directory.\<close>

fun write_file :: "path \<Rightarrow> string \<Rightarrow> node \<Rightarrow> node option" where
  "write_file [] d (File _) = Some (File d)"
| "write_file [] d (Dir es) = None"
| "write_file (c # p) d (File _) = None"
| "write_file (c # p) d (Dir es) =
     (case mget es c of
        None \<Rightarrow> if p = [] then Some (Dir (mput c (File d) es)) else None
      | Some n \<Rightarrow> map_option (\<lambda>n. Dir (mput c n es)) (write_file p d n))"

fun remove_all :: "path \<Rightarrow> node \<Rightarrow> node" where
  "remove_all [] n = n"
| "remove_all (c # p) (File d) = File d"
| "remove_all (c # p) (Dir es) =
     (case mget es c of
        None \<Rightarrow> Dir es
      | Some n \<Rightarrow> if p = [] then Dir (mdel c es) else Dir (mput c (remove_all p n) es))"

section \<open>copyDir\<close>

lemma size_snd_le: "(\<Sum>p\<leftarrow>es. size (snd p)) \<le> sum_list (map (size_prod (\<lambda>x. 0) size) es)"
  for es :: "('a, 'b :: size) gomap"
  by (induction es) (auto simp: size_prod_simp)

text \<open>\<open>copy_node io dst n t\<close> copies the node \<open>n\<close> to the path \<open>dst\<close> of \<open>t\<close>; \<open>None\<close> is the end of the
  program. \<open>io\<close>: reading the source and writing to this destination succeed.\<close>

function (sequential) copy_node :: "(path \<Rightarrow> bool) \<Rightarrow> path \<Rightarrow> node \<Rightarrow> node \<Rightarrow> node option"
  and copy_list :: "(path \<Rightarrow> bool) \<Rightarrow> path \<Rightarrow> (string, node) gomap \<Rightarrow> node \<Rightarrow> node option" where
  "copy_node io dst (File d) t = (if io dst then write_file dst d t else None)"
| "copy_node io dst (Dir es) t =
     (let t = mkdir_all dst t in if io dst then copy_list io dst es t else None)"
| "copy_list io dst [] t = Some t"
| "copy_list io dst ((name, n) # es) t =
     (case copy_node io (dst @ [name]) n t of None \<Rightarrow> None | Some t \<Rightarrow> copy_list io dst es t)"
  by pat_completeness auto
termination
  by (relation "measure (\<lambda>x. case x of Inl (_, _, n, _) \<Rightarrow> size n | Inr (_, _, es, _) \<Rightarrow> size_list (\<lambda>p. size (snd p)) es)")
    (auto simp: size_list_conv_sum_list less_Suc_eq_le size_snd_le)

definition copyDir :: "(path \<Rightarrow> bool) \<Rightarrow> path \<Rightarrow> path \<Rightarrow> node \<Rightarrow> node option" where
  "copyDir io src dst t =
     (case node_at src t of Some (Dir es) \<Rightarrow> copy_node io dst (Dir es) t | _ \<Rightarrow> None)"

section \<open>Files after the operations\<close>

lemma file_at_simps [simp]:
  "file_at [] (File d) = Some d" "file_at [] (Dir es) = None" "file_at (c # p) (File d) = None"
  "file_at (c # p) (Dir es) = (case mget es c of None \<Rightarrow> None | Some n \<Rightarrow> file_at p n)"
  by (auto simp: file_at_def split: option.split)

lemma file_at_File: "file_at q (File d) = (if q = [] then Some d else None)"
  by (cases q) auto

lemma file_at_empty [simp]: "file_at p (Dir []) = None"
  by (cases p) auto

lemma file_at_mkdir [simp]: "file_at p (mkdir_all q t) = file_at p t"
proof (induction q t arbitrary: p rule: mkdir_all.induct)
  case (3 c q es)
  then show ?case by (cases p) (auto split: option.splits)
qed auto

lemma file_at_write: "write_file q d t = Some t' \<Longrightarrow> file_at p t' = (if p = q then Some d else file_at p t)"
proof (induction q d t arbitrary: p t' rule: write_file.induct)
  case (1 d f)
  then show ?case by (cases p) auto
next
  case (4 c q d es)
  show ?case
  proof (cases "mget es c")
    case None
    with 4 show ?thesis by (cases p) (auto simp: neq_Nil_conv split: if_splits)
  next
    case (Some n)
    with 4 obtain n' where n: "write_file q d n = Some n'" "t' = Dir (mput c n' es)" by auto
    with Some show ?thesis by (cases p) (auto simp: "4.IH" [OF Some n(1)] split: if_splits)
  qed
qed auto

lemma file_at_remove: "file_at p (remove_all q t) = (if q \<noteq> [] \<and> take (length q) p = q then None else file_at p t)"
proof (induction q t arbitrary: p rule: remove_all.induct)
  case (2 c q d)
  then show ?case by (cases p) auto
next
  case (3 c q es)
  then show ?case by (cases p) (auto split: option.split)
qed auto

text \<open>No directory has two entries of one name.\<close>

fun wf_node :: "node \<Rightarrow> bool" where
  "wf_node (File d) \<longleftrightarrow> True"
| "wf_node (Dir es) \<longleftrightarrow> distinct (mkeys es) \<and> (\<forall>e \<in> set es. wf_node (snd e))"

text \<open>After a copy the destination has exactly the files of the source, over what was there.\<close>

definition overlaid :: "path \<Rightarrow> node \<Rightarrow> node \<Rightarrow> node \<Rightarrow> bool" where
  "overlaid dst n t t' \<longleftrightarrow>
     (\<forall>q d. file_at q n = Some d \<longrightarrow> file_at (dst @ q) t' = Some d)
     \<and> (\<forall>p. (\<forall>q. p = dst @ q \<longrightarrow> file_at q n = None) \<longrightarrow> file_at p t' = file_at p t)"

lemma overlaidD:
  assumes "overlaid dst n t t'"
  shows "file_at q n = Some d \<Longrightarrow> file_at (dst @ q) t' = Some d"
    "(\<And>q. p = dst @ q \<Longrightarrow> file_at q n = None) \<Longrightarrow> file_at p t' = file_at p t"
  using assms unfolding overlaid_def by blast+

lemma file_at_Cons: "file_at q (Dir ((name, n) # es)) =
    (case q of [] \<Rightarrow> None | c # r \<Rightarrow> if c = name then file_at r n else file_at q (Dir es))"
  by (cases q) auto

lemma overlaid_trans:
  assumes "overlaid (dst @ [name]) n t t1" "overlaid dst (Dir es) t1 t2" "mget es name = None"
  shows "overlaid dst (Dir ((name, n) # es)) t t2"
  unfolding overlaid_def
proof (intro conjI allI impI)
  fix q d
  assume q: "file_at q (Dir ((name, n) # es)) = Some d"
  then obtain c r where cr: "q = c # r" by (cases q) auto
  show "file_at (dst @ q) t2 = Some d"
  proof (cases "c = name")
    case True
    with q cr have "file_at (dst @ q) t1 = Some d" using overlaidD(1) [OF assms(1), of r d] by simp
    moreover have "file_at (dst @ q) t2 = file_at (dst @ q) t1"
      by (rule overlaidD(2) [OF assms(2)]) (use cr True assms(3) in auto)
    ultimately show ?thesis by simp
  next
    case False
    with q cr show ?thesis using overlaidD(1) [OF assms(2), of q d] by simp
  qed
next
  fix p
  assume p: "\<forall>q. p = dst @ q \<longrightarrow> file_at q (Dir ((name, n) # es)) = None"
  have "file_at p t2 = file_at p t1"
  proof (rule overlaidD(2) [OF assms(2)])
    fix q
    assume "p = dst @ q"
    with p have "file_at q (Dir ((name, n) # es)) = None" by blast
    with assms(3) show "file_at q (Dir es) = None" by (cases q) (auto simp: file_at_Cons split: if_splits)
  qed
  also have "\<dots> = file_at p t"
  proof (rule overlaidD(2) [OF assms(1)])
    fix q
    assume "p = (dst @ [name]) @ q"
    then have "p = dst @ name # q" by simp
    with p have "file_at (name # q) (Dir ((name, n) # es)) = None" by blast
    then show "file_at q n = None" by (simp add: file_at_Cons)
  qed
  finally show "file_at p t2 = file_at p t" .
qed

lemma copy_overlays:
  "copy_node io dst n t = Some t' \<Longrightarrow> wf_node n \<Longrightarrow> overlaid dst n t t'"
  "copy_list io dst es t = Some t' \<Longrightarrow> wf_node (Dir es) \<Longrightarrow> overlaid dst (Dir es) t t'"
proof (induction io dst n t and io dst es t arbitrary: t' and t' rule: copy_node_copy_list.induct)
  case (1 io dst d t)
  then have w: "write_file dst d t = Some t'" by (simp split: if_splits)
  then show ?case by (auto simp: overlaid_def file_at_write [OF w] file_at_File split: if_splits)
next
  case (2 io dst es t)
  then have "overlaid dst (Dir es) (mkdir_all dst t) t'" by (simp add: Let_def split: if_splits)
  then show ?case by (simp add: overlaid_def)
next
  case (3 io dst t)
  then show ?case by (auto simp: overlaid_def)
next
  case (4 io dst name n es t)
  then obtain t1 where t1: "copy_node io (dst @ [name]) n t = Some t1" "copy_list io dst es t1 = Some t'"
    by (auto split: option.splits)
  have "mget es name = None" using 4(4) by (simp add: mget_None_iff)
  with 4 t1 show ?case by (intro overlaid_trans) auto
qed

section \<open>The operations keep trees well formed\<close>

lemma wf_get: "wf_node (Dir es) \<Longrightarrow> mget es c = Some n \<Longrightarrow> wf_node n"
  using mget_SomeD by fastforce

lemma wf_put: "wf_node (Dir es) \<Longrightarrow> wf_node n \<Longrightarrow> wf_node (Dir (mput c n es))"
proof -
  assume es: "wf_node (Dir es)" and n: "wf_node n"
  have "wf_node (snd e)" if "e \<in> set (mput c n es)" for e
  proof -
    have "mget (mput c n es) (fst e) = Some (snd e)"
      using es that by (subst mget_Some_iff) auto
    with es n show ?thesis using mget_SomeD by (fastforce split: if_splits)
  qed
  with es show ?thesis by simp
qed

lemma wf_mkdir: "wf_node t \<Longrightarrow> wf_node (mkdir_all p t)"
proof (induction p t rule: mkdir_all.induct)
  case (3 c p es)
  show ?case
    unfolding mkdir_all.simps
    by (rule wf_put [OF "3.prems" "3.IH"]) (use "3.prems" wf_get in \<open>auto split: option.split\<close>)
qed auto

lemma wf_write: "write_file p d t = Some t' \<Longrightarrow> wf_node t \<Longrightarrow> wf_node t'"
proof (induction p d t arbitrary: t' rule: write_file.induct)
  case (4 c p d es)
  show ?case
  proof (cases "mget es c")
    case None
    with 4 wf_put [OF 4(3), of "File d" c] show ?thesis by (auto split: if_splits)
  next
    case (Some n)
    with 4 obtain n' where "write_file p d n = Some n'" "t' = Dir (mput c n' es)" by auto
    with 4 Some show ?thesis using wf_put [OF 4(3)] wf_get [OF 4(3)] by blast
  qed
qed auto

lemma wf_copy:
  "copy_node io dst n t = Some t' \<Longrightarrow> wf_node t \<Longrightarrow> wf_node t'"
  "copy_list io dst es t = Some t' \<Longrightarrow> wf_node t \<Longrightarrow> wf_node t'"
proof (induction io dst n t and io dst es t arbitrary: t' and t' rule: copy_node_copy_list.induct)
  case (1 io dst d t)
  then show ?case using wf_write by (simp split: if_splits)
next
  case (2 io dst es t)
  then show ?case using wf_mkdir by (simp add: Let_def split: if_splits)
qed (auto split: option.splits)

lemma wf_remove: "wf_node t \<Longrightarrow> wf_node (remove_all p t)"
proof (induction p t rule: remove_all.induct)
  case (3 c p es)
  show ?case
  proof (cases "mget es c")
    case (Some n)
    have "wf_node (Dir (mdel c es))" using "3.prems" by (auto simp: set_mdel)
    moreover have "wf_node (Dir (mput c (remove_all p n) es))" if "p \<noteq> []"
      by (rule wf_put [OF "3.prems" "3.IH" [OF Some that wf_get [OF "3.prems" Some]]])
    ultimately show ?thesis using Some by simp
  qed (use 3 in simp)
qed auto

text \<open>A copied directory: the destination has all files of the source, which stays as it is when it is
  elsewhere.\<close>

definition embedded :: "path \<Rightarrow> path \<Rightarrow> node \<Rightarrow> bool" where
  "embedded src dst t \<longleftrightarrow> (\<forall>q d. file_at (src @ q) t = Some d \<longrightarrow> file_at (dst @ q) t = Some d)"

lemma file_at_append: "file_at (p @ q) t = (case node_at p t of None \<Rightarrow> None | Some n \<Rightarrow> file_at q n)"
  by (induction p t rule: node_at.induct) (auto split: option.split)

lemma wf_node_at: "wf_node t \<Longrightarrow> node_at p t = Some n \<Longrightarrow> wf_node n"
proof (induction p t rule: node_at.induct)
  case (3 c p es)
  then show ?case using wf_get by (auto split: option.splits)
qed auto

lemma copyDir_embeds:
  assumes "copyDir io src dst t = Some t'" "wf_node t" "src \<noteq> []" "dst \<noteq> []" "hd src \<noteq> hd dst"
  shows "embedded src dst t'" "p = [] \<or> hd p \<noteq> hd dst \<Longrightarrow> file_at p t' = file_at p t" "wf_node t'"
proof -
  obtain es where es: "node_at src t = Some (Dir es)" "copy_node io dst (Dir es) t = Some t'"
    using assms(1) by (auto simp: copyDir_def split: option.splits node.splits)
  note o = copy_overlays(1) [OF es(2) wf_node_at [OF assms(2) es(1)]]
  have out: "file_at p t' = file_at p t" if "p = [] \<or> hd p \<noteq> hd dst" for p
    by (rule overlaidD(2) [OF o]) (use that assms(4) in \<open>auto simp: hd_append\<close>)
  then show "p = [] \<or> hd p \<noteq> hd dst \<Longrightarrow> file_at p t' = file_at p t" .
  have "file_at (src @ q) t' = file_at q (Dir es)" for q
    using out [of "src @ q"] assms(3,5) file_at_append [of src q t] es(1) by (simp add: hd_append)
  then show "embedded src dst t'" unfolding embedded_def using overlaidD(1) [OF o] by simp
  show "wf_node t'" by (rule wf_copy(1) [OF es(2) assms(2)])
qed

text \<open>What was in the destination and is not in the source stays.\<close>

lemma stale_files_stay:
  assumes "copyDir io src dst t = Some t'" "wf_node t" "file_at (dst @ q) t = Some d" "file_at (src @ q) t = None"
  shows "file_at (dst @ q) t' = Some d"
proof -
  obtain es where es: "node_at src t = Some (Dir es)" "copy_node io dst (Dir es) t = Some t'"
    using assms(1) by (auto simp: copyDir_def split: option.splits node.splits)
  have "file_at q (Dir es) = None" using assms(4) es(1) by (simp add: file_at_append)
  then have "file_at (dst @ q) t' = file_at (dst @ q) t"
    by (intro overlaidD(2) [OF copy_overlays(1) [OF es(2) wf_node_at [OF assms(2) es(1)]]]) simp
  with assms(3) show ?thesis by simp
qed

end
