(* ===== verification/FilePath.thy ===== *)
theory FilePath
  imports GoStd
begin

text \<open>
  What the client uses of \<open>path/filepath\<close> on a system whose separator is the slash: \<open>Clean\<close>, and the
  name of the temporary file that \<open>os.CreateTemp(Dir(path), "." + Base(path) + ".*.tmp")\<close> makes, with the
  random part as an argument.
\<close>

section \<open>Cleaning a path\<close>

definition path_elems :: "string \<Rightarrow> string list" where
  "path_elems p = filter (\<lambda>e. e \<noteq> [] \<and> e \<noteq> ''.'') (split_on (CHR ''/'') p)"

text \<open>The elements read so far are kept in reverse; a leading \<open>..\<close> stays in a relative path only.\<close>

fun clean_elems :: "bool \<Rightarrow> string list \<Rightarrow> string list \<Rightarrow> string list" where
  "clean_elems rooted acc [] = rev acc"
| "clean_elems rooted acc (e # es) =
     (if e \<noteq> ''..'' then clean_elems rooted (e # acc) es
      else (case acc of
              [] \<Rightarrow> clean_elems rooted (if rooted then [] else [e]) es
            | a # acc' \<Rightarrow> clean_elems rooted (if a = ''..'' then e # acc else acc') es))"

fun join_path :: "string list \<Rightarrow> string" where
  "join_path [] = []"
| "join_path [e] = e"
| "join_path (e # es) = e @ CHR ''/'' # join_path es"

definition filepath_Clean :: "string \<Rightarrow> string" where
  "filepath_Clean p =
     (if p = [] then ''.''
      else let rooted = has_prefix p ''/'';
               body = join_path (clean_elems rooted [] (path_elems p))
           in if rooted then CHR ''/'' # body else if body = [] then ''.'' else body)"

text \<open>Cleaned elements, from the last to the first.\<close>

fun clean_acc :: "bool \<Rightarrow> string list \<Rightarrow> bool" where
  "clean_acc rooted [] = True"
| "clean_acc rooted (a # acc) =
     (if a = ''..'' then \<not> rooted \<and> list_all (\<lambda>e. e = ''..'') acc else clean_acc rooted acc)"

lemma clean_acc_dots: "\<not> rooted \<Longrightarrow> list_all (\<lambda>e. e = ''..'') acc \<Longrightarrow> clean_acc rooted acc"
  by (induction acc) auto

lemma clean_acc_tl: "clean_acc rooted (a # acc) \<Longrightarrow> clean_acc rooted acc"
  by (auto intro: clean_acc_dots split: if_splits)

lemma clean_acc_suffix: "clean_acc rooted (xs @ acc) \<Longrightarrow> clean_acc rooted acc"
  by (induction xs) (auto intro: clean_acc_dots split: if_splits)

lemma clean_elems_clean: "clean_acc rooted acc \<Longrightarrow> clean_acc rooted (rev (clean_elems rooted acc es))"
proof (induction es arbitrary: acc)
  case (Cons e es)
  show ?case
  proof (cases "e = ''..''")
    case False
    with Cons show ?thesis by simp
  next
    case True
    show ?thesis
    proof (cases acc)
      case Nil
      with True Cons.IH [of "[]"] Cons.IH [of "[e]"] show ?thesis by (cases rooted) simp_all
    next
      case (Cons a acc')
      with True Cons.IH [of "e # acc"] Cons.IH [of acc'] \<open>clean_acc rooted acc\<close> clean_acc_tl [of rooted a acc']
      show ?thesis by (auto split: if_splits)
    qed
  qed
qed simp

lemma clean_elems_id: "clean_acc rooted (rev es @ acc) \<Longrightarrow> clean_elems rooted acc es = rev acc @ es"
proof (induction es arbitrary: acc)
  case (Cons e es)
  from Cons.prems have "clean_acc rooted (e # acc)" using clean_acc_suffix [of rooted "rev es" "e # acc"] by simp
  then have "clean_elems rooted acc (e # es) = clean_elems rooted (e # acc) es"
    by (auto split: list.split)
  with Cons show ?case by simp
qed simp

lemma clean_elems_set: "set (clean_elems rooted acc es) \<subseteq> set acc \<union> set es"
  by (induction rooted acc es rule: clean_elems.induct) (auto split: list.splits if_splits)

abbreviation path_elem :: "string \<Rightarrow> bool" where
  "path_elem e \<equiv> CHR ''/'' \<notin> set e \<and> e \<noteq> [] \<and> e \<noteq> ''.''"

lemma path_elems_ok: "e \<in> set (path_elems p) \<Longrightarrow> path_elem e"
  using split_on_no_sep by (auto simp: path_elems_def)

lemma split_join_path: "es \<noteq> [] \<Longrightarrow> list_all path_elem es \<Longrightarrow> split_on (CHR ''/'') (join_path es) = es"
  by (induction es rule: join_path.induct) (auto simp: split_on_append split_on_atom)

lemma path_elems_join: "list_all path_elem es \<Longrightarrow> path_elems (join_path es) = es"
  by (cases "es = []") (auto simp: path_elems_def split_join_path list_all_iff filter_id_conv)

lemma path_elems_slash: "path_elems (CHR ''/'' # s) = path_elems s"
  by (simp add: path_elems_def)

lemma join_path_prefix: "list_all path_elem es \<Longrightarrow> \<not> has_prefix (join_path es) ''/''"
proof (cases es rule: join_path.cases)
  case (2 e)
  then show "list_all path_elem es \<Longrightarrow> ?thesis" by (cases e) (auto simp: has_prefix_def)
next
  case (3 e f fs)
  then show "list_all path_elem es \<Longrightarrow> ?thesis" by (cases e) (auto simp: has_prefix_def)
qed (simp add: has_prefix_def)

lemma join_path_empty: "list_all path_elem es \<Longrightarrow> join_path es = [] \<longleftrightarrow> es = []"
  by (induction es rule: join_path.induct) auto

text \<open>Cleaning is idempotent: whoever cleans the path again means the same file.\<close>

lemma Clean_idem: "filepath_Clean (filepath_Clean p) = filepath_Clean p"
proof (cases "p = []")
  case True
  show ?thesis unfolding True by code_simp
next
  case False
  let ?r = "has_prefix p ''/''"
  let ?es = "clean_elems ?r [] (path_elems p)"
  have ok: "list_all path_elem ?es"
    using clean_elems_set [of ?r "[]" "path_elems p"] path_elems_ok [of _ p] by (auto simp: list_all_iff)
  have id: "clean_elems ?r [] ?es = ?es"
    using clean_elems_id [of ?r ?es "[]"] clean_elems_clean [of ?r "[]"] by simp
  show ?thesis
  proof (cases ?r)
    case True
    then show ?thesis
      using False id ok by (simp add: filepath_Clean_def Let_def path_elems_slash path_elems_join has_prefix_def)
  next
    case r: False
    show ?thesis
    proof (cases "?es = []")
      case True
      with False r have "filepath_Clean p = ''.''" by (simp add: filepath_Clean_def)
      moreover have "filepath_Clean ''.'' = ''.''" by code_simp
      ultimately show ?thesis by simp
    next
      case es: False
      with r False id ok join_path_empty [OF ok] join_path_prefix [OF ok] show ?thesis
        by (simp add: filepath_Clean_def Let_def path_elems_join)
    qed
  qed
qed

section \<open>Temporary files\<close>

definition base_name :: "string \<Rightarrow> string" where
  "base_name p = rev (takeWhile (\<lambda>c. c \<noteq> CHR ''/'') (rev p))"

definition dir_part :: "string \<Rightarrow> string" where
  "dir_part p = rev (dropWhile (\<lambda>c. c \<noteq> CHR ''/'') (rev p))"

definition temp_name :: "string \<Rightarrow> string \<Rightarrow> string" where
  "temp_name p rnd = dir_part p @ ''.'' @ base_name p @ ''.'' @ rnd @ ''.tmp''"

lemma dir_base: "dir_part p @ base_name p = p"
  unfolding dir_part_def base_name_def by (metis rev_append rev_rev_ident takeWhile_dropWhile_id)

lemma temp_name_neq [simp]: "temp_name p rnd \<noteq> p" "p \<noteq> temp_name p rnd"
proof -
  have "length (temp_name p rnd) > length (dir_part p @ base_name p)" by (simp add: temp_name_def)
  then show "temp_name p rnd \<noteq> p" "p \<noteq> temp_name p rnd" by (auto simp: dir_base)
qed

end
