(* ===== verification/StaticFiles.thy ===== *)
theory StaticFiles
  imports BuildTree FilePath
begin

text \<open>
  The embedded single-page applications, \<open>internal/embed/admin/static.go\<close> and
  \<open>internal/embed/client/static.go\<close>: what \<open>//go:embed dist\<close> puts into the binary, and what a request path
  gets. The parts of \<open>io/fs\<close>, \<open>embed\<close> and \<open>net/http\<close> they rest on are modelled on the tree of files:
  \<open>fs.ValidPath\<close>, \<open>fs.Sub\<close>, \<open>http.FileServer\<close> with its redirects. Conditional and range requests, the
  headers, the query a redirect keeps, and the text of the placeholder page are left out. A file name is
  taken to be one that the compiler accepts in a module.
\<close>

section \<open>Embedding a directory\<close>

text \<open>\<open>//go:embed dist\<close> leaves out the names that begin with a dot or an underscore, at every level, and
  keeps a directory only when it has a file.\<close>

definition visible :: "string \<Rightarrow> bool" where
  "visible name \<longleftrightarrow> name \<noteq> [] \<and> hd name \<notin> {CHR ''.'', CHR ''_''}"

function (sequential) embed_node :: "node \<Rightarrow> node option"
  and embed_entries :: "(string, node) gomap \<Rightarrow> (string, node) gomap" where
  "embed_node (File d) = Some (File d)"
| "embed_node (Dir es) = (case embed_entries es of [] \<Rightarrow> None | fs \<Rightarrow> Some (Dir fs))"
| "embed_entries [] = []"
| "embed_entries ((name, n) # es) =
     (if visible name
      then (case embed_node n of None \<Rightarrow> embed_entries es | Some m \<Rightarrow> (name, m) # embed_entries es)
      else embed_entries es)"
  by pat_completeness auto
termination
  by (relation "measure (\<lambda>x. case x of Inl n \<Rightarrow> size n | Inr es \<Rightarrow> size_list (\<lambda>p. size (snd p)) es)")
    (auto simp: size_list_conv_sum_list less_Suc_eq_le size_snd_le)

text \<open>The embedded files of a program, or \<open>None\<close>: it does not compile without one.\<close>

definition go_embed :: "string \<Rightarrow> node option \<Rightarrow> node option" where
  "go_embed dir n =
     (case n of
        None \<Rightarrow> None
      | Some n \<Rightarrow> map_option (\<lambda>m. Dir [(dir, m)]) (embed_node n))"

section \<open>Opening names\<close>

abbreviation slash :: char where
  "slash \<equiv> CHR ''/''"

definition ValidPath :: "string \<Rightarrow> bool" where
  "ValidPath name \<longleftrightarrow> name = ''.'' \<or> (\<forall>e \<in> set (split_on slash name). e \<noteq> [] \<and> e \<noteq> ''.'' \<and> e \<noteq> ''..'')"

definition embed_Open :: "node \<Rightarrow> string \<Rightarrow> node option" where
  "embed_Open t name =
     (if \<not> ValidPath name then None
      else if name = ''.'' then Some t
      else node_at (split_on slash name) t)"

text \<open>\<open>fs.Sub\<close> only refuses a directory whose name is not valid; it does not look for it.\<close>

definition fs_Sub :: "(string \<Rightarrow> node option) \<Rightarrow> string \<Rightarrow> (string \<Rightarrow> node option) option" where
  "fs_Sub fsys dir =
     (if \<not> ValidPath dir then None
      else Some (\<lambda>name. if ValidPath name then fsys (filepath_Clean (dir @ slash # name)) else None))"

section \<open>The file server\<close>

datatype static_reply =
    StaticNotFound
  | Placeholder
  | Redirect string
  | Contents string
  | Listing "string list"

fun static_status :: "static_reply \<Rightarrow> nat" where
  "static_status StaticNotFound = 404"
| "static_status (Redirect _) = 301"
| "static_status _ = 200"

definition trim_prefix :: "string \<Rightarrow> string \<Rightarrow> string" where
  "trim_prefix s p = (if has_prefix s p then drop (length p) s else s)"

definition has_suffix :: "string \<Rightarrow> string \<Rightarrow> bool" where
  "has_suffix s p \<longleftrightarrow> has_prefix (rev s) (rev p)"

definition path_Base :: "string \<Rightarrow> string" where
  "path_Base p =
     (if p = [] then ''.''
      else let p = rev (dropWhile (\<lambda>c. c = slash) (rev p));
               b = base_name p
           in if b = [] then ''/'' else b)"

definition http_Open :: "(string \<Rightarrow> node option) \<Rightarrow> string \<Rightarrow> node option" where
  "http_Open fsys name = fsys (if name = ''/'' then ''.'' else trim_prefix name ''/'')"

text \<open>A directory shows its start page when it has one.\<close>

definition serve_dir :: "(string \<Rightarrow> node option) \<Rightarrow> string \<Rightarrow> (string, node) gomap \<Rightarrow> static_reply" where
  "serve_dir fsys name es =
     (let index = (if has_suffix name ''/'' then butlast name else name) @ ''/index.html''
      in (case http_Open fsys index of
            Some (File d) \<Rightarrow> Contents d
          | Some (Dir fs) \<Rightarrow> Listing (mkeys fs)
          | None \<Rightarrow> Listing (mkeys es)))"

definition FileServer :: "(string \<Rightarrow> node option) \<Rightarrow> string \<Rightarrow> static_reply" where
  "FileServer fsys path =
     (let url = (if has_prefix path ''/'' then path else slash # path);
          name = filepath_Clean url
      in if has_suffix url ''/index.html'' then Redirect ''./''
         else (case http_Open fsys name of
                 None \<Rightarrow> StaticNotFound
               | Some (File d) \<Rightarrow>
                   if has_suffix url ''/'' then Redirect (''../'' @ path_Base url) else Contents d
               | Some (Dir es) \<Rightarrow>
                   if \<not> has_suffix url ''/'' then Redirect (path_Base url @ ''/'')
                   else serve_dir fsys name es))"

section \<open>The handlers\<close>

text \<open>A path that opens is served as it is, any other gets the application's start page.\<close>

definition spa_path :: "(string \<Rightarrow> node option) \<Rightarrow> string \<Rightarrow> string" where
  "spa_path content path = (if content (trim_prefix path ''/'') = None then ''/'' else path)"

definition admin_CreateFileServer :: "node \<Rightarrow> string \<Rightarrow> static_reply" where
  "admin_CreateFileServer StaticFiles path =
     (case fs_Sub (embed_Open StaticFiles) ''dist'' of
        None \<Rightarrow> Placeholder
      | Some content \<Rightarrow>
          if has_prefix path ''/api'' \<or> has_prefix path ''/ws'' then StaticNotFound
          else FileServer content (spa_path content path))"

definition client_CreateFileServer :: "node \<Rightarrow> string \<Rightarrow> static_reply" where
  "client_CreateFileServer StaticFiles path =
     (case fs_Sub (embed_Open StaticFiles) ''dist'' of
        None \<Rightarrow> Placeholder
      | Some content \<Rightarrow>
          if has_prefix path ''/api'' then StaticNotFound
          else FileServer content (spa_path content path))"

section \<open>The directory that is served\<close>

text \<open>Names as lists of elements.\<close>

abbreviation elem_ok :: "string \<Rightarrow> bool" where
  "elem_ok e \<equiv> path_elem e \<and> e \<noteq> ''..''"

lemma ValidPath_join: "q \<noteq> [] \<Longrightarrow> list_all elem_ok q \<Longrightarrow> ValidPath (join_path q)"
proof -
  assume q: "q \<noteq> []" "list_all elem_ok q"
  then have "list_all path_elem q" by (auto simp: list_all_iff)
  with q show ?thesis by (auto simp: ValidPath_def split_join_path list_all_iff)
qed

lemma join_split: "join_path (split_on c s) = s" if "c = slash"
  using that
proof (induction s)
  case (Cons x s)
  then show ?case by (cases "split_on c s" rule: join_path.cases) (auto split: list.splits)
qed simp

lemma ValidPathE:
  assumes "ValidPath s" "s \<noteq> ''.''"
  obtains q where "q \<noteq> []" "list_all elem_ok q" "s = join_path q" "split_on slash s = q"
proof
  show "split_on slash s \<noteq> []" by simp
  show "list_all elem_ok (split_on slash s)"
    using assms split_on_no_sep [of _ slash s] by (auto simp: ValidPath_def list_all_iff)
  show "s = join_path (split_on slash s)" by (simp add: join_split)
qed rule

lemma clean_acc_ok: "list_all elem_ok q \<Longrightarrow> clean_acc r q"
  by (induction q) auto

lemma Clean_join:
  assumes "q \<noteq> []" "list_all elem_ok q"
  shows "filepath_Clean (join_path q) = join_path q" "filepath_Clean (slash # join_path q) = slash # join_path q"
proof -
  have p: "list_all path_elem q" using assms(2) by (auto simp: list_all_iff)
  have c: "clean_elems r [] q = q" for r
    using clean_elems_id [of r q "[]"] clean_acc_ok [of "rev q" r] assms(2) by simp
  show "filepath_Clean (join_path q) = join_path q"
    using assms p c join_path_prefix [OF p] join_path_empty [OF p]
    by (simp add: filepath_Clean_def Let_def path_elems_join)
  show "filepath_Clean (slash # join_path q) = slash # join_path q"
    using p c by (simp add: filepath_Clean_def Let_def has_prefix_def path_elems_slash path_elems_join)
qed

text \<open>The directory \<open>dist\<close> of the embedded files, as a function of names.\<close>

definition dist_Open :: "node \<Rightarrow> string \<Rightarrow> node option" where
  "dist_Open t name = (if ValidPath name then node_at (if name = ''.'' then [] else split_on slash name) t else None)"

lemma fs_Sub_dist: "fs_Sub (embed_Open (Dir [(''dist'', t)])) ''dist'' = Some (dist_Open t)"
proof -
  have "embed_Open (Dir [(''dist'', t)]) (filepath_Clean (''dist/'' @ name)) = dist_Open t name" if v: "ValidPath name" for name
  proof (cases "name = ''.''")
    case True
    have c: "filepath_Clean ''dist/.'' = ''dist''" by code_simp
    have "ValidPath ''dist''" "split_on slash ''dist'' = [''dist'']" by code_simp+
    with True c v show ?thesis by (simp add: embed_Open_def dist_Open_def)
  next
    case False
    with v obtain q where q: "q \<noteq> []" "list_all elem_ok q" "name = join_path q" "split_on slash name = q"
      by (rule ValidPathE)
    let ?q = "''dist'' # q"
    have d: "list_all elem_ok ?q" "''dist/'' @ name = join_path ?q" using q by (cases q; simp)+
    then have "list_all path_elem ?q" by (auto simp: list_all_iff)
    then have s: "split_on slash (join_path ?q) = ?q" by (intro split_join_path) auto
    then have n: "join_path ?q \<noteq> ''.''" by (cases q) auto
    have c: "filepath_Clean (''dist/'' @ name) = join_path ?q" unfolding d(2) by (rule Clean_join(1) [OF _ d(1)]) simp
    show ?thesis
      unfolding c using v False q(4) n s ValidPath_join [OF _ d(1)]
      by (simp add: embed_Open_def dist_Open_def del: join_path.simps)
  qed
  moreover have "ValidPath ''dist''" by code_simp
  ultimately show ?thesis by (auto simp: fs_Sub_def dist_Open_def fun_eq_iff)
qed

lemma dist_Open_join:
  assumes "q \<noteq> []" "list_all elem_ok q"
  shows "dist_Open t (join_path q) = node_at q t"
proof -
  have p: "list_all path_elem q" using assms(2) by (auto simp: list_all_iff)
  have "join_path q \<noteq> ''.''" using split_join_path [OF assms(1) p] p by auto
  with assms p show ?thesis by (simp add: dist_Open_def ValidPath_join split_join_path)
qed

section \<open>What a path gets\<close>

lemma slash_join: "q \<noteq> [] \<Longrightarrow> \<exists>u. slash # join_path q = u @ slash # last q"
proof (induction q rule: join_path.induct)
  case (3 e f fs)
  then obtain u where "slash # join_path (f # fs) = u @ slash # last (f # fs)" by auto
  then have "slash # join_path (e # f # fs) = (slash # e @ u) @ slash # last (e # f # fs)" by simp
  then show ?case by blast
qed auto

lemma suffix_elem:
  assumes "slash \<notin> set x" "slash \<notin> set y"
  shows "has_suffix (u @ slash # x) (slash # y) \<longleftrightarrow> x = y"
proof
  assume "has_suffix (u @ slash # x) (slash # y)"
  then obtain v where "rev x @ slash # rev u = rev y @ slash # v"
    unfolding has_suffix_def by (auto dest: has_prefixE)
  moreover have "takeWhile (\<lambda>c. c \<noteq> slash) (rev z @ slash # w) = rev z" if "slash \<notin> set z" for z w
    using that by (subst takeWhile_append2) auto
  ultimately show "x = y" using assms by (metis rev_rev_ident)
next
  assume "x = y"
  then have "rev (u @ slash # x) = rev (slash # y) @ rev u" by simp
  then show "has_suffix (u @ slash # x) (slash # y)" unfolding has_suffix_def by (metis has_prefix_append)
qed

lemma url_parts:
  assumes "q \<noteq> []" "list_all elem_ok q"
  shows "has_suffix (slash # join_path q) ''/index.html'' \<longleftrightarrow> last q = ''index.html''"
    "\<not> has_suffix (slash # join_path q) ''/''" "path_Base (slash # join_path q) = last q"
proof -
  obtain u where u: "slash # join_path q = u @ slash # last q" using slash_join [OF assms(1)] by blast
  have l: "elem_ok (last q)" using assms by (auto simp: list_all_iff)
  then show "has_suffix (slash # join_path q) ''/index.html'' \<longleftrightarrow> last q = ''index.html''"
    unfolding u by (intro suffix_elem) auto
  show "\<not> has_suffix (slash # join_path q) ''/''"
    unfolding u using l suffix_elem [of "last q" "[]" u] by simp
  obtain c cs where c: "rev (last q) = c # cs" using l by (cases "rev (last q)") auto
  then have "c \<noteq> slash" using l by (metis list.set_intros(1) set_rev)
  then have "dropWhile (\<lambda>c. c = slash) (rev (u @ slash # last q)) = rev (u @ slash # last q)" using c by simp
  moreover have "base_name (u @ slash # last q) = last q"
    using l by (simp add: base_name_def takeWhile_append)
  ultimately show "path_Base (slash # join_path q) = last q"
    unfolding u path_Base_def using l by (simp add: Let_def)
qed

text \<open>The table of answers: a name that opens is a file or a directory, any other path gets the start page.\<close>

definition spa_reply :: "node \<Rightarrow> string \<Rightarrow> string \<Rightarrow> static_reply" where
  "spa_reply t page path =
     (let s = trim_prefix path ''/''; q = split_on slash s
      in if s = ''.'' then Redirect ''./''
         else (case dist_Open t s of
                 None \<Rightarrow> Contents page
               | Some n \<Rightarrow>
                   if last q = ''index.html'' then Redirect ''./''
                   else (case n of File d \<Rightarrow> Contents d | Dir es \<Rightarrow> Redirect (last q @ ''/''))))"

lemma FileServer_join:
  assumes "q \<noteq> []" "list_all elem_ok q" "path = join_path q \<or> path = slash # join_path q"
  shows "FileServer (dist_Open t) path =
    (if last q = ''index.html'' then Redirect ''./''
     else (case node_at q t of
             None \<Rightarrow> StaticNotFound
           | Some (File d) \<Rightarrow> Contents d
           | Some (Dir es) \<Rightarrow> Redirect (last q @ ''/'')))"
proof -
  have p: "list_all path_elem q" using assms(2) by (auto simp: list_all_iff)
  have url: "(if has_prefix path ''/'' then path else slash # path) = slash # join_path q"
    using assms(3) join_path_prefix [OF p] by (auto simp: has_prefix_def)
  have "join_path q \<noteq> []" using join_path_empty [OF p] assms(1) by simp
  then have o: "http_Open (dist_Open t) (slash # join_path q) = node_at q t"
    by (simp add: http_Open_def trim_prefix_def has_prefix_def dist_Open_join [OF assms(1,2)])
  show ?thesis
    unfolding FileServer_def url Let_def Clean_join(2) [OF assms(1,2)]
    by (simp add: url_parts [OF assms(1,2)] o split: option.split node.split)
qed

lemma FileServer_root:
  assumes "file_at [''index.html''] t = Some page"
  shows "FileServer (dist_Open t) ''/'' = Contents page" "FileServer (dist_Open t) ''/.'' = Redirect ''./''"
    "FileServer (dist_Open t) ''.'' = Redirect ''./''"
proof -
  obtain es where t: "t = Dir es" "node_at [''index.html''] t = Some (File page)"
    using assms by (cases t) (auto simp: file_at_def split: option.splits node.splits)
  have o: "http_Open (dist_Open t) ''/'' = Some t"
    by (simp add: http_Open_def dist_Open_def ValidPath_def)
  have i: "http_Open (dist_Open t) ''/index.html'' = Some (File page)"
    using t(2) dist_Open_join [of "[''index.html'']" t] by (simp add: http_Open_def trim_prefix_def has_prefix_def)
  have c: "filepath_Clean ''/'' = ''/''" "filepath_Clean ''/.'' = ''/''" "path_Base ''/.'' = ''.''" by code_simp+
  have s: "\<not> has_suffix ''/'' ''/index.html''" "has_suffix ''/'' ''/''" "\<not> has_suffix ''/.'' ''/index.html''"
    "\<not> has_suffix ''/.'' ''/''" by (simp_all add: has_suffix_def has_prefix_def)
  show "FileServer (dist_Open t) ''/'' = Contents page"
    using o i t(1) c s by (simp add: FileServer_def serve_dir_def Let_def has_prefix_def)
  show "FileServer (dist_Open t) ''/.'' = Redirect ''./''" "FileServer (dist_Open t) ''.'' = Redirect ''./''"
    using o i t(1) c s by (simp_all add: FileServer_def Let_def has_prefix_def)
qed

lemma static_table:
  assumes "file_at [''index.html''] t = Some page"
  shows "FileServer (dist_Open t) (spa_path (dist_Open t) path) = spa_reply t page path"
proof -
  let ?s = "trim_prefix path ''/''"
  have path: "path = ?s \<or> path = slash # ?s" by (auto simp: trim_prefix_def dest: has_prefixE)
  consider (dot) "?s = ''.''" | (none) "?s \<noteq> ''.''" "dist_Open t ?s = None"
    | (some) n where "?s \<noteq> ''.''" "dist_Open t ?s = Some n" by blast
  then show ?thesis
  proof cases
    case dot
    then have "dist_Open t ?s \<noteq> None" by (simp add: dist_Open_def ValidPath_def)
    with dot path FileServer_root [OF assms] show ?thesis by (auto simp: spa_path_def spa_reply_def)
  next
    case none
    with FileServer_root [OF assms] show ?thesis by (simp add: spa_path_def spa_reply_def Let_def)
  next
    case some
    then have v: "ValidPath ?s" by (auto simp: dist_Open_def split: if_splits)
    from v some(1) obtain q where q: "q \<noteq> []" "list_all elem_ok q" "?s = join_path q" "split_on slash ?s = q"
      by (rule ValidPathE)
    have n: "node_at q t = Some n" using some(2) q by (simp add: dist_Open_join)
    have "path = join_path q \<or> path = slash # join_path q" using path q(3) by simp
    from FileServer_join [OF q(1,2) this, of t] some q(4) n show ?thesis
      by (cases n) (simp_all add: spa_path_def spa_reply_def Let_def)
  qed
qed

lemmas static_server_defs = admin_CreateFileServer_def client_CreateFileServer_def fs_Sub_dist option.simps

lemma admin_static:
  "file_at [''index.html''] t = Some page \<Longrightarrow> admin_CreateFileServer (Dir [(''dist'', t)]) path =
     (if has_prefix path ''/api'' \<or> has_prefix path ''/ws'' then StaticNotFound else spa_reply t page path)"
  by (simp add: static_server_defs static_table)

lemma client_static:
  "file_at [''index.html''] t = Some page \<Longrightarrow> client_CreateFileServer (Dir [(''dist'', t)]) path =
     (if has_prefix path ''/api'' then StaticNotFound else spa_reply t page path)"
  by (simp add: static_server_defs static_table)

text \<open>The placeholder for a missing frontend is never served: a program without one does not compile, and
  \<open>fs.Sub\<close> does not fail.\<close>

lemma FileServer_no_placeholder: "FileServer fsys path \<noteq> Placeholder"
  by (auto simp: FileServer_def serve_dir_def Let_def split: option.split node.split)

lemma placeholder_never_served:
  "admin_CreateFileServer files path \<noteq> Placeholder" "client_CreateFileServer files path \<noteq> Placeholder"
proof -
  have "ValidPath ''dist''" by code_simp
  then show "admin_CreateFileServer files path \<noteq> Placeholder" "client_CreateFileServer files path \<noteq> Placeholder"
    by (auto simp: admin_CreateFileServer_def client_CreateFileServer_def fs_Sub_def FileServer_no_placeholder)
qed

section \<open>The files that are embedded\<close>

lemma mget_embed:
  "distinct (mkeys es) \<Longrightarrow> mget (embed_entries es) c =
     (if visible c then (case mget es c of None \<Rightarrow> None | Some n \<Rightarrow> embed_node n) else None)"
proof (induction es)
  case (Cons e es)
  obtain name n where e: "e = (name, n)" by (cases e)
  have "mget es name = None" using Cons.prems e by (simp add: mget_None_iff)
  with Cons e show ?case by (auto split: option.split)
qed simp

lemma file_at_embed:
  assumes "wf_node n"
  shows "(case embed_node n of None \<Rightarrow> None | Some m \<Rightarrow> file_at q m) = (if list_all visible q then file_at q n else None)"
  using assms
proof (induction q arbitrary: n)
  case Nil
  show ?case by (cases n) (auto split: list.split option.split)
next
  case (Cons c q)
  show ?case
  proof (cases n)
    case (Dir es)
    have "(case embed_node n of None \<Rightarrow> None | Some m \<Rightarrow> file_at (c # q) m) =
        (case mget (embed_entries es) c of None \<Rightarrow> None | Some m \<Rightarrow> file_at q m)"
      using Dir by (auto split: list.split)
    also have "\<dots> = (if visible c then (case mget es c of None \<Rightarrow> None | Some n \<Rightarrow>
        (case embed_node n of None \<Rightarrow> None | Some m \<Rightarrow> file_at q m)) else None)"
      using Cons.prems Dir by (auto simp: mget_embed split: option.split)
    also have "\<dots> = (if list_all visible (c # q) then file_at (c # q) n else None)"
      using Cons.IH wf_get [of es c] Cons.prems Dir by (auto split: option.split)
    finally show ?thesis .
  qed simp
qed

lemma go_embed_file:
  assumes "wf_node t" "file_at (p @ q) t = Some d" "list_all visible q"
  obtains m where "go_embed dir (node_at p t) = Some (Dir [(dir, m)])" "file_at q m = Some d"
proof -
  obtain n where n: "node_at p t = Some n" "file_at q n = Some d"
    using assms(2) by (auto simp: file_at_append split: option.splits)
  from file_at_embed [OF wf_node_at [OF assms(1) n(1)], of q] n(2) assms(3)
  obtain m where "embed_node n = Some m" "file_at q m = Some d" by (auto split: option.splits)
  with n(1) show thesis by (intro that [of m]) (simp_all add: go_embed_def)
qed

text \<open>A file below a name with a dot or an underscore is not embedded, and gets the start page.\<close>

lemma hidden_file_gets_page:
  assumes "wf_node n" "embed_node n = Some m" "file_at [''index.html''] n = Some page" "q = [e]" "elem_ok e" "\<not> visible e"
  shows "spa_reply m page (slash # join_path q) = Contents page"
proof -
  obtain es where n: "n = Dir es" using assms(3) by (cases n) auto
  then have m: "m = Dir (embed_entries es)" using assms(2) by (auto split: list.splits)
  have "node_at q m = None" using assms(1,4,6) n m by (simp add: mget_embed)
  moreover have "list_all elem_ok q" "q \<noteq> []" using assms(4,5) by auto
  ultimately have o: "dist_Open m (join_path q) = None" by (simp add: dist_Open_join)
  have "join_path q \<noteq> ''.''" using assms(4,5) by simp
  with o show ?thesis by (simp add: spa_reply_def Let_def trim_prefix_def has_prefix_def)
qed

end
