(* ===== verification/ApiHandler.thy ===== *)
theory ApiHandler
  imports ProxyManager BrokerProps StaticFiles
begin

text \<open>
  The server's HTTP handlers, \<open>internal/api/handler.go\<close>, and its start, \<open>cmd/server/main.go\<close>. The
  state is that of the three parts a handler is given: the configuration manager with its files, the
  proxy manager and the reverse-tunnel broker. gin, which routes a request and decodes its body, is a
  third-party package: a request comes as its route, with the decoded body or \<open>None\<close> when
  \<open>ShouldBindJSON\<close> fails. The random ids, the clock, the operating system, the YAML codec and name
  resolution are the fields of \<open>api_env\<close>.
\<close>

section \<open>State and responses\<close>

record api_env =
  ae_ym :: "Config \<Rightarrow> string option"
  ae_yu :: "string \<Rightarrow> Config option"
  ae_res :: "string \<Rightarrow> bool"
  ae_os :: os_env
  ae_now :: int
  ae_newID :: string
  ae_dist :: node

record api_state =
  as_cfg :: cfg_state
  as_pm :: pm_state
  as_broker :: broker_world
  as_startAt :: int

record create_req =
  cq_Name :: string
  cq_RemoteAddress :: string
  cq_Enabled :: bool

text \<open>\<open>ErrorJson\<close> holds the field \<open>error\<close>; the texts under \<open>message\<close> are not modelled.\<close>

datatype body =
    NoBody
  | ErrorJson string
  | AuthJson bool
  | LoginJson bool
  | ProxiesJson "ProxyStatus list"
  | ProxyJson ProxyConfig
  | StatusJson ProxyStatus
  | ReloadedJson nat
  | HealthJson int nat nat
  | StaticBody static_reply

record response =
  rs_status :: nat
  rs_body :: body

definition reply :: "nat \<Rightarrow> body \<Rightarrow> 's \<Rightarrow> response \<times> 's" where
  "reply code b s = (\<lparr>rs_status = code, rs_body = b\<rparr>, s)"

abbreviation auth_of :: "api_state \<Rightarrow> AccessAuth" where
  "auth_of s \<equiv> Auth (Server (GetConfig (fst (as_cfg s))))"

definition NewHandler :: "int \<Rightarrow> cfg_state \<Rightarrow> pm_state \<Rightarrow> api_state" where
  "NewHandler now c pm = \<lparr>as_cfg = c, as_pm = pm, as_broker = NewBroker, as_startAt = now\<rparr>"

section \<open>Authentication endpoints\<close>

definition h_AuthEnabled :: "api_state \<Rightarrow> response \<times> api_state" where
  "h_AuthEnabled s = reply 200 (AuthJson (AuthEnabled (auth_of s))) s"

definition h_AuthLogin :: "string option \<Rightarrow> api_state \<Rightarrow> response \<times> api_state" where
  "h_AuthLogin bind s =
     (if \<not> AuthEnabled (auth_of s) then reply 200 (LoginJson False) s
      else (case bind of
              None \<Rightarrow> reply 400 (ErrorJson ''bad_request'') s
            | Some key \<Rightarrow>
                (case VerifyPlainCredential (auth_of s) key of
                   Some _ \<Rightarrow> reply 401 (ErrorJson ''unauthorized'') s
                 | None \<Rightarrow> reply 200 (LoginJson True) s)))"

section \<open>Proxies\<close>

definition h_ListProxies :: "string \<Rightarrow> api_state \<Rightarrow> response \<times> api_state" where
  "h_ListProxies enabled s =
     (let proxies = GetAllStatus (as_pm s);
          result = filter (\<lambda>p. \<not> (enabled = ''true'' \<and> \<not> ps_Enabled p)) proxies
      in reply 200 (ProxiesJson result) s)"

definition proxy_of :: "string \<Rightarrow> create_req \<Rightarrow> ProxyConfig" where
  "proxy_of i req = \<lparr>pc_ID = i, pc_Name = cq_Name req, pc_RemoteAddress = cq_RemoteAddress req,
     pc_Enabled = cq_Enabled req\<rparr>"

definition h_CreateProxy :: "api_env \<Rightarrow> create_req option \<Rightarrow> api_state \<Rightarrow> response \<times> api_state" where
  "h_CreateProxy env bind s =
     (case bind of
        None \<Rightarrow> reply 400 (ErrorJson ''validation_failed'') s
      | Some req \<Rightarrow>
          let pc = proxy_of (ae_newID env) req;
              (err, c) = cfg_AddProxy (ae_ym env) (ae_res env) (ae_os env) pc (as_cfg s);
              s = s\<lparr>as_cfg := c\<rparr>
          in (case err of
                Some _ \<Rightarrow> reply 500 (ErrorJson ''config_save_failed'') s
              | None \<Rightarrow>
                  let (err, pm) = pm_AddProxy (ae_now env) pc (as_pm s);
                      s = s\<lparr>as_pm := pm\<rparr>
                  in (case err of
                        Some _ \<Rightarrow> reply 500 (ErrorJson ''proxy_start_failed'') s
                      | None \<Rightarrow> reply 201 (ProxyJson pc) s)))"

definition h_GetProxy :: "string \<Rightarrow> api_state \<Rightarrow> response \<times> api_state" where
  "h_GetProxy i s =
     (case GetStatus i (as_pm s) of
        Inl _ \<Rightarrow> reply 404 (ErrorJson ''not_found'') s
      | Inr st \<Rightarrow> reply 200 (StatusJson st) s)"

definition h_UpdateProxy :: "api_env \<Rightarrow> string \<Rightarrow> create_req option \<Rightarrow> api_state \<Rightarrow> response \<times> api_state" where
  "h_UpdateProxy env i bind s =
     (case bind of
        None \<Rightarrow> reply 400 (ErrorJson ''validation_failed'') s
      | Some req \<Rightarrow>
          let pc = proxy_of i req;
              (err, c) = cfg_UpdateProxy (ae_ym env) (ae_res env) (ae_os env) i pc (as_cfg s);
              s = s\<lparr>as_cfg := c\<rparr>
          in (case err of
                Some _ \<Rightarrow> reply 500 (ErrorJson ''config_update_failed'') s
              | None \<Rightarrow>
                  let (err, pm) = pm_UpdateProxy (ae_now env) i pc (as_pm s);
                      s = s\<lparr>as_pm := pm\<rparr>
                  in (case err of
                        Some _ \<Rightarrow> reply 500 (ErrorJson ''proxy_update_failed'') s
                      | None \<Rightarrow> reply 200 (ProxyJson pc) s)))"

definition h_DeleteProxy :: "api_env \<Rightarrow> string \<Rightarrow> api_state \<Rightarrow> response \<times> api_state" where
  "h_DeleteProxy env i s =
     (let (err, c) = cfg_RemoveProxy (ae_ym env) (ae_res env) (ae_os env) i (as_cfg s);
          s = s\<lparr>as_cfg := c\<rparr>
      in (case err of
            Some _ \<Rightarrow> reply 404 (ErrorJson ''not_found'') s
          | None \<Rightarrow>
              let (err, pm) = pm_RemoveProxy i (as_pm s);
                  s = s\<lparr>as_pm := pm\<rparr>
              in (case err of
                    Some _ \<Rightarrow> reply 500 (ErrorJson ''proxy_remove_failed'') s
                  | None \<Rightarrow> reply 204 NoBody s)))"

section \<open>Configuration and health\<close>

definition h_ReloadConfig :: "api_env \<Rightarrow> api_state \<Rightarrow> response \<times> api_state" where
  "h_ReloadConfig env s =
     (case cfg_Reload (ae_ym env) (ae_yu env) (ae_os env) (as_cfg s) of
        (Inl _, c) \<Rightarrow> reply 500 (ErrorJson ''reload_failed'') (s\<lparr>as_cfg := c\<rparr>)
      | (Inr cfg, c) \<Rightarrow>
          reply 200 (ReloadedJson (length (Proxies cfg)))
            (s\<lparr>as_cfg := c, as_pm := SyncWithConfig (ae_now env) cfg (as_pm s)\<rparr>))"

definition h_HealthCheck :: "api_env \<Rightarrow> api_state \<Rightarrow> response \<times> api_state" where
  "h_HealthCheck env s =
     (let proxies = GetAllStatus (as_pm s);
          running = length (filter (\<lambda>p. ps_Status p = StatusRunning) proxies)
      in reply 200 (HealthJson (ae_now env - as_startAt s) running (length proxies)) s)"

definition h_ServeStatic :: "api_env \<Rightarrow> string \<Rightarrow> api_state \<Rightarrow> response \<times> api_state" where
  "h_ServeStatic env path s =
     (if length path \<ge> 4 \<and> take 4 path = ''/api'' then reply 404 (ErrorJson ''not_found'') s
      else let body = admin_CreateFileServer (ae_dist env) path in reply (static_status body) (StaticBody body) s)"

section \<open>Routes\<close>

datatype route =
    R_AuthEnabled
  | R_AuthLogin "string option"
  | R_ListProxies string
  | R_CreateProxy "create_req option"
  | R_GetProxy string
  | R_UpdateProxy string "create_req option"
  | R_DeleteProxy string
  | R_ReloadConfig
  | R_HealthCheck
  | R_Static string

fun handle_v1 :: "api_env \<Rightarrow> route \<Rightarrow> api_state \<Rightarrow> response \<times> api_state" where
  "handle_v1 env (R_ListProxies enabled) s = h_ListProxies enabled s"
| "handle_v1 env (R_CreateProxy b) s = h_CreateProxy env b s"
| "handle_v1 env (R_GetProxy i) s = h_GetProxy i s"
| "handle_v1 env (R_UpdateProxy i b) s = h_UpdateProxy env i b s"
| "handle_v1 env (R_DeleteProxy i) s = h_DeleteProxy env i s"
| "handle_v1 env R_ReloadConfig s = h_ReloadConfig env s"
| "handle_v1 env R_HealthCheck s = h_HealthCheck env s"
| "handle_v1 env R_AuthEnabled s = h_AuthEnabled s"
| "handle_v1 env (R_AuthLogin b) s = h_AuthLogin b s"
| "handle_v1 env (R_Static path) s = h_ServeStatic env path s"

fun public_route :: "route \<Rightarrow> bool" where
  "public_route R_AuthEnabled = True"
| "public_route (R_AuthLogin _) = True"
| "public_route (R_Static _) = True"
| "public_route _ = False"

definition unauthorized :: "auth_error \<Rightarrow> response" where
  "unauthorized e = \<lparr>rs_status = 401, rs_body = ErrorJson ''unauthorized''\<rparr>"

text \<open>\<open>corsMiddleware\<close> answers OPTIONS itself; then come the signature check of the group \<open>/api/v1\<close>
  and the handler.\<close>

definition corsMiddleware :: "http_request \<Rightarrow> (api_state \<Rightarrow> response \<times> api_state) \<Rightarrow> api_state \<Rightarrow> response \<times> api_state" where
  "corsMiddleware req next_handler s =
     (if req_method req = ''OPTIONS'' then reply 204 NoBody s else next_handler s)"

definition serve_rest :: "api_env \<Rightarrow> http_request \<Rightarrow> route \<Rightarrow> api_state \<Rightarrow> response \<times> api_state" where
  "serve_rest env req rt =
     corsMiddleware req (\<lambda>s.
       if public_route rt then handle_v1 env rt s
       else GinAccessAuthMiddleware (auth_of s) (ae_now env) req (handle_v1 env rt) unauthorized s)"

section \<open>Tunnel endpoints\<close>

text \<open>The three WebSocket routes verify the request themselves.\<close>

definition ws_guard ::
  "api_env \<Rightarrow> http_request \<Rightarrow> (api_state \<Rightarrow> 'r \<times> api_state) \<Rightarrow> api_state \<Rightarrow> (response + 'r) \<times> api_state" where
  "ws_guard env req handler s =
     (if req_method req = ''OPTIONS'' then (Inl \<lparr>rs_status = 204, rs_body = NoBody\<rparr>, s)
      else (case VerifyAccessAuth (auth_of s) (ae_now env) req of
              Some e \<Rightarrow> (Inl (unauthorized e), s)
            | None \<Rightarrow> (case handler s of (r, s) \<Rightarrow> (Inr r, s))))"

text \<open>What the ingress does with a tunnel id: answer, forward to the address of an entry (which now
  counts one more connection), or attach to a reverse channel.\<close>

datatype ingress = Answer response | ForwardTo nat string | AttachTo uuid

definition TunnelIngress :: "(string \<Rightarrow> uuid option) \<Rightarrow> string \<Rightarrow> api_state \<Rightarrow> ingress \<times> api_state" where
  "TunnelIngress up param s =
     (let tunnelID = trim_space param
      in if tunnelID = [] then (Answer \<lparr>rs_status = 400, rs_body = ErrorJson ''bad_request''\<rparr>, s)
         else
           (case GetTunnelServer tunnelID (as_pm s) of
              Inr ts \<Rightarrow>
                let pc = ts_cfg (heap (as_pm s) ts)
                in if \<not> pc_Enabled pc then (Answer \<lparr>rs_status = 403, rs_body = ErrorJson ''disabled''\<rparr>, s)
                   else if \<not> IsRunning (heap (as_pm s) ts)
                   then (Answer \<lparr>rs_status = 503, rs_body = ErrorJson ''unavailable''\<rparr>, s)
                   else (ForwardTo ts (pc_RemoteAddress pc), s\<lparr>as_pm := pm_modify ts IncrTunnel (as_pm s)\<rparr>)
            | Inl _ \<Rightarrow>
                (case up tunnelID of
                   None \<Rightarrow> (Answer \<lparr>rs_status = 404, rs_body = ErrorJson ''not_found''\<rparr>, s)
                 | Some chID \<Rightarrow>
                     if chID = uuid_nil \<or> \<not> ChannelActive chID (as_broker s)
                     then (Answer \<lparr>rs_status = 404, rs_body = ErrorJson ''not_found''\<rparr>, s)
                     else (AttachTo chID, s))))"

definition RTunnelConsumer :: "(string \<Rightarrow> uuid option) \<Rightarrow> string \<Rightarrow> api_state \<Rightarrow> ingress \<times> api_state" where
  "RTunnelConsumer up param s =
     (case up (trim_space param) of
        None \<Rightarrow> (Answer \<lparr>rs_status = 400, rs_body = ErrorJson ''bad_request''\<rparr>, s)
      | Some chID \<Rightarrow>
          if \<not> ChannelActive chID (as_broker s)
          then (Answer \<lparr>rs_status = 404, rs_body = ErrorJson ''not_found''\<rparr>, s)
          else (AttachTo chID, s))"

text \<open>\<open>UpgradeConn\<close> (its connection, or \<open>None\<close>) and the start of \<open>AttachConsumer\<close>; \<open>sid\<close> is the
  session's new id.\<close>

definition start_attach :: "uuid \<Rightarrow> uuid \<Rightarrow> nat option \<Rightarrow> broker_world \<Rightarrow> broker_world" where
  "start_attach chID sid conn w =
     (case conn of
        None \<Rightarrow> w
      | Some c \<Rightarrow>
          (case attach_lookup chID c w of
             (None, w) \<Rightarrow> w
           | (Some ch, w) \<Rightarrow>
               w\<lparr>bw_tasks := add_mset (AttachStart ch sid c) (bw_tasks w),
                 bw_owner := (bw_owner w)(sid \<mapsto> (ch, c))\<rparr>))"

fun reg_error_text :: "reg_error \<Rightarrow> string" where
  "reg_error_text BadPort = ''local_port must be 1-65535''"
| "reg_error_text BadChannelID = ''invalid channel_id''"
| "reg_error_text AlreadyActive = ''channel already active''"

definition provider_refusal :: "string \<Rightarrow> string" where
  "provider_refusal e = json_print (JObj [(''error'', JStr e), (''ok'', JBool False)])"

text \<open>The message written to the provider (if any) and the broker afterwards. \<open>first\<close>: the first
  message, \<open>None\<close> if the read failed; \<open>ack_ok\<close>: the confirmation could be written.\<close>

definition RTunnelProvider ::
  "(string \<Rightarrow> uuid option) \<Rightarrow> (uuid \<Rightarrow> string) \<Rightarrow> uuid \<Rightarrow> nat option \<Rightarrow> string option \<Rightarrow> bool
     \<Rightarrow> broker_world \<Rightarrow> string option \<times> broker_world" where
  "RTunnelProvider up us fresh conn first ack_ok w =
     (case conn of
        None \<Rightarrow> (None, w)
      | Some c \<Rightarrow>
          (case first of
             None \<Rightarrow> (None, ws_close c w)
           | Some data \<Rightarrow>
               (case decode_offer data of
                  None \<Rightarrow> (Some (provider_refusal ''invalid offer json''), ws_close c w)
                | Some off \<Rightarrow>
                    (case RegisterProvider up fresh c off w of
                       (Inl e, w) \<Rightarrow> (Some (provider_refusal (reg_error_text e)), ws_close c w)
                     | (Inr (i, ch), w) \<Rightarrow>
                         if ack_ok then
                           (Some (provider_ack us i),
                            (log_traffic (ToAgent ch (Txt (provider_ack us i))) w)
                              \<lparr>bw_tasks := add_mset (Loop ch) (bw_tasks w)\<rparr>)
                         else (None, ws_close c (AbortProviderRegistration i w))))))"

section \<open>Starting the server\<close>

text \<open>\<open>main\<close>: load the configuration, start the enabled proxies, build the handler.\<close>

definition server_main :: "api_env \<Rightarrow> files \<Rightarrow> cfg_error + api_state" where
  "server_main env fs =
     (case NewManager (ae_ym env) (ae_yu env) (ae_os env) ''config.yaml'' fs of
        (Inl e, _) \<Rightarrow> Inl e
      | (Inr m, fs) \<Rightarrow>
          let pm = pm_StartAll (ae_now env) (GetConfig m) NewProxyManager
          in Inr (NewHandler (ae_now env) (m, fs) pm))"

text \<open>Its end: a server that cannot listen or serve exits at once (\<open>log.Fatalf\<close>), a signal stops the
  proxies first.\<close>

datatype server_event = HttpServerFailed | Interrupted

fun server_end :: "server_event \<Rightarrow> api_state \<Rightarrow> api_state" where
  "server_end HttpServerFailed s = s"
| "server_end Interrupted s = s\<lparr>as_pm := pm_StopAll (as_pm s)\<rparr>"

end
