(* ===== verification/ApiProps.thy ===== *)
theory ApiProps
  imports ApiHandler
begin

text \<open>
  The server as a whole: the handlers drive the configuration manager and the proxy manager in step,
  protect what they have to protect, decide where a tunnel goes, and use the broker only through its
  steps. The two managers are driven through the locale \<open>paired_stores\<close>.
\<close>

declare map_of_eq_Some_iff [simp del]

section \<open>The configured proxies as a map\<close>

definition proxy_map :: "ProxyConfig list \<Rightarrow> string \<rightharpoonup> ProxyConfig" where
  "proxy_map ps = map_of (map (\<lambda>p. (pc_ID p, p)) ps)"

abbreviation proxies_of :: "api_state \<Rightarrow> ProxyConfig list" where
  "proxies_of s \<equiv> Proxies (config (fst (as_cfg s)))"

lemma proxy_map_simps [simp]:
  "proxy_map [] = Map.empty" "proxy_map (p # ps) = (proxy_map ps)(pc_ID p \<mapsto> p)"
  by (simp_all add: proxy_map_def)

lemma proxy_map_dom: "proxy_map ps i = None \<longleftrightarrow> i \<notin> pc_ID ` set ps"
  by (induction ps) auto

lemma proxy_map_snoc: "pc_ID p \<notin> pc_ID ` set ps \<Longrightarrow> proxy_map (ps @ [p]) = (proxy_map ps)(pc_ID p \<mapsto> p)"
  by (induction ps) (auto simp: fun_upd_twist)

lemma proxy_map_replace:
  "replace_first i p ps = Some qs \<Longrightarrow> distinct (map pc_ID ps) \<Longrightarrow>
     proxy_map qs = (proxy_map ps)(i \<mapsto> p\<lparr>pc_ID := i\<rparr>)"
  by (induction ps arbitrary: qs) (auto simp: fun_upd_twist split: if_splits)

lemma proxy_map_remove:
  "remove_first i ps = Some qs \<Longrightarrow> distinct (map pc_ID ps) \<Longrightarrow> proxy_map qs = (proxy_map ps)(i := None)"
proof (induction ps arbitrary: qs)
  case (Cons q ps)
  show ?case
  proof (cases "pc_ID q = i")
    case True
    with Cons.prems have "qs = ps" "proxy_map ps i = None" by (auto simp: proxy_map_dom)
    with True show ?thesis by (auto simp: fun_eq_iff)
  next
    case False
    with Cons show ?thesis by (auto simp: fun_upd_twist)
  qed
qed simp

lemma proxy_map_distinct:
  "distinct (map pc_ID ps) \<Longrightarrow> proxy_map ps i = Some p \<longleftrightarrow> p \<in> set ps \<and> pc_ID p = i"
  by (induction ps) (auto simp: image_iff)

lemma proxy_map_rev: "distinct (map pc_ID ps) \<Longrightarrow> proxy_map (rev ps) = proxy_map ps"
proof (rule ext)
  fix i
  assume d: "distinct (map pc_ID ps)"
  then have "distinct (map pc_ID (rev ps))" by (simp add: rev_map [symmetric])
  with d have "proxy_map (rev ps) i = Some p \<longleftrightarrow> proxy_map ps i = Some p" for p
    by (simp add: proxy_map_distinct del: distinct_map)
  then show "proxy_map (rev ps) i = proxy_map ps i" by (metis not_None_eq)
qed

section \<open>What the configuration operations leave in memory\<close>

lemma cfg_AddProxy_list:
  "cfg_AddProxy ym res env p s = (e, s') \<Longrightarrow>
     Proxies (config (fst s')) = Proxies (config (fst s)) @ [p]"
  by (cases s; cases s') (auto simp: cfg_AddProxy_def Let_def dest!: cfg_Save_config)

lemma cfg_UpdateProxy_list:
  "cfg_UpdateProxy ym res env i p s = (None, s') \<Longrightarrow>
     replace_first i p (Proxies (config (fst s))) = Some (Proxies (config (fst s')))"
  by (cases s; cases s') (auto simp: cfg_UpdateProxy_def Let_def dest!: cfg_Save_config split: option.splits)

lemma cfg_RemoveProxy_list:
  "cfg_RemoveProxy ym res env i s = (None, s') \<Longrightarrow>
     remove_first i (Proxies (config (fst s))) = Some (Proxies (config (fst s')))"
  by (cases s; cases s') (auto simp: cfg_RemoveProxy_def Let_def dest!: cfg_Save_config split: option.splits)

lemma cfg_Reload_list:
  "cfg_Reload ym yu env s = (Inr cfg, s') \<Longrightarrow> config (fst s') = cfg"
  by (cases s) (auto simp: cfg_Reload_def notify_reload_def split: prod.splits sum.splits)

section \<open>In step\<close>

definition in_sync :: "api_state \<Rightarrow> bool" where
  "in_sync s \<longleftrightarrow> pm_inv (as_pm s) \<and> distinct (map pc_ID (proxies_of s))
     \<and> abs_pm (as_pm s) = proxy_map (proxies_of s)"

lemma in_syncD:
  assumes "in_sync s"
  shows "pm_inv (as_pm s)" "distinct (map pc_ID (proxies_of s))" "abs_pm (as_pm s) = proxy_map (proxies_of s)"
  using assms by (simp_all add: in_sync_def)

lemma in_syncI:
  "pm_inv (as_pm s) \<Longrightarrow> distinct (map pc_ID (proxies_of s)) \<Longrightarrow> abs_pm (as_pm s) = proxy_map (proxies_of s) \<Longrightarrow>
     in_sync s"
  by (simp add: in_sync_def)

interpretation pr: paired_stores
  cfg_ids "cfg_AddProxy ym res env" "cfg_UpdateProxy ym res env" "cfg_RemoveProxy ym res env"
  pm_ids "pm_AddProxy now" "pm_UpdateProxy now" pm_RemoveProxy
  for ym res env now
  by unfold_locales

lemma in_sync_ids: "in_sync s \<Longrightarrow> set (cfg_ids (as_cfg s)) = set (pm_ids (as_pm s))"
proof -
  assume "in_sync s"
  then have "mget (servers (as_pm s)) i = None \<longleftrightarrow> i \<notin> pc_ID ` set (proxies_of s)" for i
    by (simp add: abs_pm_None [symmetric] in_syncD proxy_map_dom)
  then show ?thesis by (auto simp: cfg_ids_def pm_ids_def mget_None_iff)
qed

text \<open>The proxy manager never refuses what the configuration manager has just accepted.\<close>

lemma update_accepted:
  assumes "in_sync s" "cfg_UpdateProxy ym res env i p (as_cfg s) = (None, c)"
  shows "fst (pm_UpdateProxy now i p (as_pm s)) = None"
proof -
  have "i \<in> set (cfg_ids (as_cfg s))" using cs.upd_ok [OF assms(2)] by simp
  then have "i \<in> set (pm_ids (as_pm s))" using in_sync_ids [OF assms(1)] by simp
  then show ?thesis using pm_UpdateProxy_ids [OF surjective_pairing] by blast
qed

lemma remove_accepted:
  assumes "in_sync s" "cfg_RemoveProxy ym res env i (as_cfg s) = (None, c)"
  shows "fst (pm_RemoveProxy i (as_pm s)) = None"
proof -
  have "distinct (cfg_ids (as_cfg s))" using in_syncD(2) [OF assms(1)] by (simp add: cfg_ids_def)
  then have "i \<in> set (pm_ids (as_pm s))"
    using cs.del_ok [OF _ assms(2)] in_sync_ids [OF assms(1)] by simp
  then show ?thesis by (auto simp: pm_RemoveProxy_def pm_ids_def mget_None_iff split: option.split)
qed

lemma create_in_sync:
  assumes "in_sync s" "cfg_AddProxy ym res env p (as_cfg s) = (None, c)" "pm_AddProxy now p (as_pm s) = (None, pm)"
    and "distinct (cfg_ids c)"
  shows "in_sync (s\<lparr>as_cfg := c, as_pm := pm\<rparr>)"
proof (rule in_syncI)
  have l: "Proxies (config (fst c)) = proxies_of s @ [p]" using cfg_AddProxy_list [OF assms(2)] .
  note r = pm_AddProxy_refines [OF in_syncD(1) [OF assms(1)] assms(3)]
  show "pm_inv (as_pm (s\<lparr>as_cfg := c, as_pm := pm\<rparr>))" using r by simp
  show "distinct (map pc_ID (proxies_of (s\<lparr>as_cfg := c, as_pm := pm\<rparr>)))" using assms(4) by (simp add: cfg_ids_def)
  have "pc_ID p \<notin> pc_ID ` set (proxies_of s)" using assms(4) l by (simp add: cfg_ids_def)
  then show "abs_pm (as_pm (s\<lparr>as_cfg := c, as_pm := pm\<rparr>)) = proxy_map (proxies_of (s\<lparr>as_cfg := c, as_pm := pm\<rparr>))"
    using r in_syncD(3) [OF assms(1)] by (simp add: l proxy_map_snoc)
qed

lemma update_in_sync:
  assumes "in_sync s" "cfg_UpdateProxy ym res env i p (as_cfg s) = (None, c)" "pm_UpdateProxy now i p (as_pm s) = (None, pm)"
    and "pc_ID p = i"
  shows "in_sync (s\<lparr>as_cfg := c, as_pm := pm\<rparr>)"
proof (rule in_syncI)
  have l: "replace_first i p (proxies_of s) = Some (Proxies (config (fst c)))" using cfg_UpdateProxy_list [OF assms(2)] .
  note r = pm_UpdateProxy_refines [OF in_syncD(1) [OF assms(1)] assms(4,3)]
  have "p\<lparr>pc_ID := i\<rparr> = p" using assms(4) by simp
  then show "abs_pm (as_pm (s\<lparr>as_cfg := c, as_pm := pm\<rparr>)) = proxy_map (proxies_of (s\<lparr>as_cfg := c, as_pm := pm\<rparr>))"
    using r in_syncD(2,3) [OF assms(1)] proxy_map_replace [OF l] by (auto split: if_splits)
  show "pm_inv (as_pm (s\<lparr>as_cfg := c, as_pm := pm\<rparr>))" using r by simp
  show "distinct (map pc_ID (proxies_of (s\<lparr>as_cfg := c, as_pm := pm\<rparr>)))"
    using replace_first_Some [OF l] in_syncD(2) [OF assms(1)] by simp
qed

lemma delete_in_sync:
  assumes "in_sync s" "cfg_RemoveProxy ym res env i (as_cfg s) = (None, c)" "pm_RemoveProxy i (as_pm s) = (None, pm)"
  shows "in_sync (s\<lparr>as_cfg := c, as_pm := pm\<rparr>)"
proof (rule in_syncI)
  have l: "remove_first i (proxies_of s) = Some (Proxies (config (fst c)))" using cfg_RemoveProxy_list [OF assms(2)] .
  note r = pm_RemoveProxy_refines [OF in_syncD(1) [OF assms(1)] assms(3)]
  show "abs_pm (as_pm (s\<lparr>as_cfg := c, as_pm := pm\<rparr>)) = proxy_map (proxies_of (s\<lparr>as_cfg := c, as_pm := pm\<rparr>))"
    using r in_syncD(2,3) [OF assms(1)] proxy_map_remove [OF l] by simp
  show "pm_inv (as_pm (s\<lparr>as_cfg := c, as_pm := pm\<rparr>))" using r by simp
  show "distinct (map pc_ID (proxies_of (s\<lparr>as_cfg := c, as_pm := pm\<rparr>)))"
    using remove_first_Some [OF l] in_syncD(2) [OF assms(1)] by (simp add: distinct_remove1)
qed

lemma reload_in_sync:
  assumes "in_sync s" "cfg_Reload ym yu env (as_cfg s) = (Inr cfg, c)" "distinct (cfg_ids c)"
  shows "in_sync (s\<lparr>as_cfg := c, as_pm := SyncWithConfig now cfg (as_pm s)\<rparr>)"
proof (rule in_syncI)
  have l: "config (fst c) = cfg" using cfg_Reload_list [OF assms(2)] .
  note r = SyncWithConfig_refines [OF in_syncD(1) [OF assms(1)], of now cfg]
  have d: "distinct (map pc_ID (Proxies cfg))" using assms(3) l by (simp add: cfg_ids_def)
  have "abs_pm (SyncWithConfig now cfg (as_pm s)) = proxy_map (rev (Proxies cfg))"
    using r(2) by (simp add: proxy_map_def rev_map)
  then show "abs_pm (as_pm (s\<lparr>as_cfg := c, as_pm := SyncWithConfig now cfg (as_pm s)\<rparr>)) =
      proxy_map (proxies_of (s\<lparr>as_cfg := c, as_pm := SyncWithConfig now cfg (as_pm s)\<rparr>))"
    using proxy_map_rev [OF d] by (simp add: l)
qed (use assms(3) SyncWithConfig_refines(1) [OF in_syncD(1) [OF assms(1)]] in \<open>simp_all add: cfg_ids_def\<close>)

section \<open>The requests\<close>

lemma h_CreateProxy_ok:
  assumes "in_sync s" "h_CreateProxy env b s = (resp, s')" "rs_status resp < 400" "distinct (cfg_ids (as_cfg s'))"
  shows "in_sync s'"
proof -
  obtain req where b: "b = Some req" using assms(2,3) by (cases b) (auto simp: h_CreateProxy_def reply_def)
  let ?pc = "proxy_of (ae_newID env) req"
  obtain err c where c: "cfg_AddProxy (ae_ym env) (ae_res env) (ae_os env) ?pc (as_cfg s) = (err, c)" by (meson surj_pair)
  obtain err2 pm where pm: "pm_AddProxy (ae_now env) ?pc (as_pm s) = (err2, pm)" by (meson surj_pair)
  have e: "err = None" "err2 = None" "s' = s\<lparr>as_cfg := c, as_pm := pm\<rparr>"
    using assms(2,3) by (auto simp: h_CreateProxy_def b c pm reply_def Let_def split: option.splits)
  then show ?thesis using create_in_sync [OF assms(1)] c pm assms(4) by simp
qed

lemma h_UpdateProxy_ok:
  assumes "in_sync s" "h_UpdateProxy env i b s = (resp, s')" "rs_status resp < 400"
  shows "in_sync s'"
proof -
  obtain req where b: "b = Some req" using assms(2,3) by (cases b) (auto simp: h_UpdateProxy_def reply_def)
  let ?pc = "proxy_of i req"
  obtain err c where c: "cfg_UpdateProxy (ae_ym env) (ae_res env) (ae_os env) i ?pc (as_cfg s) = (err, c)" by (meson surj_pair)
  obtain err2 pm where pm: "pm_UpdateProxy (ae_now env) i ?pc (as_pm s) = (err2, pm)" by (meson surj_pair)
  have e: "err = None" "err2 = None" "s' = s\<lparr>as_cfg := c, as_pm := pm\<rparr>"
    using assms(2,3) by (auto simp: h_UpdateProxy_def b c pm reply_def Let_def split: option.splits)
  then show ?thesis using update_in_sync [OF assms(1)] c pm by (simp add: proxy_of_def)
qed

lemma h_DeleteProxy_ok:
  assumes "in_sync s" "h_DeleteProxy env i s = (resp, s')" "rs_status resp < 400"
  shows "in_sync s'"
proof -
  obtain err c where c: "cfg_RemoveProxy (ae_ym env) (ae_res env) (ae_os env) i (as_cfg s) = (err, c)" by (meson surj_pair)
  obtain err2 pm where pm: "pm_RemoveProxy i (as_pm s) = (err2, pm)" by (meson surj_pair)
  have e: "err = None" "err2 = None" "s' = s\<lparr>as_cfg := c, as_pm := pm\<rparr>"
    using assms(2,3) by (auto simp: h_DeleteProxy_def c pm reply_def Let_def split: option.splits)
  then show ?thesis using delete_in_sync [OF assms(1)] c pm by simp
qed

lemma h_ReloadConfig_ok:
  assumes "in_sync s" "h_ReloadConfig env s = (resp, s')" "rs_status resp < 400" "distinct (cfg_ids (as_cfg s'))"
  shows "in_sync s'"
proof -
  obtain res c where c: "cfg_Reload (ae_ym env) (ae_yu env) (ae_os env) (as_cfg s) = (res, c)" by (meson surj_pair)
  with assms(2,3) obtain cfg where "res = Inr cfg"
    "s' = s\<lparr>as_cfg := c, as_pm := SyncWithConfig (ae_now env) cfg (as_pm s)\<rparr>"
    by (auto simp: h_ReloadConfig_def reply_def split: sum.splits)
  then show ?thesis using reload_in_sync [OF assms(1)] c assms(4) by simp
qed

lemmas read_only_handlers = h_AuthEnabled_def h_AuthLogin_def h_ListProxies_def h_GetProxy_def
  h_HealthCheck_def h_ServeStatic_def reply_def

lemma handle_v1_in_sync:
  assumes "in_sync s" "handle_v1 env rt s = (resp, s')" "rs_status resp < 400" "distinct (cfg_ids (as_cfg s'))"
  shows "in_sync s'"
proof (cases rt)
  case (R_CreateProxy b)
  with assms show ?thesis using h_CreateProxy_ok by simp
next
  case (R_UpdateProxy i b)
  with assms show ?thesis using h_UpdateProxy_ok by simp
next
  case (R_DeleteProxy i)
  with assms show ?thesis using h_DeleteProxy_ok by simp
next
  case R_ReloadConfig
  with assms show ?thesis using h_ReloadConfig_ok by simp
qed (use assms in \<open>auto simp: read_only_handlers Let_def split: if_splits option.splits sum.splits\<close>)

lemma serve_rest_in_sync:
  assumes "in_sync s" "serve_rest env req rt s = (resp, s')" "rs_status resp < 400" "distinct (cfg_ids (as_cfg s'))"
  shows "in_sync s'"
proof -
  have "s' = s \<or> handle_v1 env rt s = (resp, s')"
    using assms(2) by (auto simp: serve_rest_def corsMiddleware_def GinAccessAuthMiddleware_def reply_def
        split: if_splits option.splits)
  with handle_v1_in_sync [OF assms(1) _ assms(3,4)] assms(1) show ?thesis by auto
qed

section \<open>The tunnels\<close>

lemma counter_in_sync:
  assumes "in_sync s" "\<And>t. ts_cfg (f t) = ts_cfg t" "\<And>t. server_ok (f t) = server_ok t"
  shows "in_sync (s\<lparr>as_pm := pm_modify a f (as_pm s)\<rparr>)"
proof (rule in_syncI)
  have "abs_pm (pm_modify a f (as_pm s)) = abs_pm (as_pm s)"
    by (rule ext) (simp add: abs_pm_def assms(2) split: option.split)
  then show "abs_pm (as_pm (s\<lparr>as_pm := pm_modify a f (as_pm s)\<rparr>)) =
      proxy_map (proxies_of (s\<lparr>as_pm := pm_modify a f (as_pm s)\<rparr>))"
    using in_syncD(3) [OF assms(1)] by simp
  show "pm_inv (as_pm (s\<lparr>as_pm := pm_modify a f (as_pm s)\<rparr>))"
    using pm_modify_count_inv [OF in_syncD(1) [OF assms(1)] assms(3,2)] by simp
qed (use in_syncD(2) [OF assms(1)] in simp)

lemma in_sync_Incr: "in_sync s \<Longrightarrow> in_sync (s\<lparr>as_pm := pm_modify a IncrTunnel (as_pm s)\<rparr>)"
  by (rule counter_in_sync) simp_all

lemma in_sync_Decr: "in_sync s \<Longrightarrow> in_sync (s\<lparr>as_pm := pm_modify a DecrTunnel (as_pm s)\<rparr>)"
  by (rule counter_in_sync) simp_all

lemma in_sync_broker: "in_sync s \<Longrightarrow> in_sync (s\<lparr>as_broker := w\<rparr>)"
  by (simp add: in_sync_def)

lemma TunnelIngress_in_sync: "in_sync s \<Longrightarrow> in_sync (snd (TunnelIngress up p s))"
  by (auto simp: TunnelIngress_def Let_def in_sync_Incr split: sum.split option.split)

section \<open>From the start\<close>

lemma start_all_abs:
  "pm_inv pm \<Longrightarrow> distinct (map pc_ID ps) \<Longrightarrow> (\<And>p. p \<in> set ps \<Longrightarrow> abs_pm pm (pc_ID p) = None) \<Longrightarrow>
     abs_pm (start_all now ps pm) = abs_pm pm ++ proxy_map ps"
proof (induction ps arbitrary: pm)
  case (Cons p ps)
  obtain e pm' where a: "pm_AddProxy now p pm = (e, pm')" by (meson surj_pair)
  note r = pm_AddProxy_refines [OF Cons.prems(1) a]
  have p: "abs_pm pm (pc_ID p) = None" using Cons.prems(3) by simp
  have "abs_pm pm' (pc_ID q) = None" if "q \<in> set ps" for q
    using r p that Cons.prems(2,3) by (auto simp: image_iff)
  with Cons.IH [of pm'] r Cons.prems(2) a
  have "abs_pm (start_all now (p # ps) pm) = abs_pm pm' ++ proxy_map ps" by simp
  moreover have "proxy_map ps (pc_ID p) = None" using Cons.prems(2) by (simp add: proxy_map_dom)
  ultimately show ?case using r p by (auto simp: fun_eq_iff map_add_def split: option.split)
qed (simp add: proxy_map_def)

lemma server_main_in_sync:
  assumes "server_main env fs = Inr s" "distinct (cfg_ids (as_cfg s))"
  shows "in_sync s"
proof -
  obtain m fs' where m: "NewManager (ae_ym env) (ae_yu env) (ae_os env) ''config.yaml'' fs = (Inr m, fs')"
    and s: "s = NewHandler (ae_now env) (m, fs') (pm_StartAll (ae_now env) (GetConfig m) NewProxyManager)"
    using assms(1) by (auto simp: server_main_def Let_def split: prod.splits sum.splits)
  have d: "distinct (map pc_ID (Proxies (config m)))"
    using assms(2) by (simp add: s NewHandler_def cfg_ids_def)
  have "abs_pm NewProxyManager = Map.empty" by (rule ext) (simp add: abs_pm_def NewProxyManager_def)
  then have "abs_pm (start_all (ae_now env) (Proxies (config m)) NewProxyManager) = proxy_map (Proxies (config m))"
    using start_all_abs [OF pm_inv_new d, of "ae_now env"] by simp
  with d start_all_inv [OF pm_inv_new] show ?thesis
    by (simp add: in_sync_def s NewHandler_def pm_StartAll_def GetConfig_def)
qed

text \<open>A server that is interrupted stops every proxy it served; connections that are open go on counting on
  their entries.\<close>

lemma stop_loop_stops:
  "\<not> IsRunning (heap pm a) \<or> a \<in> snd ` set l \<Longrightarrow> \<not> IsRunning (heap (stop_loop (\<lambda>_. True) l pm) a)"
proof (induction l arbitrary: pm)
  case (Cons x l)
  obtain i b where x: "x = (i, b)" by (cases x)
  have "\<not> IsRunning (heap (pm_modify b ts_Stop pm) a)" if "\<not> IsRunning (heap pm a) \<or> a = b"
    using that by (auto simp: pm_modify_def IsRunning_def ts_Stop_def)
  with Cons x show ?case by auto
qed simp

lemma interrupted_stops_proxies:
  assumes "pm_inv (as_pm s)" "s' = server_end Interrupted s"
  shows "GetStatus i (as_pm s') = Inl (NotFound i)" "mget (servers (as_pm s)) i = Some a \<Longrightarrow> \<not> IsRunning (heap (as_pm s') a)"
    "activeTunnels (heap (as_pm s') a) = activeTunnels (heap (as_pm s) a) \<or> nxt (as_pm s) \<le> a" "as_cfg s' = as_cfg s"
proof -
  have s': "as_pm s' = stop_loop (\<lambda>_. True) (servers (as_pm s)) (as_pm s)" "as_cfg s' = as_cfg s"
    using assms(2) by (simp_all add: pm_StopAll_def)
  then show "as_cfg s' = as_cfg s" by simp
  have "abs_pm (as_pm s') i = None" using stop_loop_all [OF assms(1), of "\<lambda>_. True"] s' by simp
  then show "GetStatus i (as_pm s') = Inl (NotFound i)" by (simp add: abs_pm_None GetStatus_def)
  show "mget (servers (as_pm s)) i = Some a \<Longrightarrow> \<not> IsRunning (heap (as_pm s') a)"
    unfolding s' by (rule stop_loop_stops) (force dest: mget_SomeD)
  show "activeTunnels (heap (as_pm s') a) = activeTunnels (heap (as_pm s) a) \<or> nxt (as_pm s) \<le> a"
    using keeps_counts_stop_loop [of "as_pm s" "\<lambda>_. True" "servers (as_pm s)"] unfolding s' keeps_counts_def by auto
qed

text \<open>Requests that succeed, tunnels that open and close, and the broker's work, from the start of
  the server, as long as the configuration has no duplicate id.\<close>

definition api_init :: "api_state \<Rightarrow> bool" where
  "api_init s \<longleftrightarrow> (\<exists>env fs. server_main env fs = Inr s) \<and> distinct (cfg_ids (as_cfg s))"

inductive api_step :: "api_state \<Rightarrow> api_state \<Rightarrow> bool" where
  rest: "serve_rest env req rt s = (resp, s') \<Longrightarrow> rs_status resp < 400 \<Longrightarrow> distinct (cfg_ids (as_cfg s')) \<Longrightarrow>
    api_step s s'"
| opened: "TunnelIngress up p s = (res, s') \<Longrightarrow> api_step s s'"
| closed: "api_step s (s\<lparr>as_pm := pm_modify a DecrTunnel (as_pm s)\<rparr>)"
| broker: "api_step s (s\<lparr>as_broker := w\<rparr>)"

abbreviation api_reachable :: "api_state \<Rightarrow> bool" where
  "api_reachable \<equiv> reachable_from api_init api_step"

lemma api_step_in_sync: "api_step s s' \<Longrightarrow> in_sync s \<Longrightarrow> in_sync s'"
proof (induction rule: api_step.induct)
  case (opened up p s res s')
  then show ?case using TunnelIngress_in_sync [of s up p] by simp
qed (auto intro: serve_rest_in_sync in_sync_Decr in_sync_broker)

interpretation api: invariant_system api_init api_step in_sync
  by unfold_locales (auto simp: api_init_def intro: server_main_in_sync api_step_in_sync)

section \<open>What the requests rest on\<close>

lemma in_sync_status:
  assumes "in_sync s"
  shows "GetStatus i (as_pm s) =
    (case proxy_map (proxies_of s) i of
       None \<Rightarrow> Inl (NotFound i)
     | Some p \<Rightarrow> Inr (StatusInfo (heap (as_pm s) (the (mget (servers (as_pm s)) i)))))"
proof -
  have e: "proxy_map (proxies_of s) i = abs_pm (as_pm s) i" using in_syncD(3) [OF assms] by simp
  show ?thesis by (simp add: e GetStatus_def abs_pm_def split: option.split)
qed

lemma in_sync_entry:
  assumes "in_sync s" "proxy_map (proxies_of s) i = Some p"
  obtains a where "mget (servers (as_pm s)) i = Some a" "ts_cfg (heap (as_pm s) a) = p" "server_ok (heap (as_pm s) a)"
    "pc_ID p = i"
  using in_syncD(3) [OF assms(1), THEN fun_cong, of i] assms(2) pm_invD [OF in_syncD(1) [OF assms(1)], of i]
  by (auto simp: abs_pm_def split: option.splits)

lemma in_sync_no_entry:
  "in_sync s \<Longrightarrow> proxy_map (proxies_of s) i = None \<Longrightarrow> mget (servers (as_pm s)) i = None"
  by (simp add: in_syncD abs_pm_None [symmetric])

text \<open>A save whose file cannot be written keeps the configuration that is in memory.\<close>

lemma cfg_Save_unwritten:
  assumes "write_result os = WriteFails part" "cfg_Save ym res os cfg (m, fs) = (e, s')"
  shows "e \<noteq> None \<and> fst s' = m"
  using assms(2) by (rule cfg_Save_cases) (use assms in \<open>auto simp: cfg_Save_def os_WriteFile_def split: option.splits\<close>)

text \<open>The rule of the access control, spelled out.\<close>

definition well_signed :: "AccessAuth \<Rightarrow> int \<Rightarrow> http_request \<Rightarrow> bool" where
  "well_signed a now r \<longleftrightarrow>
     req_ak r \<in> set (UnifiedTokens a)
     \<and> (case parse_int (req_ts r) of None \<Rightarrow> False | Some sec \<Rightarrow> \<bar>sec - now\<bar> \<le> 300)
     \<and> canon_sig (req_sig r) = key_signature (req_ak r) (req_ts r)"

lemma VerifyAccessAuth_well_signed:
  "AuthEnabled a \<Longrightarrow> req_method r \<noteq> ''OPTIONS'' \<Longrightarrow> sane_clock now \<Longrightarrow>
     VerifyAccessAuth a now r = None \<longleftrightarrow> well_signed a now r"
  by (auto simp: VerifyAccessAuth_iff well_signed_def split: option.splits)

section \<open>The broker behind the handlers\<close>

lemma provider_ends_refused:
  assumes "broker_reachable up us w"
  shows "broker_reachable up us (ws_close c w)"
proof -
  have "RegisterProvider up uuid_nil c \<lparr>LocalHost = [], LocalPort = 0, ChannelID = []\<rparr> w = (Inl BadPort, w)"
    by (simp add: RegisterProvider_def)
  from run_step [OF assms broker_step.register_refused [OF this] refl] show ?thesis .
qed

lemma provider_fails_ack:
  assumes "broker_reachable up us w" "RegisterProvider up fresh c off w = (Inr (i, ch), w')"
  shows "broker_reachable up us (ws_close c (AbortProviderRegistration i w'))"
proof -
  have r: "co_id (bw_chan w' ch) = i" "bw_tasks w' = bw_tasks w" "agent (bw_chan w' ch) = c"
      "mget (bw_channels w') i = Some ch"
    using assms(2) by (auto simp: RegisterProvider_def Let_def split: if_splits option.splits)
  let ?w = "set_tasks (add_mset (Registered ch) (bw_tasks w)) w'"
  have "broker_reachable up us ?w" using run_step [OF assms(1) broker_step.register [OF assms(2)] refl] .
  moreover have "broker_step up us ?w (set_tasks (bw_tasks w) (AbortProviderRegistration (co_id (bw_chan ?w ch)) ?w))"
    by (rule broker_step.ack_failed) simp
  moreover have "set_tasks (bw_tasks w) (AbortProviderRegistration (co_id (bw_chan ?w ch)) ?w) =
      ws_close c (AbortProviderRegistration i w')"
    using r by (simp add: AbortProviderRegistration_def ws_close_def)
  ultimately show ?thesis by (rule run_step)
qed

lemma provider_acked:
  assumes "broker_reachable up us w" "RegisterProvider up fresh c off w = (Inr (i, ch), w')" "c \<notin> bw_closed w"
  shows "broker_reachable up us ((log_traffic (ToAgent ch (Txt (provider_ack us i))) w')
    \<lparr>bw_tasks := add_mset (Loop ch) (bw_tasks w')\<rparr>)"
proof -
  have r: "co_id (bw_chan w' ch) = i" "bw_tasks w' = bw_tasks w" "agent (bw_chan w' ch) = c" "bw_closed w' = bw_closed w"
    using assms(2) by (auto simp: RegisterProvider_def Let_def split: if_splits option.splits)
  let ?w = "set_tasks (add_mset (Registered ch) (bw_tasks w)) w'"
  have "broker_reachable up us ?w" using run_step [OF assms(1) broker_step.register [OF assms(2)] refl] .
  moreover have "broker_step up us ?w (set_tasks (add_mset (Loop ch) (bw_tasks w))
      (log_traffic (ToAgent ch (Txt (provider_ack us (co_id (bw_chan ?w ch))))) ?w))"
    by (rule broker_step.ack_sent) (use r assms(3) in simp_all)
  ultimately show ?thesis by (rule run_step) (simp add: r log_traffic_def)
qed

lemma RegisterProvider_refused:
  "RegisterProvider up fresh c off w = (Inl e, w') \<Longrightarrow> w' = w"
  by (auto simp: RegisterProvider_def Let_def split: if_splits option.splits)

lemma RTunnelProvider_reachable:
  assumes "broker_reachable up us w" "c \<notin> bw_closed w"
  shows "broker_reachable up us (snd (RTunnelProvider up us fresh (Some c) first ack_ok w))"
proof (cases first)
  case None
  with assms(1) show ?thesis by (simp add: RTunnelProvider_def provider_ends_refused)
next
  case first: (Some data)
  show ?thesis
  proof (cases "decode_offer data")
    case None
    with first assms(1) show ?thesis by (simp add: RTunnelProvider_def provider_ends_refused)
  next
    case off: (Some off)
    obtain r w' where r: "RegisterProvider up fresh c off w = (r, w')" by (meson surj_pair)
    show ?thesis
    proof (cases r)
      case (Inl e)
      with r have "w' = w" using RegisterProvider_refused by simp
      with Inl r first off assms(1) show ?thesis by (simp add: RTunnelProvider_def provider_ends_refused)
    next
      case (Inr x)
      obtain i ch where "x = (i, ch)" by (meson surj_pair)
      with Inr r have x: "RegisterProvider up fresh c off w = (Inr (i, ch), w')" by simp
      show ?thesis
        using provider_fails_ack [OF assms(1) x] provider_acked [OF assms(1) x assms(2)]
        by (simp add: RTunnelProvider_def first off x)
    qed
  qed
qed

lemma start_attach_reachable:
  assumes "broker_reachable up us w" "bw_owner w sid = None"
  shows "broker_reachable up us (start_attach chID sid (Some c) w)"
proof (cases "attach_lookup chID c w")
  case (Pair found w')
  show ?thesis
  proof (cases found)
    case None
    with Pair have x: "attach_lookup chID c w = (None, w')" by simp
    show ?thesis using run_step [OF assms(1) broker_step.attach_none [OF x] refl] by (simp add: start_attach_def x)
  next
    case (Some ch)
    with Pair have x: "attach_lookup chID c w = (Some ch, w)" by (auto simp: attach_lookup_def split: option.splits)
    show ?thesis
      using run_step [OF assms(1) broker_step.attach [OF x assms(2)] refl] by (simp add: start_attach_def x)
  qed
qed

text \<open>What the provider is told, and what the broker then holds.\<close>

lemma mget_abort:
  "RegisterProvider up fresh c off w = (Inr (i, ch), w') \<Longrightarrow>
     mget (bw_channels (AbortProviderRegistration i w')) j = mget (bw_channels w) j"
  by (auto simp: RegisterProvider_def AbortProviderRegistration_def ws_close_def Let_def split: if_splits option.splits)

lemma RTunnelProvider_answer:
  assumes "RTunnelProvider up us fresh (Some c) first ack_ok w = (msg, w')"
  shows "(\<exists>i ch. msg = Some (provider_ack us i) \<and> mget (bw_channels w') i = Some ch \<and> Loop ch \<in># bw_tasks w'
          \<and> agent (bw_chan w' ch) = c)
       \<or> (msg = None \<or> (\<exists>e. msg = Some (provider_refusal e))) \<and> c \<in> bw_closed w'
          \<and> (\<forall>i. mget (bw_channels w') i = mget (bw_channels w) i)"
proof (cases "\<exists>data off. first = Some data \<and> decode_offer data = Some off")
  case False
  with assms show ?thesis by (auto simp: RTunnelProvider_def ws_close_def split: option.splits)
next
  case True
  then obtain data off where f: "first = Some data" "decode_offer data = Some off" by blast
  obtain r w1 where r: "RegisterProvider up fresh c off w = (r, w1)" by (meson surj_pair)
  show ?thesis
  proof (cases r)
    case (Inl e)
    with r have "w1 = w" using RegisterProvider_refused by simp
    with assms f r Inl show ?thesis by (auto simp: RTunnelProvider_def ws_close_def)
  next
    case (Inr x)
    obtain i ch where "x = (i, ch)" by (meson surj_pair)
    with Inr r have x: "RegisterProvider up fresh c off w = (Inr (i, ch), w1)" by simp
    then have "mget (bw_channels w1) i = Some ch" "agent (bw_chan w1 ch) = c"
      by (auto simp: RegisterProvider_def Let_def split: if_splits option.splits)
    with assms f x mget_abort [OF x] show ?thesis
      by (auto simp: RTunnelProvider_def ws_close_def log_traffic_def split: if_splits)
  qed
qed

end
