(* ===== verification/ApiClaims.thy ===== *)
theory ApiClaims
  imports ApiProps
begin

text \<open>
  What the server as a whole promises: the properties of the handlers, each with a run of a server that
  is started on a file with one proxy.
\<close>

section \<open>A server\<close>

definition api_demo_env :: "write_outcome \<Rightarrow> api_env" where
  "api_demo_env out = \<lparr>ae_ym = (\<lambda>_. Some ''yaml''), ae_yu = (\<lambda>_. Some demo_file), ae_res = (\<lambda>_. True),
     ae_os = \<lparr>read_ok = True, write_result = out, rename_ok = True, remove_ok = True\<rparr>, ae_now = 5,
     ae_newID = ''n'', ae_dist = Dir []\<rparr>"

definition demo_api :: api_state where
  "demo_api = NewHandler 5
     (\<lparr>filePath = ''config.yaml'', config = demo_file, callback_set = False, reload_log = []\<rparr>, [''config.yaml'' \<mapsto> ''yaml''])
     demo_pm"

lemma demo_api_sel [simp]:
  "as_pm demo_api = demo_pm" "config (fst (as_cfg demo_api)) = demo_file" "as_broker demo_api = NewBroker"
  "GetConfig (fst (as_cfg demo_api)) = demo_file" "Proxies demo_file = [demo_proxy]" "pc_ID demo_proxy = ''a''"
  by (simp_all add: demo_api_def NewHandler_def GetConfig_def demo_file_def demo_proxy_def)

lemma api_demo_env_now [simp]: "ae_now (api_demo_env out) = 5"
  by (simp add: api_demo_env_def)

lemma demo_api_reachable: "api_reachable demo_api"
proof (rule reachable_from.start)
  have "server_main (api_demo_env WriteOK) [''config.yaml'' \<mapsto> ''yaml''] = Inr demo_api"
    by (simp add: server_main_def NewManager_def cfg_load_def api_demo_env_def apply_defaults_def demo_api_def GetConfig_def
        pm_StartAll_def demo_pm_def Let_def demo_file_def split: prod.split)
  then show "api_init demo_api" by (auto simp: api_init_def cfg_ids_def)
qed

lemma demo_status: "GetStatus ''a'' demo_pm = Inr (StatusInfo (started 5 demo_proxy))"
  by (simp add: GetStatus_def demo_servers demo_entry)

section \<open>Properties\<close>



text \<open>A server with one key, and a request without a signature.\<close>

definition locked_api :: api_state where
  "locked_api = demo_api\<lparr>as_cfg := (\<lparr>filePath = ''config.yaml'',
     config = demo_file\<lparr>Server := \<lparr>Port = 8080, StaticDir = ''web'', Auth = \<lparr>APIKey = ''k''\<rparr>\<rparr>\<rparr>,
     callback_set = False, reload_log = []\<rparr>, Map.empty)\<rparr>"

definition unsigned_delete :: http_request where
  "unsigned_delete = \<lparr>req_method = ''DELETE'', header = (\<lambda>_. []), query = (\<lambda>_. [])\<rparr>"

lemma locked_auth:
  "AuthEnabled (auth_of locked_api)" "\<not> well_signed (auth_of locked_api) 5 unsigned_delete" "sane_clock 5"
  "req_method unsigned_delete = ''DELETE''"
proof -
  have a: "auth_of locked_api = \<lparr>APIKey = ''k''\<rparr>" by (simp add: locked_api_def GetConfig_def)
  have t: "UnifiedTokens \<lparr>APIKey = ''k''\<rparr> = [''k'']"
    using parse_join_keys [of "[''k'']"] by (simp add: UnifiedTokens_def plain_key_def space_heads_code space_lasts_code)
  have "trim_space [] = []" by (simp add: trim_space_plain)
  then have "req_ak unsigned_delete = []" by (simp add: req_ak_def unsigned_delete_def Let_def)
  then show "\<not> well_signed (auth_of locked_api) 5 unsigned_delete" by (simp add: well_signed_def a t)
  show "AuthEnabled (auth_of locked_api)" by (simp add: a AuthEnabled_def t)
  show "sane_clock 5" by (simp add: sane_clock_def)
  show "req_method unsigned_delete = ''DELETE''" by (simp add: unsigned_delete_def)
qed

text \<open>C15: With authentication enabled, what is under \<open>/api/v1\<close> except the two login endpoints, and the
  three WebSocket routes, are reached exactly by the requests signed with a configured key at the time;
  any other request is answered 401 and changes nothing.\<close>

theorem protected_routes_need_signature:
  assumes "AuthEnabled (auth_of s)" "sane_clock (ae_now env)" "req_method req \<noteq> ''OPTIONS''" "\<not> public_route rt"
  shows "serve_rest env req rt s =
      (if well_signed (auth_of s) (ae_now env) req then handle_v1 env rt s
       else (\<lparr>rs_status = 401, rs_body = ErrorJson ''unauthorized''\<rparr>, s))
    \<and> ws_guard env req tunnel s =
      (if well_signed (auth_of s) (ae_now env) req then (Inr (fst (tunnel s)), snd (tunnel s))
       else (Inl \<lparr>rs_status = 401, rs_body = ErrorJson ''unauthorized''\<rparr>, s))"
proof (cases "VerifyAccessAuth (auth_of s) (ae_now env) req")
  case None
  then have "well_signed (auth_of s) (ae_now env) req" using VerifyAccessAuth_well_signed [OF assms(1,3,2)] by simp
  with None assms(3,4) show ?thesis
    by (simp add: serve_rest_def corsMiddleware_def GinAccessAuthMiddleware_def ws_guard_def case_prod_unfold)
next
  case (Some e)
  then have "\<not> well_signed (auth_of s) (ae_now env) req" using VerifyAccessAuth_well_signed [OF assms(1,3,2)] by simp
  with Some assms(3,4) show ?thesis
    by (simp add: serve_rest_def corsMiddleware_def GinAccessAuthMiddleware_def ws_guard_def unauthorized_def)
qed

text \<open>A server with a key, asked to delete a proxy without a signature.\<close>

theorem protected_routes_need_signature_witness:
  "serve_rest (api_demo_env WriteOK) unsigned_delete (R_DeleteProxy ''a'') locked_api =
     (\<lparr>rs_status = 401, rs_body = ErrorJson ''unauthorized''\<rparr>, locked_api)"
  using protected_routes_need_signature [of locked_api "api_demo_env WriteOK" unsigned_delete "R_DeleteProxy ''a''"
      "\<lambda>s. ((), s)"]
  by (simp add: locked_auth)

lemma ingress_by_config:
  assumes "api_reachable s"
  shows "fst (TunnelIngress up param s) =
    (let i = trim_space param; answer = (\<lambda>code text. Answer \<lparr>rs_status = code, rs_body = ErrorJson text\<rparr>)
     in if i = [] then answer 400 ''bad_request''
        else (case proxy_map (Proxies (GetConfig (fst (as_cfg s)))) i of
                Some pc \<Rightarrow>
                  if pc_Enabled pc then ForwardTo (the (mget (servers (as_pm s)) i)) (pc_RemoteAddress pc)
                  else answer 403 ''disabled''
              | None \<Rightarrow>
                  (case up i of
                     None \<Rightarrow> answer 404 ''not_found''
                   | Some u \<Rightarrow> if u \<noteq> uuid_nil \<and> ChannelActive u (as_broker s) then AttachTo u
                       else answer 404 ''not_found'')))"
proof -
  note sync = api.reachable_inv [OF assms]
  let ?i = "trim_space param"
  show ?thesis
  proof (cases "proxy_map (proxies_of s) ?i")
    case None
    then have "mget (servers (as_pm s)) ?i = None" by (rule in_sync_no_entry [OF sync])
    with None show ?thesis
      by (auto simp: TunnelIngress_def GetTunnelServer_def GetConfig_def Let_def split: option.split)
  next
    case (Some p)
    then obtain a where a: "mget (servers (as_pm s)) ?i = Some a" "ts_cfg (heap (as_pm s) a) = p"
      "server_ok (heap (as_pm s) a)"
      using in_sync_entry [OF sync] by metis
    then have "IsRunning (heap (as_pm s) a) \<longleftrightarrow> pc_Enabled p" by (auto simp: IsRunning_def server_ok_def)
    with a Some show ?thesis
      by (simp add: TunnelIngress_def GetTunnelServer_def GetConfig_def Let_def)
  qed
qed



text \<open>C37: A change whose file cannot be written is refused, but stays in the configuration in memory,
  which is what the next successful save writes, while the served proxies stay as they were. In
  particular a delete that could not be saved is answered 404 as if the proxy did not exist: it is gone
  from the configuration, and still served.\<close>

theorem unsaved_change_splits_state:
  assumes "api_reachable s" "write_result (ae_os env) = WriteFails part" "i \<in> pc_ID ` set (proxies_of s)"
  shows "(case h_CreateProxy env (Some req) s of (resp, s') \<Rightarrow>
        rs_status resp = 500 \<and> proxies_of s' = proxies_of s @ [proxy_of (ae_newID env) req] \<and> as_pm s' = as_pm s)
    \<and> (case h_UpdateProxy env i (Some req) s of (resp, s') \<Rightarrow>
        rs_status resp = 500 \<and> proxy_map (proxies_of s') = (proxy_map (proxies_of s))(i \<mapsto> proxy_of i req)
        \<and> as_pm s' = as_pm s)
    \<and> (case h_DeleteProxy env i s of (resp, s') \<Rightarrow>
        rs_status resp = 404 \<and> proxy_map (proxies_of s') = (proxy_map (proxies_of s))(i := None)
        \<and> as_pm s' = as_pm s \<and> (\<exists>st. GetStatus i (as_pm s') = Inr st))"
proof (intro conjI)
  note sync = api.reachable_inv [OF assms(1)]
  note d = in_syncD(2) [OF sync]
  obtain m fs where s: "as_cfg s = (m, fs)" by (meson surj_pair)
  obtain p where p: "proxy_map (proxies_of s) i = Some p"
    using assms(3) proxy_map_dom [of "proxies_of s" i] by auto
  note save = cfg_Save_unwritten [OF assms(2), OF surjective_pairing]
  { let ?c = "cfg_AddProxy (ae_ym env) (ae_res env) (ae_os env) (proxy_of (ae_newID env) req) (as_cfg s)"
    have "fst ?c \<noteq> None" "Proxies (config (fst (snd ?c))) = proxies_of s @ [proxy_of (ae_newID env) req]"
      using save by (simp_all add: cfg_AddProxy_def s Let_def)
    then show "case h_CreateProxy env (Some req) s of (resp, s') \<Rightarrow>
        rs_status resp = 500 \<and> proxies_of s' = proxies_of s @ [proxy_of (ae_newID env) req] \<and> as_pm s' = as_pm s"
      by (cases ?c) (auto simp: h_CreateProxy_def reply_def Let_def) }
  { let ?c = "cfg_UpdateProxy (ae_ym env) (ae_res env) (ae_os env) i (proxy_of i req) (as_cfg s)"
    obtain qs where q: "replace_first i (proxy_of i req) (proxies_of s) = Some qs"
      using assms(3) replace_first_None by fastforce
    then have "fst ?c \<noteq> None" "Proxies (config (fst (snd ?c))) = qs"
      using save by (simp_all add: cfg_UpdateProxy_def s Let_def)
    moreover have "proxy_map qs = (proxy_map (proxies_of s))(i \<mapsto> proxy_of i req)"
      using proxy_map_replace [OF q d] by (simp add: proxy_of_def)
    ultimately show "case h_UpdateProxy env i (Some req) s of (resp, s') \<Rightarrow>
        rs_status resp = 500 \<and> proxy_map (proxies_of s') = (proxy_map (proxies_of s))(i \<mapsto> proxy_of i req)
        \<and> as_pm s' = as_pm s"
      by (cases ?c) (auto simp: h_UpdateProxy_def reply_def Let_def) }
  { let ?c = "cfg_RemoveProxy (ae_ym env) (ae_res env) (ae_os env) i (as_cfg s)"
    obtain qs where q: "remove_first i (proxies_of s) = Some qs"
      using assms(3) remove_first_None by fastforce
    then have "fst ?c \<noteq> None" "Proxies (config (fst (snd ?c))) = qs"
      using save by (simp_all add: cfg_RemoveProxy_def s Let_def)
    moreover have "proxy_map qs = (proxy_map (proxies_of s))(i := None)" by (rule proxy_map_remove [OF q d])
    moreover have "\<exists>st. GetStatus i (as_pm s) = Inr st" using in_sync_status [OF sync, of i] p by simp
    ultimately show "case h_DeleteProxy env i s of (resp, s') \<Rightarrow>
        rs_status resp = 404 \<and> proxy_map (proxies_of s') = (proxy_map (proxies_of s))(i := None)
        \<and> as_pm s' = as_pm s \<and> (\<exists>st. GetStatus i (as_pm s') = Inr st)"
      by (cases ?c) (auto simp: h_DeleteProxy_def reply_def Let_def) }
qed

theorem unsaved_change_splits_state_witness:
  "(case h_DeleteProxy (api_demo_env (WriteFails None)) ''a'' demo_api of (resp, s') \<Rightarrow>
     rs_status resp = 404 \<and> proxy_map (proxies_of s') ''a'' = None \<and> (\<exists>st. GetStatus ''a'' (as_pm s') = Inr st))"
  using unsaved_change_splits_state [OF demo_api_reachable, of "api_demo_env (WriteFails None)" None "''a''"
      "\<lparr>cq_Name = [], cq_RemoteAddress = [], cq_Enabled = True\<rparr>"]
  by (auto simp: api_demo_env_def split: prod.splits)

text \<open>An id that is not configured: reading and deleting it is not found, updating it is an internal
  error, and none of them changes anything.\<close>

lemma unknown_proxy:
  assumes "api_reachable s" "i \<notin> pc_ID ` set (proxies_of s)"
  shows "h_GetProxy i s = (\<lparr>rs_status = 404, rs_body = ErrorJson ''not_found''\<rparr>, s)"
    "h_DeleteProxy env i s = (\<lparr>rs_status = 404, rs_body = ErrorJson ''not_found''\<rparr>, s)"
    "h_UpdateProxy env i (Some req) s = (\<lparr>rs_status = 500, rs_body = ErrorJson ''config_update_failed''\<rparr>, s)"
proof -
  obtain m fs where s: "as_cfg s = (m, fs)" by (meson surj_pair)
  have "proxy_map (proxies_of s) i = None" using assms(2) by (simp add: proxy_map_dom)
  then show "h_GetProxy i s = (\<lparr>rs_status = 404, rs_body = ErrorJson ''not_found''\<rparr>, s)"
    using in_sync_status [OF api.reachable_inv [OF assms(1)], of i] by (simp add: h_GetProxy_def reply_def)
  have r: "remove_first i (Proxies (config m)) = None" "replace_first i (proxy_of i req) (Proxies (config m)) = None"
    using assms(2) by (simp_all add: remove_first_None replace_first_None s)
  have same: "s\<lparr>as_cfg := (m, fs)\<rparr> = s" by (simp add: s [symmetric])
  show "h_DeleteProxy env i s = (\<lparr>rs_status = 404, rs_body = ErrorJson ''not_found''\<rparr>, s)"
    by (simp add: h_DeleteProxy_def cfg_RemoveProxy_def s r same reply_def)
  show "h_UpdateProxy env i (Some req) s = (\<lparr>rs_status = 500, rs_body = ErrorJson ''config_update_failed''\<rparr>, s)"
    by (simp add: h_UpdateProxy_def cfg_UpdateProxy_def s r same reply_def)
qed

text \<open>C19: The handlers use the broker as its steps say. Run on a broker in a reachable state, the
  provider endpoint, however its connection behaves, and the start of an attachment leave it in a
  reachable state, so everything that is proved of the broker's runs holds behind the handlers; and a
  provider is sent the confirmation exactly when its channel is registered and its read loop runs,
  otherwise its connection is closed and the set of channels is as before.\<close>

theorem handlers_follow_broker:
  assumes "broker_reachable up us w" "c \<notin> bw_closed w" "bw_owner w sid = None"
    and "RTunnelProvider up us fresh (Some c) first ack_ok w = (msg, w')"
  shows "broker_reachable up us w' \<and> broker_reachable up us (start_attach chID sid (Some c) w)
    \<and> ((\<exists>i ch. msg = Some (provider_ack us i) \<and> mget (bw_channels w') i = Some ch \<and> Loop ch \<in># bw_tasks w'
          \<and> agent (bw_chan w' ch) = c)
       \<or> (msg = None \<or> (\<exists>e. msg = Some (provider_refusal e))) \<and> c \<in> bw_closed w'
          \<and> (\<forall>i. mget (bw_channels w') i = mget (bw_channels w) i))"
proof (intro conjI)
  show "broker_reachable up us w'" using RTunnelProvider_reachable [OF assms(1,2), of fresh first ack_ok] assms(4) by simp
  show "broker_reachable up us (start_attach chID sid (Some c) w)" by (rule start_attach_reachable [OF assms(1,3)])
qed (rule RTunnelProvider_answer [OF assms(4)])

theorem handlers_follow_broker_witness:
  "broker_reachable demo_up demo_us (snd (RTunnelProvider demo_up demo_us uuid_nil (Some 7) None True NewBroker))"
  using handlers_follow_broker [OF run_start, of 7 uuid_nil demo_up demo_us uuid_nil None True,
      OF _ _ surjective_pairing] by (simp add: NewBroker_sel)

end
