(* ===== verification/ReverseRun.thy ===== *)
theory ReverseRun
  imports ReverseProvider WsBridge Dial
begin

text \<open>
  The two ends of a reverse tunnel run from the command line, \<open>RunReverseProvider\<close> and
  \<open>RunReverseConsumer\<close> of \<open>internal/clienttunnel/reverse.go\<close>, and the bridge of one connection of the
  consumer. Dials, listening and the events of the loops are arguments as in the parts they are built of.
\<close>

text \<open>The channel id and the state the message loop ends in, or why the handshake failed.\<close>

definition RunReverseProvider ::
  "(string \<Rightarrow> uuid option) \<Rightarrow> bool \<Rightarrow> bool \<Rightarrow> string option \<Rightarrow> string \<Rightarrow> int \<Rightarrow> rp_event list
     \<Rightarrow> handshake_error + string \<times> rprovider" where
  "RunReverseProvider up dialled write_ok reply localHost localPort es =
     (case HandshakeReverseProvider dialled write_ok reply localHost localPort [] of
        (Inl e, _) \<Rightarrow> Inl e
      | (Inr cid, _) \<Rightarrow> Inr (cid, ServeReverseProvider up es rp_init))"

text \<open>\<open>conn i\<close> is the connection of dial \<open>i\<close>; the end of the run, \<open>None\<close> when the dial failed.\<close>

definition reverseConsumerBridgeTCP ::
  "(string \<Rightarrow> url option) \<Rightarrow> (url \<Rightarrow> nat \<Rightarrow> dial_outcome) \<Rightarrow> int \<Rightarrow> (nat \<Rightarrow> wsConnWrapper)
     \<Rightarrow> (nat \<Rightarrow> 's \<Rightarrow> read_result \<times> 's) \<Rightarrow> 's \<Rightarrow> nat \<Rightarrow> (bool, bool) duplex_event list
     \<Rightarrow> string \<Rightarrow> string \<Rightarrow> string \<Rightarrow> 's pairing option" where
  "reverseConsumerBridgeTCP url_Parse dial nowUnix conn local_read local_src n es serverURL sessionPath apiKey =
     (case DialWebSocketPath url_Parse dial nowUnix serverURL sessionPath apiKey of
        (Inl _, _) \<Rightarrow> None
      | (Inr i, _) \<Rightarrow>
          (let remote = conn i
           in Some (duplex_run (copy_step local_read n) (copy_step wsConnWrapper_Read n) es
                (duplex_init (local_src, ws_out remote) (remote, [])))))"

text \<open>The path it dials for its connections, and how its accept loop ends; \<open>None\<close> while it runs.\<close>

definition RunReverseConsumer ::
  "(string \<Rightarrow> string option) \<Rightarrow> string \<Rightarrow> string \<Rightarrow> rc_event list \<Rightarrow> string + string \<times> rconsumer" where
  "RunReverseConsumer listen_err listenAddr channelID es =
     (let path = reverseSessionPath channelID
      in case listen_err listenAddr of
           Some e \<Rightarrow> Inl e
         | None \<Rightarrow> Inr (path, ServeReverseConsumer es \<lparr>rc_active = 0, rc_result = None\<rparr>))"

text \<open>The two modes of \<open>cmd/client/main.go\<close>; an error of the consumer ends the program.\<close>

definition runReverseProviderMain ::
  "(string \<Rightarrow> uuid option) \<Rightarrow> bool \<Rightarrow> bool \<Rightarrow> string option \<Rightarrow> string \<Rightarrow> int \<Rightarrow> rp_event list
     \<Rightarrow> handshake_error + string \<times> rprovider" where
  "runReverseProviderMain up dialled write_ok reply rtHost rtPort es =
     (case HandshakeReverseProvider dialled write_ok reply rtHost rtPort [] of
        (Inl e, _) \<Rightarrow> Inl e
      | (Inr ch, _) \<Rightarrow> Inr (ch, ServeReverseProvider up es rp_init))"

definition runReverseConsumerMain ::
  "(string \<Rightarrow> string option) \<Rightarrow> string \<Rightarrow> string \<Rightarrow> rc_event list \<Rightarrow> string + string \<times> rconsumer" where
  "runReverseConsumerMain listen_err listenAddr channelID es = RunReverseConsumer listen_err listenAddr channelID es"

text \<open>A consumer's connection is paired as a forward tunnel's is.\<close>

lemma reverseConsumerBridgeTCP_pair:
  "reverseConsumerBridgeTCP url_Parse dial nowUnix conn local_read local_src n es serverURL sessionPath apiKey =
     handlePair (case DialWebSocketPath url_Parse dial nowUnix serverURL sessionPath apiKey of
        (Inl _, _) \<Rightarrow> None | (Inr i, _) \<Rightarrow> Some (conn i)) local_read local_src n es"
  by (simp add: reverseConsumerBridgeTCP_def handlePair_def Let_def split: prod.split sum.split)

lemma dialled_session_path:
  "Path (dial_url nowUnix (reverseSessionPath channelID) apiKey u) = ''/ws/'' @ channelID"
  by (simp add: dial_url_def reverseSessionPath_def has_prefix_def Let_def)

lemma RunReverseProvider_channel:
  "RunReverseProvider up dialled write_ok reply localHost localPort es = Inr (cid, r) \<Longrightarrow>
     dialled \<and> write_ok \<and> (\<exists>data. reply = Some data \<and> handshake_reply data = Inr cid)"
  by (auto simp: RunReverseProvider_def HandshakeReverseProvider_def Let_def split: if_splits option.splits sum.splits)

end
