(* ===== verification/EndToEnd.thy ===== *)
theory EndToEnd
  imports ApiClaims ReverseRun
begin

text \<open>
  The two programs together: a channel id that the server gives to a provider is the one under which a
  consumer reaches it.
\<close>

lemma handshake_reply_refusal: "\<exists>e'. handshake_reply (provider_refusal e) = Inl e'"
  unfolding handshake_reply_def provider_refusal_def
  by (subst json_members_print; simp add: utf8_fix_ascii)

lemma confirmed_channel:
  assumes "uuid_text up us" "RTunnelProvider up us fresh (Some c) first ack_ok w = (Some data, w')"
    and "handshake_reply data = Inr cid"
  shows "\<exists>i. cid = us i \<and> ChannelActive i w'"
proof -
  have "\<not> (\<exists>e. data = provider_refusal e)"
  proof
    assume "\<exists>e. data = provider_refusal e"
    then obtain e where "data = provider_refusal e" by blast
    with handshake_reply_refusal [of e] assms(3) show False by auto
  qed
  then obtain i ch where "data = provider_ack us i" "mget (bw_channels w') i = Some ch"
    using RTunnelProvider_answer [OF assms(2)] by auto
  with assms(3) handshake_reply_ack [OF assms(1)] show ?thesis by (auto simp: ChannelActive_def)
qed

section \<open>Properties\<close>


definition demo_answer :: "string option \<times> broker_world" where
  "demo_answer = RTunnelProvider hex_uuid_parse hex_uuid_string (mk_uuid [1]) (Some 7) (Some (offer_msg ''h'' 22 [])) True
     (as_broker demo_api)"

lemma demo_answered: "demo_answer = (Some (provider_ack hex_uuid_string (mk_uuid [1])), snd demo_answer)"
proof -
  have o: "decode_offer (offer_msg ''h'' 22 []) = Some \<lparr>LocalHost = ''h'', LocalPort = 22, ChannelID = []\<rparr>"
    using decode_offer_msg [OF hex_uuid_text, of "''h''" 22 "[]"] by (simp add: utf8_fix_ascii in_int64_def)
  show ?thesis
    by (simp add: demo_answer_def RTunnelProvider_def o RegisterProvider_def NewBroker_sel trim_space_plain Let_def)
qed

lemma mk_uuid_not_nil: "mk_uuid [1] \<noteq> uuid_nil"
proof
  assume "mk_uuid [1] = uuid_nil"
  then have "hd (uuid_bytes (mk_uuid [1])) = hd (uuid_bytes uuid_nil)" by simp
  then show False by (simp add: uuid_nil_def numeral_eq_Suc)
qed


end
