(* ===== verification/ReverseRestart.thy ===== *)
theory ReverseRestart
  imports ReverseManagerProps
begin

text \<open>
  Restarting the manager of reverse tunnels: its persisted entries are in normal form, and a new manager
  started on them has the same entries, whatever the network does, up to the channel ids that new
  handshakes give.
\<close>

declare map_of_eq_Some_iff [simp del]

section \<open>Normal form\<close>

text \<open>New ids are UUIDs: not blank, without blanks at the ends.\<close>

definition plain_id :: "string \<Rightarrow> bool" where
  "plain_id i \<longleftrightarrow> i \<noteq> [] \<and> trim_space i = i"

definition prov_normal :: "ProviderPersist \<Rightarrow> bool" where
  "prov_normal p \<longleftrightarrow> normalizeReverseProviderPersist p = p \<and> pp_ID p \<noteq> []"

definition cons_normal :: "ConsumerPersist \<Rightarrow> bool" where
  "cons_normal c \<longleftrightarrow> NormalizeReverseConsumerPersist c = c"

definition rev_normal :: "rev_manager \<Rightarrow> bool" where
  "rev_normal r \<longleftrightarrow>
     (\<forall>i a. mget (rm_providers r) i = Some a \<longrightarrow> prov_normal (pi_cfg a))
     \<and> (\<forall>i b. mget (rm_consumers r) i = Some b \<longrightarrow> cons_normal (ci_cfg b))"

lemma rev_normalD:
  assumes "rev_normal r"
  shows "mget (rm_providers r) i = Some a \<Longrightarrow> prov_normal (pi_cfg a)"
    "mget (rm_consumers r) i = Some b \<Longrightarrow> cons_normal (ci_cfg b)"
  using assms by (auto simp: rev_normal_def)

text \<open>The configuration that \<open>StartProvider\<close> starts, and that a bootstrap enters.\<close>

definition start_form :: "rm_env \<Rightarrow> ProviderPersist \<Rightarrow> ProviderPersist" where
  "start_form env p =
     (let p = normalizeReverseProviderPersist p
      in if trim_space (pp_ID p) = [] then p\<lparr>pp_ID := re_newID env\<rparr> else p)"

lemma host_trimmed [simp]: "trim_space ''127.0.0.1'' = ''127.0.0.1''"
  by (simp add: trim_space_plain space_heads_code space_lasts_code)

lemma normalize_id_iff:
  "normalizeReverseProviderPersist p = p \<longleftrightarrow>
     NormalizeServerURLForWS (pp_ServerURL p) = pp_ServerURL p \<and> trim_space (pp_LocalHost p) = pp_LocalHost p
     \<and> pp_LocalHost p \<noteq> [] \<and> trim_space (pp_APIKey p) = pp_APIKey p \<and> trim_space (pp_ID p) = pp_ID p
     \<and> trim_space (pp_ChannelID p) = pp_ChannelID p"
  by (cases p) (auto simp: normalizeReverseProviderPersist_def Let_def)

lemma normalize_idem: "normalizeReverseProviderPersist (normalizeReverseProviderPersist p) = normalizeReverseProviderPersist p"
  unfolding normalize_id_iff by (simp add: normalizeReverseProviderPersist_def Let_def)

lemma prov_normal_start: "plain_id (re_newID env) \<Longrightarrow> prov_normal (start_form env p)"
  using normalize_idem [of p] unfolding prov_normal_def normalize_id_iff
  by (auto simp: start_form_def plain_id_def Let_def)

lemma prov_normal_channel: "prov_normal p \<Longrightarrow> prov_normal (p\<lparr>pp_ChannelID := trim_space ch\<rparr>)"
  by (simp add: prov_normal_def normalize_id_iff)

lemma cons_normal_normal: "cons_normal (NormalizeReverseConsumerPersist c)"
  by (simp add: cons_normal_def NormalizeReverseConsumerPersist_def Let_def)

lemma start_form_normal: "prov_normal p \<Longrightarrow> start_form env p = p"
  by (simp add: start_form_def prov_normal_def) (simp add: normalize_id_iff)

section \<open>Every operation keeps it\<close>

text \<open>An operation that enters at most one new configuration, a normal one.\<close>

definition prov_from :: "rev_manager \<Rightarrow> rev_manager \<Rightarrow> bool" where
  "prov_from r r' \<longleftrightarrow> (\<forall>i a. mget (rm_providers r') i = Some a \<longrightarrow>
     prov_normal (pi_cfg a) \<or> (\<exists>b. mget (rm_providers r) i = Some b \<and> pi_cfg b = pi_cfg a))"

definition cons_from :: "rev_manager \<Rightarrow> rev_manager \<Rightarrow> bool" where
  "cons_from r r' \<longleftrightarrow> (\<forall>i a. mget (rm_consumers r') i = Some a \<longrightarrow>
     cons_normal (ci_cfg a) \<or> (\<exists>b. mget (rm_consumers r) i = Some b \<and> ci_cfg b = ci_cfg a))"

abbreviation made_from :: "rev_manager \<Rightarrow> rev_manager \<Rightarrow> bool" where
  "made_from r r' \<equiv> prov_from r r' \<and> cons_from r r'"

lemma prov_fromD:
  "prov_from r r' \<Longrightarrow> mget (rm_providers r') i = Some a \<Longrightarrow>
     prov_normal (pi_cfg a) \<or> (\<exists>b. mget (rm_providers r) i = Some b \<and> pi_cfg b = pi_cfg a)"
  by (simp add: prov_from_def)

lemma cons_fromD:
  "cons_from r r' \<Longrightarrow> mget (rm_consumers r') i = Some a \<Longrightarrow>
     cons_normal (ci_cfg a) \<or> (\<exists>b. mget (rm_consumers r) i = Some b \<and> ci_cfg b = ci_cfg a)"
  by (simp add: cons_from_def)

lemma rev_normal_from:
  assumes "rev_normal r" "made_from r r'"
  shows "rev_normal r'"
  unfolding rev_normal_def
proof (intro conjI allI impI)
  show "prov_normal (pi_cfg a)" if "mget (rm_providers r') i = Some a" for i a
    using prov_fromD [OF conjunct1 [OF assms(2)] that] rev_normalD(1) [OF assms(1), of i] by auto
  show "cons_normal (ci_cfg b)" if "mget (rm_consumers r') i = Some b" for i b
    using cons_fromD [OF conjunct2 [OF assms(2)] that] rev_normalD(2) [OF assms(1), of i] by auto
qed

lemma made_from_refl: "made_from r r"
  by (auto simp: prov_from_def cons_from_def)

lemma made_from_trans:
  assumes "made_from r r'" "made_from r' r''"
  shows "made_from r r''"
proof
  show "prov_from r r''"
    unfolding prov_from_def
  proof (intro allI impI)
    show "prov_normal (pi_cfg a) \<or> (\<exists>b. mget (rm_providers r) i = Some b \<and> pi_cfg b = pi_cfg a)"
      if "mget (rm_providers r'') i = Some a" for i a
      using prov_fromD [OF conjunct1 [OF assms(2)] that] prov_fromD [OF conjunct1 [OF assms(1)], of i] by fastforce
  qed
  show "cons_from r r''"
    unfolding cons_from_def
  proof (intro allI impI)
    show "cons_normal (ci_cfg a) \<or> (\<exists>b. mget (rm_consumers r) i = Some b \<and> ci_cfg b = ci_cfg a)"
      if "mget (rm_consumers r'') i = Some a" for i a
      using cons_fromD [OF conjunct2 [OF assms(2)] that] cons_fromD [OF conjunct2 [OF assms(1)], of i] by fastforce
  qed
qed

lemma made_from_ended: "made_from r (provider_ended w i e r)" "made_from r (consumer_ended w i e r)"
  by (auto simp: prov_from_def cons_from_def provider_ended_def consumer_ended_def split: option.split if_splits)

lemma made_from_wait: "made_from r (waitProviderEnded e i a r)" "made_from r (waitConsumerEnded e i b r)"
  using made_from_ended made_from_refl
  by (auto simp: waitProviderEnded_def waitConsumerEnded_def split: option.split)

lemma made_from_wait_prev: "made_from r (wait_prev_provider e i r)" "made_from r (wait_prev_consumer e i r)"
  using made_from_wait made_from_refl
  by (auto simp: wait_prev_provider_def wait_prev_consumer_def split: option.split)

lemma made_from_Stop: "made_from r (StopProvider e i r)" "made_from r (StopConsumer e i r)"
  using made_from_wait_prev made_from_refl by (auto simp: StopProvider_def StopConsumer_def Let_def)

lemma made_from_del:
  "made_from r (r\<lparr>rm_providers := mdel i (rm_providers r)\<rparr>)" "made_from r (r\<lparr>rm_consumers := mdel i (rm_consumers r)\<rparr>)"
  by (auto simp: prov_from_def cons_from_def split: if_splits)

lemma made_from_Remove: "made_from r (RemoveProvider e i r)" "made_from r (RemoveConsumer e i r)"
  using made_from_trans [OF made_from_wait_prev(1) made_from_del(1)]
    made_from_trans [OF made_from_wait_prev(2) made_from_del(2)] made_from_refl
  by (auto simp: RemoveProvider_def RemoveConsumer_def Let_def)

lemma made_from_put:
  "prov_normal (pi_cfg a) \<Longrightarrow> made_from r (put_provider i a r)"
  "cons_normal (ci_cfg b) \<Longrightarrow> made_from r (put_consumer i b r)"
  by (auto simp: prov_from_def cons_from_def put_provider_def put_consumer_def split: if_splits)

lemma made_from_fresh: "made_from (r\<lparr>rm_fresh := n\<rparr>) r' \<longleftrightarrow> made_from r r'"
  by (simp add: prov_from_def cons_from_def)

lemma made_from_put_inactive:
  "prov_normal p \<Longrightarrow> made_from r (snd (putProviderInactive p r))"
  "cons_normal c \<Longrightarrow> made_from r (snd (putConsumerInactive c r))"
  using made_from_put made_from_refl
  by (auto simp: putProviderInactive_def putConsumerInactive_def idle_consumer_def split: option.split)

lemma made_from_attach:
  "prov_normal p \<Longrightarrow> made_from r (snd (provider_attach p res r))"
  "cons_normal c \<Longrightarrow> made_from r (snd (consumer_attach c err r))"
  using made_from_put(1) [of _ "r\<lparr>rm_fresh := rm_fresh r + 1\<rparr>"] made_from_put(2) [of _ "r\<lparr>rm_fresh := rm_fresh r + 1\<rparr>"]
    made_from_put [of _ r]
  by (auto simp: provider_attach_def consumer_attach_def idle_consumer_def prov_normal_channel made_from_fresh
      split: sum.split option.split)

lemma provider_admit_from:
  assumes "provider_admit env p r = (res, r')"
  shows "made_from r r'" "res = Inr q \<Longrightarrow> q = start_form env p"
proof -
  let ?q = "start_form env p"
  have e: "(res, r') = (case validateProvider ?q of Some e \<Rightarrow> (Inl e, r)
       | None \<Rightarrow> (case checkProviderConflictsLocked (pp_ID ?q) ?q (wait_prev_provider (re_runErr env) (pp_ID ?q) r) of
            Some e \<Rightarrow> (Inl e, wait_prev_provider (re_runErr env) (pp_ID ?q) r)
          | None \<Rightarrow> (Inr ?q, wait_prev_provider (re_runErr env) (pp_ID ?q) r)))"
    by (simp only: assms [symmetric] provider_admit_def start_form_def Let_def)
  then show "made_from r r'" using made_from_refl made_from_wait_prev(1) by (auto split: option.splits)
  from e show "res = Inr q \<Longrightarrow> q = start_form env p" by (auto split: option.splits)
qed

lemma consumer_admit_from:
  assumes "consumer_admit env c r = (res, r')"
  shows "made_from r r'" "res = Inr d \<Longrightarrow> d = NormalizeReverseConsumerPersist c"
proof -
  let ?d = "NormalizeReverseConsumerPersist c"
  have e: "(res, r') = (case validateConsumer ?d of Some e \<Rightarrow> (Inl e, r)
       | None \<Rightarrow> (case checkConsumerConflictsLocked (cp_ID ?d) ?d (wait_prev_consumer (re_runErr env) (cp_ID ?d) r) of
            Some e \<Rightarrow> (Inl e, wait_prev_consumer (re_runErr env) (cp_ID ?d) r)
          | None \<Rightarrow> (Inr ?d, wait_prev_consumer (re_runErr env) (cp_ID ?d) r)))"
    by (simp only: assms [symmetric] consumer_admit_def Let_def)
  then show "made_from r r'" using made_from_refl made_from_wait_prev(2) by (auto split: option.splits)
  from e show "res = Inr d \<Longrightarrow> d = NormalizeReverseConsumerPersist c" by (auto split: option.splits)
qed

lemma made_from_StartProvider:
  assumes "plain_id (re_newID env)"
  shows "made_from r (snd (StartProvider env p r))"
proof -
  obtain res r' where a: "provider_admit env p r = (res, r')" by (meson surj_pair)
  note ad = provider_admit_from [OF a]
  show ?thesis
  proof (cases res)
    case (Inl e)
    then show ?thesis using ad(1) by (simp add: StartProvider_def a)
  next
    case (Inr q)
    then have n: "prov_normal q" using ad(2) prov_normal_start [OF assms] by blast
    let ?s = "StopProvider (re_runErr env) (pp_ID q) r'"
    have "made_from r (snd (putProviderInactive q ?s))"
      using made_from_trans [OF ad(1) made_from_trans [OF made_from_Stop(1) made_from_put_inactive(1) [OF n]]] .
    moreover have "made_from r (snd (provider_attach q (provider_handshake env q) r'))"
      using made_from_trans [OF ad(1) made_from_attach(1) [OF n]] .
    ultimately show ?thesis
      by (cases "putProviderInactive q ?s") (simp add: StartProvider_def a Inr split: option.split)
  qed
qed

lemma made_from_StartConsumer: "made_from r (snd (StartConsumer env c r))"
proof -
  obtain res r' where a: "consumer_admit env c r = (res, r')" by (meson surj_pair)
  note ad = consumer_admit_from [OF a]
  show ?thesis
  proof (cases res)
    case (Inl e)
    then show ?thesis using ad(1) by (simp add: StartConsumer_def a)
  next
    case (Inr d)
    then have n: "cons_normal d" using ad(2) cons_normal_normal by blast
    let ?s = "StopConsumer (re_runErr env) (cp_ID d) r'"
    have "made_from r (snd (putConsumerInactive d ?s))"
      using made_from_trans [OF ad(1) made_from_trans [OF made_from_Stop(2) made_from_put_inactive(2) [OF n]]] .
    moreover have "made_from r (snd (consumer_attach d (re_listen env) r'))"
      using made_from_trans [OF ad(1) made_from_attach(2) [OF n]] .
    ultimately show ?thesis by (simp add: StartConsumer_def a Inr)
  qed
qed

lemma made_from_fold:
  "(\<And>x s. made_from s (f x s)) \<Longrightarrow> made_from r (fold f xs r)"
proof (induction xs arbitrary: r)
  case (Cons x xs)
  show ?case using made_from_trans [OF Cons.prems Cons.IH [OF Cons.prems]] by simp
qed (simp add: made_from_refl)

lemma made_from_StopAll: "made_from r (rm_StopAll errs r)"
  unfolding rm_StopAll_def Let_def
  by (rule made_from_trans [OF made_from_fold made_from_fold]) (auto simp: made_from_wait case_prod_unfold)

text \<open>One entry of a bootstrap.\<close>

definition boot_provider :: "rm_env \<Rightarrow> ProviderPersist \<Rightarrow> rev_manager \<Rightarrow> rev_manager" where
  "boot_provider env p r =
     (let c = start_form env p
      in case validateProvider c of
           Some e \<Rightarrow> r
         | None \<Rightarrow> if \<not> pp_EffectiveEnabled c then snd (putProviderInactive c r) else snd (StartProvider env c r))"

definition boot_consumer :: "rm_env \<Rightarrow> ConsumerPersist \<Rightarrow> rev_manager \<Rightarrow> rev_manager" where
  "boot_consumer env c r =
     (let c = NormalizeReverseConsumerPersist c
      in case validateConsumer c of
           Some e \<Rightarrow> r
         | None \<Rightarrow> if \<not> cp_EffectiveEnabled c then snd (putConsumerInactive c r) else snd (StartConsumer env c r))"

lemma BootstrapProviders_Cons:
  "BootstrapProviders env n (p # ps) r = BootstrapProviders env (n + 1) ps (boot_provider (env n) p r)"
  by (simp add: boot_provider_def start_form_def Let_def)

lemma BootstrapConsumers_Cons:
  "BootstrapConsumers env n (c # cs) r = BootstrapConsumers env (n + 1) cs (boot_consumer (env n) c r)"
  by (simp add: boot_consumer_def Let_def)

lemma made_from_boot:
  "plain_id (re_newID env) \<Longrightarrow> made_from r (boot_provider env p r)" "made_from r (boot_consumer env c r)"
  using made_from_refl [of r] made_from_StartProvider [of env r] made_from_StartConsumer [of r env]
    made_from_put_inactive(1) [OF prov_normal_start, of env r p] made_from_put_inactive(2) [OF cons_normal_normal, of r c]
  by (auto simp: boot_provider_def boot_consumer_def Let_def split: option.split)

lemma made_from_Bootstrap:
  "(\<And>k. plain_id (re_newID (envs k))) \<Longrightarrow> made_from r (BootstrapProviders envs n ps r)"
  "made_from r (BootstrapConsumers envs n cs r)"
proof -
  show "made_from r (BootstrapProviders envs n ps r)" if "\<And>k. plain_id (re_newID (envs k))"
  proof (induction ps arbitrary: n r)
    case (Cons p ps)
    show ?case
      unfolding BootstrapProviders_Cons by (rule made_from_trans [OF made_from_boot(1) [OF that] Cons.IH])
  qed (simp add: made_from_refl)
  show "made_from r (BootstrapConsumers envs n cs r)"
  proof (induction cs arbitrary: n r)
    case (Cons c cs)
    show ?case
      unfolding BootstrapConsumers_Cons by (rule made_from_trans [OF made_from_boot(2) Cons.IH])
  qed (simp add: made_from_refl)
qed

section \<open>Restoring the entries\<close>

definition forget_channel :: "ProviderPersist \<Rightarrow> ProviderPersist" where
  "forget_channel p = p\<lparr>pp_ChannelID := []\<rparr>"

abbreviation prov_cfgs :: "rev_manager \<Rightarrow> ProviderPersist list" where
  "prov_cfgs r \<equiv> map (\<lambda>(_, a). pi_cfg a) (rm_providers r)"

abbreviation cons_cfgs :: "rev_manager \<Rightarrow> ConsumerPersist list" where
  "cons_cfgs r \<equiv> map (\<lambda>(_, b). ci_cfg b) (rm_consumers r)"

lemma forget_channel_sel [simp]:
  "pp_ID (forget_channel p) = pp_ID p" "pp_LocalPort (forget_channel p) = pp_LocalPort p"
  "forget_channel (p\<lparr>pp_ChannelID := c\<rparr>) = forget_channel p"
  by (simp_all add: forget_channel_def)

lemma put_new_provider:
  assumes "mget (rm_providers r) i = None"
  shows "prov_cfgs (put_provider i a r) = prov_cfgs r @ [pi_cfg a]" "cons_cfgs (put_provider i a r) = cons_cfgs r"
  using assms by (simp_all add: put_provider_def mput_absent)

lemma put_new_consumer:
  assumes "mget (rm_consumers r) i = None"
  shows "cons_cfgs (put_consumer i b r) = cons_cfgs r @ [ci_cfg b]" "prov_cfgs (put_consumer i b r) = prov_cfgs r"
  using assms by (simp_all add: put_consumer_def mput_absent)

lemma boot_provider_new:
  assumes "rm_ok r" "prov_normal p" "validateProvider p = None" "mget (rm_providers r) (pp_ID p) = None"
    and "free_for (ProvSlot (pp_ID p)) (prov_claim p) (claimed r)"
  shows "map forget_channel (prov_cfgs (boot_provider env p r)) = map forget_channel (prov_cfgs r) @ [forget_channel p]"
    "cons_cfgs (boot_provider env p r) = cons_cfgs r"
    "claimed (boot_provider env p r) = (claimed r)(ProvSlot (pp_ID p) \<mapsto> prov_claim p)"
    "rm_ok (boot_provider env p r)"
proof -
  let ?r = "boot_provider env p r"
  have w: "wait_prev_provider (re_runErr env) (pp_ID p) r = r" using assms(4) by (simp add: wait_prev_provider_def)
  have n: "p = normalizeReverseProviderPersist p" "pp_ID p \<noteq> []" using assms(2) by (simp_all add: prov_normal_def)
  have c: "checkProviderConflictsLocked (pp_ID p) p r = None"
    using check_provider_iff [OF assms(1) validProvider_port [OF assms(3)]] assms(5) by simp
  have b: "?r = (if \<not> pp_EffectiveEnabled p then snd (putProviderInactive p r) else snd (StartProvider env p r))"
    using assms(2,3) by (simp add: boot_provider_def start_form_normal)
  then show "rm_ok ?r" using assms(1,3) by (simp add: rm_ok_putProviderInactive rm_ok_StartProvider)
  have "\<exists>a r0. ?r = put_provider (pp_ID p) a r0 \<and> rm_providers r0 = rm_providers r \<and> rm_consumers r0 = rm_consumers r
      \<and> forget_channel (pi_cfg a) = forget_channel p \<and> prov_claim (pi_cfg a) = prov_claim p \<and> claimed r0 = claimed r"
  proof (cases "pp_EffectiveEnabled p")
    case False
    then have "?r = put_provider (pp_ID p)
        \<lparr>pi_cfg = p, pi_channelID = [], pi_ws = None, pi_serveDone = False, pi_lastRunErr = None\<rparr> r"
      using assms(4) c by (simp add: b putProviderInactive_def)
    then show ?thesis by (metis prov_inst.select_convs(1))
  next
    case True
    then have s: "?r = snd (provider_attach p (provider_handshake env p) r)"
      using StartProvider_enabled [OF assms(1) n assms(3) True refl, of env] by (simp add: b w c)
    show ?thesis
    proof (cases "provider_handshake env p")
      case (Inl e)
      with s have "?r = put_provider (pp_ID p) \<lparr>pi_cfg = p, pi_channelID = [], pi_ws = None, pi_serveDone = False,
          pi_lastRunErr = Some (HandshakeFailed e)\<rparr> r" by (simp add: provider_attach_def)
      then show ?thesis by (metis prov_inst.select_convs(1))
    next
      case (Inr ch)
      let ?a = "\<lparr>pi_cfg = p\<lparr>pp_ChannelID := trim_space ch\<rparr>, pi_channelID = ch, pi_ws = Some (rm_fresh r),
          pi_serveDone = True, pi_lastRunErr = None\<rparr>"
      from Inr s have "?r = put_provider (pp_ID p) ?a (r\<lparr>rm_fresh := rm_fresh r + 1\<rparr>)"
        by (simp add: provider_attach_def)
      then show ?thesis
        by (intro exI [where x = ?a] exI [where x = "r\<lparr>rm_fresh := rm_fresh r + 1\<rparr>"]) (simp add: prov_claim_def)
    qed
  qed
  then obtain a r0 where r: "?r = put_provider (pp_ID p) a r0" "rm_providers r0 = rm_providers r"
    "rm_consumers r0 = rm_consumers r" "forget_channel (pi_cfg a) = forget_channel p"
    "prov_claim (pi_cfg a) = prov_claim p" "claimed r0 = claimed r" by blast
  from assms(4) r(2) have "mget (rm_providers r0) (pp_ID p) = None" by simp
  note put = put_new_provider [OF this, of a]
  show "map forget_channel (prov_cfgs ?r) = map forget_channel (prov_cfgs r) @ [forget_channel p]"
    unfolding r(1) put map_append r(2) by (simp add: r(4))
  show "cons_cfgs ?r = cons_cfgs r" unfolding r(1) put by (simp add: r(3))
  show "claimed ?r = (claimed r)(ProvSlot (pp_ID p) \<mapsto> prov_claim p)"
    by (simp add: r(1,5,6) claimed_put_provider del: claimed.simps)
qed

lemma boot_consumer_new:
  assumes "rm_ok r" "cons_normal c" "validateConsumer c = None" "mget (rm_consumers r) (cp_ID c) = None"
    and "free_for (ConsSlot (cp_ID c)) (cons_claim c) (claimed r)"
  shows "cons_cfgs (boot_consumer env c r) = cons_cfgs r @ [c]"
    "prov_cfgs (boot_consumer env c r) = prov_cfgs r"
    "claimed (boot_consumer env c r) = (claimed r)(ConsSlot (cp_ID c) \<mapsto> cons_claim c)"
    "rm_ok (boot_consumer env c r)"
proof -
  let ?r = "boot_consumer env c r"
  have w: "wait_prev_consumer (re_runErr env) (cp_ID c) r = r" using assms(4) by (simp add: wait_prev_consumer_def)
  have n: "c = NormalizeReverseConsumerPersist c" using assms(2) by (simp add: cons_normal_def)
  have l: "trim_space (cp_Listen c) = cp_Listen c"
    by (subst (1 2) n) (simp add: NormalizeReverseConsumerPersist_def Let_def)
  have ch: "checkConsumerConflictsLocked (cp_ID c) c r = None"
    using check_consumer_iff [OF assms(1) conjunct1 [OF validConsumer_listen [OF assms(3)]] l] assms(5) by simp
  have b: "?r = (if \<not> cp_EffectiveEnabled c then snd (putConsumerInactive c r) else snd (StartConsumer env c r))"
    using assms(3) n by (simp add: boot_consumer_def)
  then show "rm_ok ?r" using assms(1,3) l by (simp add: rm_ok_putConsumerInactive rm_ok_StartConsumer)
  have "\<exists>a r0. ?r = put_consumer (cp_ID c) a r0 \<and> rm_providers r0 = rm_providers r \<and> rm_consumers r0 = rm_consumers r
      \<and> ci_cfg a = c \<and> claimed r0 = claimed r"
  proof (cases "cp_EffectiveEnabled c")
    case False
    then have "?r = put_consumer (cp_ID c) (idle_consumer c None) r"
      using assms(4) ch by (simp add: b putConsumerInactive_def)
    then show ?thesis by (intro exI [where x = "idle_consumer c None"] exI [where x = r]) (simp add: idle_consumer_def)
  next
    case True
    then have s: "?r = snd (consumer_attach c (re_listen env) r)"
      using StartConsumer_enabled [OF assms(1) n assms(3) True refl, of env] by (simp add: b w ch)
    show ?thesis
    proof (cases "re_listen env")
      case (Some e)
      with s have "?r = put_consumer (cp_ID c) (idle_consumer c (Some (ListenRefused e))) r"
        by (simp add: consumer_attach_def)
      then show ?thesis
        by (intro exI [where x = "idle_consumer c (Some (ListenRefused e))"] exI [where x = r]) (simp add: idle_consumer_def)
    next
      case None
      let ?a = "\<lparr>ci_cfg = c, ci_done = True, ci_lastRunErr = None, ci_cancel = True,
              ci_listener = Some (rm_fresh r), ci_activeBridges = 0\<rparr>"
      from None s have "?r = put_consumer (cp_ID c) ?a (r\<lparr>rm_fresh := rm_fresh r + 1\<rparr>)"
        by (simp add: consumer_attach_def)
      then show ?thesis
        by (intro exI [where x = ?a] exI [where x = "r\<lparr>rm_fresh := rm_fresh r + 1\<rparr>"]) simp
    qed
  qed
  then obtain a r0 where r: "?r = put_consumer (cp_ID c) a r0" "rm_providers r0 = rm_providers r"
    "rm_consumers r0 = rm_consumers r" "ci_cfg a = c" "claimed r0 = claimed r" by blast
  from assms(4) r(3) have "mget (rm_consumers r0) (cp_ID c) = None" by simp
  note put = put_new_consumer [OF this, of a]
  show "cons_cfgs ?r = cons_cfgs r @ [c]" unfolding r(1) put by (simp add: r(3,4))
  show "prov_cfgs ?r = prov_cfgs r" unfolding r(1) put by (simp add: r(2))
  show "claimed ?r = (claimed r)(ConsSlot (cp_ID c) \<mapsto> cons_claim c)"
    by (simp add: r(1,4,5) claimed_put_consumer del: claimed.simps)
qed

text \<open>A bootstrap on entries whose claims are those of a table in which no two agree.\<close>

lemma claimed_free:
  assumes "exclusive F" "claimed r \<subseteq>\<^sub>m F" "F s = Some e"
  shows "free_for s e (claimed r)"
  unfolding free_for_def
proof (intro allI impI notI)
  fix t
  assume t: "t \<noteq> s" "claimed r t = Some e"
  then have "F t = Some e" using assms(2) by (force simp: map_le_def dom_def)
  with t(1) exclusiveD [OF assms(1) _ assms(3)] show False by blast
qed

lemma boot_providers_all:
  assumes "exclusive F"
  shows "rm_ok r \<Longrightarrow> claimed r \<subseteq>\<^sub>m F \<Longrightarrow> distinct (map pp_ID ps) \<Longrightarrow>
    (\<And>p. p \<in> set ps \<Longrightarrow> prov_normal p \<and> validateProvider p = None
       \<and> F (ProvSlot (pp_ID p)) = Some (prov_claim p) \<and> claimed r (ProvSlot (pp_ID p)) = None) \<Longrightarrow>
    map forget_channel (prov_cfgs (BootstrapProviders env n ps r)) = map forget_channel (prov_cfgs r) @ map forget_channel ps
    \<and> cons_cfgs (BootstrapProviders env n ps r) = cons_cfgs r
    \<and> claimed (BootstrapProviders env n ps r) \<subseteq>\<^sub>m F \<and> rm_ok (BootstrapProviders env n ps r)
    \<and> (\<forall>i. claimed (BootstrapProviders env n ps r) (ConsSlot i) = claimed r (ConsSlot i))"
proof (induction ps arbitrary: n r)
  case (Cons p ps)
  have p: "prov_normal p" "validateProvider p = None" "F (ProvSlot (pp_ID p)) = Some (prov_claim p)"
      "claimed r (ProvSlot (pp_ID p)) = None"
    using Cons.prems(4) [of p] by simp_all
  let ?r = "boot_provider (env n) p r"
  from p(4) have "mget (rm_providers r) (pp_ID p) = None" by simp
  note b = boot_provider_new [OF Cons.prems(1) p(1,2) this claimed_free [OF assms Cons.prems(2) p(3)], of "env n"]
  have cl: "claimed ?r = (claimed r)(ProvSlot (pp_ID p) \<mapsto> prov_claim p)" by (rule b(3))
  have "map forget_channel (prov_cfgs (BootstrapProviders env (n + 1) ps ?r)) = map forget_channel (prov_cfgs ?r) @ map forget_channel ps
      \<and> cons_cfgs (BootstrapProviders env (n + 1) ps ?r) = cons_cfgs ?r
      \<and> claimed (BootstrapProviders env (n + 1) ps ?r) \<subseteq>\<^sub>m F \<and> rm_ok (BootstrapProviders env (n + 1) ps ?r)
      \<and> (\<forall>i. claimed (BootstrapProviders env (n + 1) ps ?r) (ConsSlot i) = claimed ?r (ConsSlot i))"
  proof (rule Cons.IH)
    show "rm_ok ?r" by (rule b(4))
    show "claimed ?r \<subseteq>\<^sub>m F" using Cons.prems(2) p(3) by (simp add: cl map_le_def del: claimed.simps)
    show "distinct (map pp_ID ps)" using Cons.prems(3) by simp
    show "prov_normal q \<and> validateProvider q = None \<and> F (ProvSlot (pp_ID q)) = Some (prov_claim q)
        \<and> claimed ?r (ProvSlot (pp_ID q)) = None" if "q \<in> set ps" for q
      using Cons.prems(3) Cons.prems(4) [of q] that by (auto simp: cl image_iff simp del: claimed.simps)
  qed
  moreover have "map forget_channel (prov_cfgs ?r) = map forget_channel (prov_cfgs r) @ [forget_channel p]"
    "cons_cfgs ?r = cons_cfgs r" by (rule b(1), rule b(2))
  moreover have "claimed ?r (ConsSlot i) = claimed r (ConsSlot i)" for i by (simp add: cl del: claimed.simps)
  ultimately show ?case unfolding BootstrapProviders_Cons by (simp del: claimed.simps)
qed simp

lemma boot_consumers_all:
  assumes "exclusive F"
  shows "rm_ok r \<Longrightarrow> claimed r \<subseteq>\<^sub>m F \<Longrightarrow> distinct (map cp_ID cs) \<Longrightarrow>
    (\<And>c. c \<in> set cs \<Longrightarrow> cons_normal c \<and> validateConsumer c = None
       \<and> F (ConsSlot (cp_ID c)) = Some (cons_claim c) \<and> claimed r (ConsSlot (cp_ID c)) = None) \<Longrightarrow>
    cons_cfgs (BootstrapConsumers env n cs r) = cons_cfgs r @ cs
    \<and> prov_cfgs (BootstrapConsumers env n cs r) = prov_cfgs r"
proof (induction cs arbitrary: n r)
  case (Cons c cs)
  have c: "cons_normal c" "validateConsumer c = None" "F (ConsSlot (cp_ID c)) = Some (cons_claim c)"
      "claimed r (ConsSlot (cp_ID c)) = None"
    using Cons.prems(4) [of c] by simp_all
  let ?r = "boot_consumer (env n) c r"
  from c(4) have "mget (rm_consumers r) (cp_ID c) = None" by simp
  note b = boot_consumer_new [OF Cons.prems(1) c(1,2) this claimed_free [OF assms Cons.prems(2) c(3)], of "env n"]
  have cl: "claimed ?r = (claimed r)(ConsSlot (cp_ID c) \<mapsto> cons_claim c)" by (rule b(3))
  have "cons_cfgs (BootstrapConsumers env (n + 1) cs ?r) = cons_cfgs ?r @ cs
      \<and> prov_cfgs (BootstrapConsumers env (n + 1) cs ?r) = prov_cfgs ?r"
  proof (rule Cons.IH)
    show "rm_ok ?r" by (rule b(4))
    show "claimed ?r \<subseteq>\<^sub>m F" using Cons.prems(2) c(3) by (simp add: cl map_le_def del: claimed.simps)
    show "distinct (map cp_ID cs)" using Cons.prems(3) by simp
    show "cons_normal d \<and> validateConsumer d = None \<and> F (ConsSlot (cp_ID d)) = Some (cons_claim d)
        \<and> claimed ?r (ConsSlot (cp_ID d)) = None" if "d \<in> set cs" for d
      using Cons.prems(3) Cons.prems(4) [of d] that by (auto simp: cl image_iff simp del: claimed.simps)
  qed
  moreover have "cons_cfgs ?r = cons_cfgs r @ [c]" "prov_cfgs ?r = prov_cfgs r" by (rule b(1), rule b(2))
  ultimately show ?case unfolding BootstrapConsumers_Cons by simp
qed simp

text \<open>The entries of a manager in use.\<close>

lemma prov_cfgs_ids: "rm_ok r \<Longrightarrow> map pp_ID (prov_cfgs r) = mkeys (rm_providers r)"
proof -
  assume ok: "rm_ok r"
  have "pp_ID (pi_cfg a) = i" if "(i, a) \<in> set (rm_providers r)" for i a
    using rm_okD(1,3) [OF ok] that by (auto simp: mget_Some_iff prov_ok_def)
  then show ?thesis by (auto simp: case_prod_unfold)
qed

lemma cons_cfgs_ids: "rm_ok r \<Longrightarrow> map cp_ID (cons_cfgs r) = mkeys (rm_consumers r)"
proof -
  assume ok: "rm_ok r"
  have "cp_ID (ci_cfg b) = i" if "(i, b) \<in> set (rm_consumers r)" for i b
    using rm_okD(2,4) [OF ok] that by (auto simp: mget_Some_iff cons_ok_def)
  then show ?thesis by (auto simp: case_prod_unfold)
qed

lemma prov_cfg_facts:
  assumes "rm_ok r" "rev_normal r" "p \<in> set (prov_cfgs r)"
  shows "prov_normal p \<and> validateProvider p = None \<and> claimed r (ProvSlot (pp_ID p)) = Some (prov_claim p)"
proof -
  from assms(3) obtain i a where a: "(i, a) \<in> set (rm_providers r)" "p = pi_cfg a" by auto
  then have m: "mget (rm_providers r) i = Some a" using rm_okD(1) [OF assms(1)] by (simp add: mget_Some_iff)
  with rm_okD(3) [OF assms(1) m] rev_normalD(1) [OF assms(2) m] a(2) show ?thesis by (simp add: prov_ok_def)
qed

lemma cons_cfg_facts:
  assumes "rm_ok r" "rev_normal r" "c \<in> set (cons_cfgs r)"
  shows "cons_normal c \<and> validateConsumer c = None \<and> claimed r (ConsSlot (cp_ID c)) = Some (cons_claim c)"
proof -
  from assms(3) obtain i b where b: "(i, b) \<in> set (rm_consumers r)" "c = ci_cfg b" by auto
  then have m: "mget (rm_consumers r) i = Some b" using rm_okD(2) [OF assms(1)] by (simp add: mget_Some_iff)
  with rm_okD(4) [OF assms(1) m] rev_normalD(2) [OF assms(2) m] b(2) show ?thesis by (simp add: cons_ok_def)
qed

lemma new_claims: "claimed NewReverseManager s = None"
  by (cases s) (simp_all add: NewReverseManager_def)

abbreviation prov_key :: "ProviderPersist \<Rightarrow> row_key" where
  "prov_key p \<equiv> RowKey (pp_LocalPort p) (pp_ID p)"

abbreviation cons_key :: "ConsumerPersist \<Rightarrow> listen_key" where
  "cons_key c \<equiv> ListenKey (cp_Listen c) (cp_ID c)"

lemma sort_forget:
  assumes "distinct (map pp_ID ps)"
  shows "sort_key prov_key (map forget_channel ps) = map forget_channel (sort_key prov_key ps)"
proof (rule sorted_arrangement)
  have "inj_on pp_ID (set ps)" using assms by (simp add: distinct_map)
  then show "inj_on prov_key (set (map forget_channel ps))" by (auto simp: inj_on_def)
  have "map prov_key (map forget_channel (sort_key prov_key ps)) = map prov_key (sort_key prov_key ps)" by simp
  then show "sorted (map prov_key (map forget_channel (sort_key prov_key ps)))"
    using sorted_sort_key [of prov_key ps] by (simp only:)
qed simp

lemma restore_reverse:
  assumes "rm_ok r" "rev_normal r"
    and r': "r' = BootstrapConsumers rmC 0 (PersistedConsumers r)
      (BootstrapProviders rmP 0 (PersistedProviders r) NewReverseManager)"
  shows "map forget_channel (PersistedProviders r') = map forget_channel (PersistedProviders r)"
    "PersistedConsumers r' = PersistedConsumers r"
proof -
  let ?ps = "PersistedProviders r" and ?cs = "PersistedConsumers r"
  have mp: "mset ?ps = mset (prov_cfgs r)" "mset ?cs = mset (cons_cfgs r)"
    by (simp_all add: PersistedProviders_def PersistedConsumers_def)
  have sp: "set ?ps = set (prov_cfgs r)" "set ?cs = set (cons_cfgs r)" using mp mset_eq_setD by blast+
  have ex: "exclusive (claimed r)" by (rule rm_okD(5) [OF assms(1)])
  have dp: "distinct (map pp_ID (prov_cfgs r))" "distinct (map cp_ID (cons_cfgs r))"
    by (simp_all only: prov_cfgs_ids cons_cfgs_ids rm_okD(1,2) assms(1))
  then have d: "distinct (map pp_ID ?ps)" "distinct (map cp_ID ?cs)"
    using mp mset_eq_imp_distinct_iff by (metis mset_map)+
  have "claimed NewReverseManager \<subseteq>\<^sub>m claimed r" by (simp add: map_le_def dom_def new_claims del: claimed.simps)
  note boot = boot_providers_all [OF ex rm_ok_new this d(1), of rmP 0]
  let ?r = "BootstrapProviders rmP 0 ?ps NewReverseManager"
  have b: "map forget_channel (prov_cfgs ?r) = map forget_channel ?ps \<and> cons_cfgs ?r = []
      \<and> claimed ?r \<subseteq>\<^sub>m claimed r \<and> rm_ok ?r \<and> (\<forall>i. claimed ?r (ConsSlot i) = None)"
  proof -
    have f: "prov_normal p \<and> validateProvider p = None \<and> claimed r (ProvSlot (pp_ID p)) = Some (prov_claim p)
        \<and> claimed NewReverseManager (ProvSlot (pp_ID p)) = None" if "p \<in> set ?ps" for p
      using prov_cfg_facts [OF assms(1,2)] sp(1) that unfolding new_claims by blast
    have "prov_cfgs NewReverseManager = []" "cons_cfgs NewReverseManager = []" by (simp_all add: NewReverseManager_def)
    with boot [OF f] show ?thesis by (simp add: new_claims del: claimed.simps)
  qed
  have "cons_cfgs r' = cons_cfgs ?r @ ?cs \<and> prov_cfgs r' = prov_cfgs ?r"
    unfolding r'
  proof (rule boot_consumers_all [OF ex _ _ d(2)])
    fix c
    assume "c \<in> set ?cs"
    then have "c \<in> set (cons_cfgs r)" using sp(2) by blast
    with cons_cfg_facts [OF assms(1,2)] b
    show "cons_normal c \<and> validateConsumer c = None \<and> claimed r (ConsSlot (cp_ID c)) = Some (cons_claim c)
        \<and> claimed ?r (ConsSlot (cp_ID c)) = None" by blast
  qed (use b in blast)+
  then have new: "cons_cfgs r' = ?cs" "map forget_channel (prov_cfgs r') = map forget_channel ?ps"
    using b by auto
  have "inj_on cons_key (set (cons_cfgs r))"
    using conjunct2 [OF iffD1 [OF distinct_map dp(2)]] unfolding inj_on_def by blast
  then show "PersistedConsumers r' = ?cs"
    unfolding PersistedConsumers_def [of r'] new(1)
    by (intro sorted_arrangement) (simp_all add: sp(2) PersistedConsumers_def sorted_sort_key del: set_map)
  have "map pp_ID (map forget_channel (prov_cfgs r')) = map pp_ID ?ps" unfolding new(2) by simp
  then have d': "distinct (map pp_ID (prov_cfgs r'))" using d(1) by (simp add: case_prod_unfold comp_def)
  have "map forget_channel (PersistedProviders r') = sort_key prov_key (map forget_channel (prov_cfgs r'))"
    using sort_forget [OF d'] by (simp add: PersistedProviders_def)
  also have "\<dots> = map forget_channel (sort_key prov_key ?ps)" unfolding new(2) by (rule sort_forget [OF d(1)])
  also have "sort_key prov_key ?ps = ?ps" by (simp add: PersistedProviders_def sorted_sort_key sort_key_id_if_sorted)
  finally show "map forget_channel (PersistedProviders r') = map forget_channel ?ps" .
qed

end
