(* ===== verification/ClientConfig.thy ===== *)
theory ClientConfig
  imports Registry ReverseRestart FilePath ServerConfig
begin

text \<open>
  The client's configuration file, \<open>internal/clientconfig/config.go\<close>. The YAML codec is a third-party
  package and an argument (\<open>client_yaml\<close>): it reads a file as the current format or as the old one with
  a single proxy at the root. Files are a map as on the server; every system call has an outcome that the
  environment chooses. Changing the permissions of the temporary file has no effect here.
\<close>

declare map_of_eq_Some_iff [simp del]

section \<open>Data\<close>

record fileUnified =
  fu_Version :: int
  fu_Proxies :: "TunnelConfig list"
  fu_ReverseProviders :: "ProviderPersist list"
  fu_ReverseConsumers :: "ConsumerPersist list"

record client_yaml =
  cy_unmarshal :: "string \<Rightarrow> fileUnified option"
  cy_legacy :: "string \<Rightarrow> TunnelConfig option"
  cy_marshal :: "fileUnified \<Rightarrow> string option"

datatype cc_error =
    NoClientConfigFile | CannotRead | BadYaml | BadLegacyYaml
  | CannotMarshal | CannotMkdir | CannotTemp | CannotWrite | CannotSync | CannotClose | CannotRename

text \<open>\<open>cs_temp\<close>: the random part of the temporary file's name, or \<open>None\<close> if it cannot be made.\<close>

record save_env =
  cs_mkdir_ok :: bool
  cs_temp :: "string option"
  cs_write :: write_outcome
  cs_sync_ok :: bool
  cs_close_ok :: bool
  cs_rename_ok :: bool
  cs_remove_ok :: bool

section \<open>Trimming\<close>

definition trimReverseProv :: "ProviderPersist \<Rightarrow> ProviderPersist" where
  "trimReverseProv p =
     (let p = p\<lparr>pp_ServerURL := NormalizeServerURLForWS (trim_space (pp_ServerURL p)),
                pp_LocalHost := trim_space (pp_LocalHost p)\<rparr>;
          p = (if pp_LocalHost p = [] then p\<lparr>pp_LocalHost := ''127.0.0.1''\<rparr> else p)
      in p\<lparr>pp_APIKey := trim_space (pp_APIKey p), pp_ID := trim_space (pp_ID p),
           pp_ChannelID := trim_space (pp_ChannelID p)\<rparr>)"

definition trimReverseCon :: "ConsumerPersist \<Rightarrow> ConsumerPersist" where
  "trimReverseCon c = NormalizeReverseConsumerPersist c"

definition trimCfg :: "TunnelConfig \<Rightarrow> TunnelConfig" where
  "trimCfg c = c\<lparr>tc_ServerURL := NormalizeServerURLForWS (trim_space (tc_ServerURL c)),
     tc_ProxyID := trim_space (tc_ProxyID c), tc_APIKey := trim_space (tc_APIKey c),
     tc_ID := trim_space (tc_ID c)\<rparr>"

section \<open>Loading\<close>

text \<open>A file without a list of proxies is read as the old format.\<close>

definition load_legacy :: "TunnelConfig \<Rightarrow> TunnelConfig list" where
  "load_legacy legacy =
     (let legacy = trimCfg legacy
      in if trim_space (tc_ServerURL legacy) = [] \<or> trim_space (tc_ProxyID legacy) = [] then []
         else [if trim_space (tc_ID legacy) = [] then legacy\<lparr>tc_ID := DefaultSingleProxyID\<rparr> else legacy])"

type_synonym client_entries = "TunnelConfig list \<times> ProviderPersist list \<times> ConsumerPersist list"

definition LoadClientFile :: "client_yaml \<Rightarrow> bool \<Rightarrow> string \<Rightarrow> files \<Rightarrow> cc_error + client_entries" where
  "LoadClientFile y readable path fs =
     (let path = filepath_Clean path
      in if \<not> readable then Inl CannotRead
         else (case fs path of
                 None \<Rightarrow> Inl NoClientConfigFile
               | Some data \<Rightarrow>
                   (case cy_unmarshal y data of
                      None \<Rightarrow> Inl BadYaml
                    | Some f \<Rightarrow>
                        let rest = (map trimReverseProv (fu_ReverseProviders f), map trimReverseCon (fu_ReverseConsumers f))
                        in if fu_Proxies f \<noteq> [] then Inr (map trimCfg (fu_Proxies f), rest)
                           else (case cy_legacy y data of
                                   None \<Rightarrow> Inl BadLegacyYaml
                                 | Some legacy \<Rightarrow> Inr (load_legacy legacy, rest)))))"

definition LoadProxies :: "client_yaml \<Rightarrow> bool \<Rightarrow> string \<Rightarrow> files \<Rightarrow> cc_error + TunnelConfig list" where
  "LoadProxies y readable path fs =
     (case LoadClientFile y readable path fs of Inl e \<Rightarrow> Inl e | Inr (proxies, _) \<Rightarrow> Inr proxies)"

section \<open>Saving\<close>

definition saved_cfg :: "TunnelConfig \<Rightarrow> TunnelConfig" where
  "saved_cfg c =
     (let c = trimCfg c in if trim_space (tc_ID c) = [] then c\<lparr>tc_ID := EnsureProxyID []\<rparr> else c)"

definition SaveClientFile ::
  "client_yaml \<Rightarrow> save_env \<Rightarrow> string \<Rightarrow> TunnelConfig list \<Rightarrow> ProviderPersist list \<Rightarrow> ConsumerPersist list \<Rightarrow> files
     \<Rightarrow> cc_error option \<times> files" where
  "SaveClientFile y env path proxies reverseProviders reverseConsumers fs =
     (let path = filepath_Clean path;
          payload = \<lparr>fu_Version = 2, fu_Proxies = map saved_cfg proxies,
                     fu_ReverseProviders = map trimReverseProv reverseProviders,
                     fu_ReverseConsumers = map trimReverseCon reverseConsumers\<rparr>
      in case cy_marshal y payload of
           None \<Rightarrow> (Some CannotMarshal, fs)
         | Some data \<Rightarrow>
             if \<not> cs_mkdir_ok env then (Some CannotMkdir, fs)
             else (case cs_temp env of
                     None \<Rightarrow> (Some CannotTemp, fs)
                   | Some rnd \<Rightarrow>
                       let tmp = temp_name path rnd;
                           remove = os_Remove tmp (cs_remove_ok env)
                       in (case os_WriteFile tmp data (cs_write env) (fs(tmp \<mapsto> [])) of
                             (False, fs) \<Rightarrow> (Some CannotWrite, remove fs)
                           | (True, fs) \<Rightarrow>
                               if \<not> cs_sync_ok env then (Some CannotSync, remove fs)
                               else if \<not> cs_close_ok env then (Some CannotClose, remove fs)
                               else (case os_Rename tmp path (cs_rename_ok env) fs of
                                       (False, fs) \<Rightarrow> (Some CannotRename, remove fs)
                                     | (True, fs) \<Rightarrow> (None, fs)))))"

definition loadReverseSidesOrEmpty ::
  "client_yaml \<Rightarrow> bool \<Rightarrow> string \<Rightarrow> files \<Rightarrow> ProviderPersist list \<times> ConsumerPersist list" where
  "loadReverseSidesOrEmpty y readable path fs =
     (case LoadClientFile y readable path fs of Inl _ \<Rightarrow> ([], []) | Inr (_, rp, rc) \<Rightarrow> (rp, rc))"

definition SaveProxies ::
  "client_yaml \<Rightarrow> bool \<Rightarrow> save_env \<Rightarrow> string \<Rightarrow> TunnelConfig list \<Rightarrow> files \<Rightarrow> cc_error option \<times> files" where
  "SaveProxies y readable env path proxies fs =
     (case loadReverseSidesOrEmpty y readable path fs of (rprov, rcon) \<Rightarrow>
        SaveClientFile y env path proxies rprov rcon fs)"

section \<open>The normal forms agree\<close>

text \<open>The file and the running client trim alike, so trimming again changes nothing.\<close>

lemma trimCfg_eq: "trimCfg = trimCopy"
  by (rule ext) (simp add: trimCfg_def trimCopy_def)

lemma trimReverseProv_eq: "trimReverseProv = normalizeReverseProviderPersist"
  by (rule ext) (simp add: trimReverseProv_def normalizeReverseProviderPersist_def Let_def)

lemma trimReverseProv_idem [simp]: "trimReverseProv (trimReverseProv p) = trimReverseProv p"
  by (simp add: trimReverseProv_eq normalizeReverseProviderPersist_def Let_def)

lemma trimReverseCon_idem [simp]: "trimReverseCon (trimReverseCon c) = trimReverseCon c"
  by (simp add: trimReverseCon_def NormalizeReverseConsumerPersist_def Let_def)

lemma trimCfg_saved [simp]: "trimCfg (saved_cfg c) = saved_cfg c"
  by (simp add: saved_cfg_def trimCfg_eq trimCopy_idem trimCopy_ensured Let_def)

lemma saved_cfg_clean: "cfg_clean c \<Longrightarrow> saved_cfg c = c"
  by (simp add: saved_cfg_def trimCfg_eq cfg_cleanD)

lemma trimReverseProv_normal: "prov_normal p \<Longrightarrow> trimReverseProv p = p"
  by (simp add: trimReverseProv_eq prov_normal_def)

lemma trimReverseCon_normal: "cons_normal c \<Longrightarrow> trimReverseCon c = c"
  by (simp add: trimReverseCon_def cons_normal_def)

section \<open>Saving, then loading\<close>

lemma SaveClientFile_cases:
  assumes "SaveClientFile y env path ps rp rc fs = (e, fs')"
  obtains
    (saved) data tmp where "e = None" "tmp \<noteq> filepath_Clean path"
      "cy_marshal y \<lparr>fu_Version = 2, fu_Proxies = map saved_cfg ps, fu_ReverseProviders = map trimReverseProv rp,
         fu_ReverseConsumers = map trimReverseCon rc\<rparr> = Some data"
      "fs' = fs(filepath_Clean path \<mapsto> data, tmp := None)"
  | (untouched) x where "e = Some x" "fs' = fs"
  | (failed) x rnd where "e = Some x" "cs_temp env = Some rnd"
      "\<And>p. p \<noteq> temp_name (filepath_Clean path) rnd \<Longrightarrow> fs' p = fs p"
      "cs_remove_ok env \<Longrightarrow> fs' (temp_name (filepath_Clean path) rnd) = None"
proof -
  let ?f = "\<lparr>fu_Version = 2, fu_Proxies = map saved_cfg ps, fu_ReverseProviders = map trimReverseProv rp,
         fu_ReverseConsumers = map trimReverseCon rc\<rparr>"
  let ?path = "filepath_Clean path"
  show thesis
  proof (cases "cy_marshal y ?f = None \<or> \<not> cs_mkdir_ok env \<or> cs_temp env = None")
    case True
    with assms untouched show thesis by (auto simp: SaveClientFile_def Let_def split: option.splits if_splits)
  next
    case False
    then obtain data rnd where d: "cy_marshal y ?f = Some data" "cs_mkdir_ok env" "cs_temp env = Some rnd" by auto
    let ?tmp = "temp_name ?path rnd"
    show thesis
    proof (cases "cs_write env = WriteOK \<and> cs_sync_ok env \<and> cs_close_ok env \<and> cs_rename_ok env")
      case True
      with d assms have "e = None" "fs' = fs(?path \<mapsto> data, ?tmp := None)"
        by (auto simp: SaveClientFile_def os_WriteFile_def os_Rename_def Let_def fun_upd_twist)
      with saved [OF _ temp_name_neq(1) d(1)] show thesis by blast
    next
      case fails: False
      have "e \<noteq> None" "\<And>p. p \<noteq> ?tmp \<Longrightarrow> fs' p = fs p" "cs_remove_ok env \<Longrightarrow> fs' ?tmp = None"
        using fails d assms
        by (auto simp: SaveClientFile_def os_WriteFile_def os_Rename_def os_Remove_def Let_def
            split: write_outcome.splits option.splits if_splits)
      with d(3) failed show thesis by blast
    qed
  qed
qed

text \<open>What is assumed of the codec: it reads what it wrote, and a file it wrote without proxies, which has
  no key of the old format at its root, as the old format's empty value.\<close>

definition yaml_ok :: "client_yaml \<Rightarrow> bool" where
  "yaml_ok y \<longleftrightarrow> (\<forall>f d. cy_marshal y f = Some d \<longrightarrow> cy_unmarshal y d = Some f
     \<and> (fu_Proxies f = [] \<longrightarrow> cy_legacy y d = Some zero_config))"

lemma load_legacy_zero [simp]: "load_legacy zero_config = []"
  by (simp add: load_legacy_def trimCfg_def zero_config_def Normalize_empty)

lemma LoadClientFile_saved:
  assumes "yaml_ok y" "SaveClientFile y env path ps rp rc fs = (None, fs')"
  shows "LoadClientFile y True path fs' = Inr (map saved_cfg ps, map trimReverseProv rp, map trimReverseCon rc)"
  using assms(2)
proof (cases rule: SaveClientFile_cases)
  case (saved data tmp)
  then have "cy_unmarshal y data = Some \<lparr>fu_Version = 2, fu_Proxies = map saved_cfg ps,
      fu_ReverseProviders = map trimReverseProv rp, fu_ReverseConsumers = map trimReverseCon rc\<rparr>"
    "ps = [] \<longrightarrow> cy_legacy y data = Some zero_config"
    using assms(1) by (auto simp: yaml_ok_def)
  with saved show ?thesis by (auto simp: LoadClientFile_def Let_def)
qed simp_all

text \<open>A file that cannot be read or understood loses its reverse entries when the proxies are saved.\<close>

lemma SaveProxies_forgets:
  assumes "yaml_ok y" "LoadClientFile y ok path fs = Inl e" "SaveProxies y ok env path ps fs = (None, fs')"
  shows "LoadClientFile y True path fs' = Inr (map saved_cfg ps, [], [])"
  using assms LoadClientFile_saved [OF assms(1), of env path ps "[]" "[]" fs fs']
  by (simp add: SaveProxies_def loadReverseSidesOrEmpty_def)

lemma SaveProxies_keeps:
  assumes "yaml_ok y" "LoadClientFile y ok path fs = Inr (old, rp, rc)" "SaveProxies y ok env path ps fs = (None, fs')"
  shows "LoadClientFile y True path fs' = Inr (map saved_cfg ps, map trimReverseProv rp, map trimReverseCon rc)"
  using assms LoadClientFile_saved [OF assms(1), of env path ps rp rc fs fs']
  by (simp add: SaveProxies_def loadReverseSidesOrEmpty_def)

section \<open>Properties\<close>

text \<open>A codec of two files.\<close>

definition demo_yaml :: "fileUnified \<Rightarrow> fileUnified \<Rightarrow> client_yaml" where
  "demo_yaml f g = \<lparr>cy_unmarshal = (\<lambda>d. if d = ''y'' then Some f else if d = ''z'' then Some g else None),
     cy_legacy = (\<lambda>_. Some zero_config),
     cy_marshal = (\<lambda>h. if h = f then Some ''y'' else if h = g then Some ''z'' else None)\<rparr>"

lemma demo_yaml_ok: "yaml_ok (demo_yaml f g)"
  by (simp add: yaml_ok_def demo_yaml_def)

definition file_of :: "TunnelConfig list \<Rightarrow> fileUnified" where
  "file_of cs = \<lparr>fu_Version = 2, fu_Proxies = cs, fu_ReverseProviders = [], fu_ReverseConsumers = []\<rparr>"

definition save_works :: save_env where
  "save_works = \<lparr>cs_mkdir_ok = True, cs_temp = Some ''1'', cs_write = WriteOK, cs_sync_ok = True, cs_close_ok = True,
     cs_rename_ok = True, cs_remove_ok = True\<rparr>"


lemma demo_save:
  "f = file_of (map saved_cfg ps) \<or> g = file_of (map saved_cfg ps) \<Longrightarrow>
     fst (SaveClientFile (demo_yaml f g) save_works path ps [] [] fs) = None"
  by (auto simp: SaveClientFile_def demo_yaml_def file_of_def save_works_def os_WriteFile_def os_Rename_def Let_def)


end
