(* ===== verification/ClientUI.thy ===== *)
theory ClientUI
  imports ClientConfig StaticFiles
begin

text \<open>
  The client's web interface, \<open>internal/clientui/server.go\<close>, and the start of the client program,
  \<open>cmd/client/main.go\<close>. The state is the registry of forward tunnels, the manager of reverse tunnels and
  the files. Every action ends by writing the configuration file. A body decoded from a stream comes
  decoded, \<open>None\<close> when it is not understood. What the network, the operating system and the file system do,
  and the new ids, are the fields of \<open>ui_env\<close>. The program always gives the interface a reverse manager, so
  the branches for none are left out.
\<close>

declare map_of_eq_Some_iff [simp del]

section \<open>State and replies\<close>

record ui_state =
  ui_reg :: registry
  ui_rev :: rev_manager
  ui_files :: files

record ui_env =
  ue_yaml :: client_yaml
  ue_listen :: listen
  ue_close :: "string option"
  ue_rm :: rm_env
  ue_ends :: "string \<Rightarrow> rm_error option"
  ue_save :: save_env
  ue_abs :: "string option"

text \<open>The warning of a status is the error itself; its text is not modelled.\<close>

record MultiStatus =
  ms_Proxies :: "ProxyRow list"
  ms_ReverseProviders :: "ProviderRow list"
  ms_ReverseConsumers :: "ConsumerRow list"
  ms_IssuedReverseChannel :: string
  ms_ClientConfigFile :: string
  ms_PersistWarning :: "cc_error option"

datatype ui_error = RegistryError tunnel_error | ManagerError rm_error | BadBody | MissingID

datatype ui_reply =
    MethodNotAllowed
  | NoContent
  | ErrReply nat ui_error
  | OKReply MultiStatus
  | Static static_reply

definition reg_Status :: "registry \<Rightarrow> MultiStatus" where
  "reg_Status reg = \<lparr>ms_Proxies = reg_Snapshot reg, ms_ReverseProviders = [], ms_ReverseConsumers = [],
     ms_IssuedReverseChannel = [], ms_ClientConfigFile = [], ms_PersistWarning = None\<rparr>"

definition mergedTunnelStatus :: "ui_state \<Rightarrow> MultiStatus" where
  "mergedTunnelStatus s =
     (let st = reg_Status (ui_reg s);
          st = st\<lparr>ms_ReverseProviders := SnapshotProviders (ui_rev s),
                  ms_ReverseConsumers := SnapshotConsumers (ui_rev s)\<rparr>
      in st\<lparr>ms_IssuedReverseChannel := []\<rparr>)"

definition attachPersistResult :: "ui_env \<Rightarrow> string \<Rightarrow> MultiStatus \<Rightarrow> ui_state \<Rightarrow> MultiStatus \<times> ui_state" where
  "attachPersistResult env path st s =
     (let absPath = (case ue_abs env of None \<Rightarrow> path | Some p \<Rightarrow> p);
          st = st\<lparr>ms_ClientConfigFile := [], ms_PersistWarning := None\<rparr>;
          rp = PersistedProviders (ui_rev s); rc = PersistedConsumers (ui_rev s);
          (err, fs) = SaveClientFile (ue_yaml env) (ue_save env) path (PersistedConfigs (ui_reg s)) rp rc (ui_files s);
          s = s\<lparr>ui_files := fs\<rparr>
      in case err of
           Some e \<Rightarrow> (st\<lparr>ms_PersistWarning := Some e\<rparr>, s)
         | None \<Rightarrow> (st\<lparr>ms_ClientConfigFile := absPath\<rparr>, s))"

text \<open>How every action ends: the status, the channel it issued, the file.\<close>

definition finish :: "ui_env \<Rightarrow> string \<Rightarrow> string \<Rightarrow> ui_state \<Rightarrow> ui_reply \<times> ui_state" where
  "finish env path issued s =
     (let st = (mergedTunnelStatus s)\<lparr>ms_IssuedReverseChannel := issued\<rparr>;
          (st, s) = attachPersistResult env path st s
      in (OKReply st, s))"

section \<open>Forward tunnels\<close>

definition tunnelStart :: "ui_env \<Rightarrow> string \<Rightarrow> string \<Rightarrow> TunnelConfig option \<Rightarrow> ui_state \<Rightarrow> ui_reply \<times> ui_state" where
  "tunnelStart env path meth bod s =
     (if meth \<noteq> ''POST'' then (MethodNotAllowed, s)
      else (case bod of
              None \<Rightarrow> (ErrReply 400 BadBody, s)
            | Some cfg \<Rightarrow>
                let (err, reg) = reg_Start (ue_listen env) cfg (ui_reg s);
                    s = s\<lparr>ui_reg := reg\<rparr>
                in case err of
                     Some e \<Rightarrow> (ErrReply 400 (RegistryError e), s)
                   | None \<Rightarrow> finish env path [] s))"

record stopBody =
  sb_ID :: string
  sb_StopAll :: bool

definition decode_stop :: "string \<Rightarrow> stopBody option" where
  "decode_stop raw =
     (case json_members raw of
        None \<Rightarrow> None
      | Some kvs \<Rightarrow>
          (case (str_field ''id'' kvs [], bool_field ''stop_all'' kvs False) of
             (Some i, Some b) \<Rightarrow> Some \<lparr>sb_ID = i, sb_StopAll = b\<rparr>
           | _ \<Rightarrow> None))"

definition tunnelStop :: "ui_env \<Rightarrow> string \<Rightarrow> string \<Rightarrow> string \<Rightarrow> ui_state \<Rightarrow> ui_reply \<times> ui_state" where
  "tunnelStop env path meth raw s =
     (if meth \<noteq> ''POST'' then (MethodNotAllowed, s)
      else
        let stop = (\<lambda>i. s\<lparr>ui_reg := snd (reg_Stop (ue_close env) i (ui_reg s))\<rparr>)
        in if trim_space raw = [] then finish env path [] (stop DefaultSingleProxyID)
           else (case decode_stop raw of
                   None \<Rightarrow> (ErrReply 400 BadBody, s)
                 | Some req \<Rightarrow>
                     finish env path []
                       (if sb_StopAll req then s\<lparr>ui_reg := reg_StopAll (ui_reg s)\<rparr>
                        else if trim_space (sb_ID req) \<noteq> [] then stop (trim_space (sb_ID req))
                        else stop DefaultSingleProxyID)))"

text \<open>The body of the other requests is the id they are about.\<close>

definition tunnelRemove :: "ui_env \<Rightarrow> string \<Rightarrow> string \<Rightarrow> string option \<Rightarrow> ui_state \<Rightarrow> ui_reply \<times> ui_state" where
  "tunnelRemove env path meth bod s =
     (if meth \<noteq> ''POST'' then (MethodNotAllowed, s)
      else (case bod of
              None \<Rightarrow> (ErrReply 400 BadBody, s)
            | Some i \<Rightarrow>
                let i = trim_space i
                in if i = [] then (ErrReply 400 MissingID, s)
                   else
                     let (err, reg) = reg_Remove i (ui_reg s);
                         s = s\<lparr>ui_reg := reg\<rparr>
                     in case err of
                          Some e \<Rightarrow> (ErrReply 400 (RegistryError e), s)
                        | None \<Rightarrow> finish env path [] s))"

definition tunnelAggregateStatus :: "string \<Rightarrow> ui_state \<Rightarrow> ui_reply \<times> ui_state" where
  "tunnelAggregateStatus meth s =
     (if meth \<noteq> ''GET'' then (MethodNotAllowed, s) else (OKReply (mergedTunnelStatus s), s))"

section \<open>Reverse tunnels\<close>

definition reverseProviderStart ::
  "ui_env \<Rightarrow> string \<Rightarrow> string \<Rightarrow> ProviderPersist option \<Rightarrow> ui_state \<Rightarrow> ui_reply \<times> ui_state" where
  "reverseProviderStart env path meth bod s =
     (if meth \<noteq> ''POST'' then (MethodNotAllowed, s)
      else (case bod of
              None \<Rightarrow> (ErrReply 400 BadBody, s)
            | Some cfg \<Rightarrow>
                let cfg = MergePreserveProviderTunnelID cfg (ui_rev s);
                    (res, rev) = StartProvider (ue_rm env) cfg (ui_rev s);
                    s = s\<lparr>ui_rev := rev\<rparr>
                in case res of
                     Inl e \<Rightarrow> (ErrReply 400 (ManagerError e), s)
                   | Inr ch \<Rightarrow> finish env path ch s))"

definition reverseConsumerStart ::
  "ui_env \<Rightarrow> string \<Rightarrow> string \<Rightarrow> ConsumerPersist option \<Rightarrow> ui_state \<Rightarrow> ui_reply \<times> ui_state" where
  "reverseConsumerStart env path meth bod s =
     (if meth \<noteq> ''POST'' then (MethodNotAllowed, s)
      else (case bod of
              None \<Rightarrow> (ErrReply 400 BadBody, s)
            | Some cfg \<Rightarrow>
                let (err, rev) = StartConsumer (ue_rm env) cfg (ui_rev s);
                    s = s\<lparr>ui_rev := rev\<rparr>
                in case err of
                     Some e \<Rightarrow> (ErrReply 400 (ManagerError e), s)
                   | None \<Rightarrow> finish env path [] s))"

text \<open>The four actions on one entry differ in the manager's operation only.\<close>

definition entry_action ::
  "(string \<Rightarrow> rev_manager \<Rightarrow> rev_manager) \<Rightarrow> ui_env \<Rightarrow> string \<Rightarrow> string \<Rightarrow> string option \<Rightarrow> ui_state
     \<Rightarrow> ui_reply \<times> ui_state" where
  "entry_action operation env path meth bod s =
     (if meth \<noteq> ''POST'' then (MethodNotAllowed, s)
      else (case bod of
              None \<Rightarrow> (ErrReply 400 BadBody, s)
            | Some i \<Rightarrow>
                if trim_space i = [] then (ErrReply 400 MissingID, s)
                else finish env path [] (s\<lparr>ui_rev := operation i (ui_rev s)\<rparr>)))"

definition reverseProviderStop :: "ui_env \<Rightarrow> string \<Rightarrow> string \<Rightarrow> string option \<Rightarrow> ui_state \<Rightarrow> ui_reply \<times> ui_state" where
  "reverseProviderStop env = entry_action (StopProvider (re_runErr (ue_rm env))) env"

definition reverseProviderRemove :: "ui_env \<Rightarrow> string \<Rightarrow> string \<Rightarrow> string option \<Rightarrow> ui_state \<Rightarrow> ui_reply \<times> ui_state" where
  "reverseProviderRemove env = entry_action (RemoveProvider (re_runErr (ue_rm env))) env"

definition reverseConsumerStop :: "ui_env \<Rightarrow> string \<Rightarrow> string \<Rightarrow> string option \<Rightarrow> ui_state \<Rightarrow> ui_reply \<times> ui_state" where
  "reverseConsumerStop env = entry_action (StopConsumer (re_runErr (ue_rm env))) env"

definition reverseConsumerRemove :: "ui_env \<Rightarrow> string \<Rightarrow> string \<Rightarrow> string option \<Rightarrow> ui_state \<Rightarrow> ui_reply \<times> ui_state" where
  "reverseConsumerRemove env = entry_action (RemoveConsumer (re_runErr (ue_rm env))) env"

definition reverseStopAll :: "ui_env \<Rightarrow> string \<Rightarrow> string \<Rightarrow> ui_state \<Rightarrow> ui_reply \<times> ui_state" where
  "reverseStopAll env path meth s =
     (if meth \<noteq> ''POST'' then (MethodNotAllowed, s)
      else finish env path [] (s\<lparr>ui_rev := rm_StopAll (ue_ends env) (ui_rev s)\<rparr>))"

section \<open>Routes\<close>

datatype ui_route =
    U_Start "TunnelConfig option"
  | U_Stop string
  | U_Remove "string option"
  | U_Status
  | U_ProviderStart "ProviderPersist option"
  | U_ProviderStop "string option"
  | U_ProviderRemove "string option"
  | U_ConsumerStart "ConsumerPersist option"
  | U_ConsumerStop "string option"
  | U_ConsumerRemove "string option"
  | U_StopAll
  | U_Static node string

definition cors :: "string \<Rightarrow> (ui_state \<Rightarrow> ui_reply \<times> ui_state) \<Rightarrow> ui_state \<Rightarrow> ui_reply \<times> ui_state" where
  "cors meth next_handler s = (if meth = ''OPTIONS'' then (NoContent, s) else next_handler s)"

fun ui_serve :: "ui_env \<Rightarrow> string \<Rightarrow> string \<Rightarrow> ui_route \<Rightarrow> ui_state \<Rightarrow> ui_reply \<times> ui_state" where
  "ui_serve env path meth (U_Start b) = cors meth (tunnelStart env path meth b)"
| "ui_serve env path meth (U_Stop raw) = cors meth (tunnelStop env path meth raw)"
| "ui_serve env path meth (U_Remove b) = cors meth (tunnelRemove env path meth b)"
| "ui_serve env path meth U_Status = cors meth (tunnelAggregateStatus meth)"
| "ui_serve env path meth (U_ProviderStart b) = cors meth (reverseProviderStart env path meth b)"
| "ui_serve env path meth (U_ProviderStop b) = cors meth (reverseProviderStop env path meth b)"
| "ui_serve env path meth (U_ProviderRemove b) = cors meth (reverseProviderRemove env path meth b)"
| "ui_serve env path meth (U_ConsumerStart b) = cors meth (reverseConsumerStart env path meth b)"
| "ui_serve env path meth (U_ConsumerStop b) = cors meth (reverseConsumerStop env path meth b)"
| "ui_serve env path meth (U_ConsumerRemove b) = cors meth (reverseConsumerRemove env path meth b)"
| "ui_serve env path meth U_StopAll = cors meth (reverseStopAll env path meth)"
| "ui_serve env path meth (U_Static dist file) = Pair (Static (client_CreateFileServer dist file))"

section \<open>Starting\<close>

text \<open>The \<open>n\<close>-th entry of each list meets \<open>net n\<close> and \<open>rm n\<close>.\<close>

definition tryBootstrapFromYAML ::
  "client_yaml \<Rightarrow> bool \<Rightarrow> (nat \<Rightarrow> listen) \<Rightarrow> (nat \<Rightarrow> rm_env) \<Rightarrow> (nat \<Rightarrow> rm_env) \<Rightarrow> string \<Rightarrow> ui_state \<Rightarrow> ui_state" where
  "tryBootstrapFromYAML y readable net rmP rmC path s =
     (case LoadClientFile y readable path (ui_files s) of
        Inl _ \<Rightarrow> s
      | Inr (proxies, rprov, rcon) \<Rightarrow>
          s\<lparr>ui_reg := reg_Bootstrap net 0 proxies (ui_reg s),
            ui_rev := BootstrapConsumers rmC 0 rcon (BootstrapProviders rmP 0 rprov (ui_rev s))\<rparr>)"

text \<open>\<open>Run\<close> up to the server: the state in which the interface begins.\<close>

definition ui_Run ::
  "client_yaml \<Rightarrow> bool \<Rightarrow> (nat \<Rightarrow> listen) \<Rightarrow> (nat \<Rightarrow> rm_env) \<Rightarrow> (nat \<Rightarrow> rm_env) \<Rightarrow> string \<Rightarrow> files \<Rightarrow> ui_state" where
  "ui_Run y readable net rmP rmC path fs =
     tryBootstrapFromYAML y readable net rmP rmC (filepath_Clean path)
       \<lparr>ui_reg = NewRegistry, ui_rev = NewReverseManager, ui_files = fs\<rparr>"

fun split_last_colon :: "string \<Rightarrow> string \<Rightarrow> (string \<times> string) option" where
  "split_last_colon port [] = None"
| "split_last_colon port (c # rest) =
     (if c = CHR '':'' then Some (rev rest, port) else split_last_colon (c # port) rest)"

definition splitHostPort :: "string \<Rightarrow> string \<times> string" where
  "splitHostPort addr =
     (case split_last_colon [] (rev addr) of None \<Rightarrow> (addr, []) | Some hp \<Rightarrow> hp)"

definition clientDashboardURL :: "string \<Rightarrow> string" where
  "clientDashboardURL listenAddr =
     (let (host, port) =
        (if listenAddr \<noteq> [] \<and> hd listenAddr = CHR '':'' then (''127.0.0.1'', tl listenAddr)
         else if listenAddr \<noteq> [] then splitHostPort listenAddr else (''127.0.0.1'', []))
      in if port \<noteq> [] then ''http://'' @ host @ '':'' @ port @ ''/'' else ''http://'' @ listenAddr @ ''/'')"

text \<open>The command that opens the browser; whether it starts is ignored.\<close>

definition openBrowser :: "string \<Rightarrow> string \<Rightarrow> string list" where
  "openBrowser goos url =
     (if goos = ''windows'' then [''rundll32'', ''url.dll,FileProtocolHandler'', url]
      else if goos = ''darwin'' then [''open'', url]
      else [''xdg-open'', url])"

section \<open>The client program\<close>

record cli_flags =
  fl_server :: string
  fl_proxyID :: string
  fl_localPort :: int
  fl_clientYAML :: string
  fl_reverseProvider :: bool
  fl_reverseConsumer :: bool
  fl_rtLocalHost :: string
  fl_rtLocalPort :: int
  fl_rtListen :: string
  fl_rtChannel :: string
  fl_apiKey :: string

text \<open>What the flags ask for, with the arguments it is run with.\<close>

datatype cli_mode =
    Usage
  | RunConsumer string string string string
  | RunProvider string string string int
  | RunHeadless TunnelConfig string
  | RunUI string

definition headless_cfg :: "string \<Rightarrow> string \<Rightarrow> int \<Rightarrow> string \<Rightarrow> TunnelConfig" where
  "headless_cfg serverURL proxyID localPort apiKey =
     \<lparr>tc_ID = DefaultSingleProxyID, tc_ServerURL = serverURL, tc_ProxyID = proxyID, tc_LocalPort = localPort,
       tc_APIKey = apiKey\<rparr>"

definition client_main :: "cli_flags \<Rightarrow> cli_mode" where
  "client_main f =
     (let clientCfgPath = filepath_Clean (fl_clientYAML f)
      in if fl_reverseConsumer f then
           if trim_space (fl_rtChannel f) = [] \<or> trim_space (fl_rtListen f) = [] then Usage
           else RunConsumer (fl_server f) (trim_space (fl_apiKey f)) (fl_rtListen f) (fl_rtChannel f)
         else if fl_reverseProvider f then
           if fl_rtLocalPort f \<le> 0 then Usage
           else RunProvider (fl_server f) (trim_space (fl_apiKey f)) (fl_rtLocalHost f) (fl_rtLocalPort f)
         else if fl_localPort f > 0 then
           RunHeadless (headless_cfg (fl_server f) (fl_proxyID f) (fl_localPort f) (trim_space (fl_apiKey f))) clientCfgPath
         else RunUI clientCfgPath)"

text \<open>\<open>runHeadless\<close> up to waiting for a signal: the error that ends it, or the registry; the result of
  writing the file; the files.\<close>

definition runHeadless ::
  "client_yaml \<Rightarrow> bool \<Rightarrow> save_env \<Rightarrow> listen \<Rightarrow> TunnelConfig \<Rightarrow> string \<Rightarrow> files
     \<Rightarrow> (tunnel_error + registry \<times> cc_error option) \<times> files" where
  "runHeadless y readable senv net_Listen cfg path fs =
     (case reg_Start net_Listen cfg NewRegistry of
        (Some e, _) \<Rightarrow> (Inl e, fs)
      | (None, reg) \<Rightarrow>
          (case SaveProxies y readable senv path (PersistedConfigs reg) fs of
             (err, fs) \<Rightarrow> (Inr (reg, err), fs)))"

lemma split_last_colon_append:
  "CHR '':'' \<notin> set s \<Longrightarrow> split_last_colon port (s @ CHR '':'' # rest) = Some (rev rest, rev s @ port)"
  by (induction s arbitrary: port) auto

lemma splitHostPort_colon: "CHR '':'' \<notin> set port \<Longrightarrow> splitHostPort (host @ CHR '':'' # port) = (host, port)"
  by (simp add: splitHostPort_def split_last_colon_append)

text \<open>The browser is sent to the address the interface listens on.\<close>

lemma dashboard_of_port: "port \<noteq> [] \<Longrightarrow> clientDashboardURL (CHR '':'' # port) = ''http://127.0.0.1:'' @ port @ ''/''"
  by (simp add: clientDashboardURL_def)

lemma dashboard_of_host:
  "host \<noteq> [] \<Longrightarrow> hd host \<noteq> CHR '':'' \<Longrightarrow> port \<noteq> [] \<Longrightarrow> CHR '':'' \<notin> set port \<Longrightarrow>
     clientDashboardURL (host @ CHR '':'' # port) = ''http://'' @ host @ '':'' @ port @ ''/''"
  by (simp add: clientDashboardURL_def splitHostPort_colon)

text \<open>A run without the interface leaves its one tunnel as the file's whole list of forward tunnels; the
  reverse entries stay.\<close>

lemma headless_replaces_list:
  assumes "yaml_ok y" "LoadClientFile y readable path fs = Inr (old, rp, rc)"
    and "runHeadless y readable senv net_Listen cfg path fs = (Inr (reg, None), fs')"
  shows "LoadClientFile y True path fs' =
    Inr (map saved_cfg (PersistedConfigs reg), map trimReverseProv rp, map trimReverseCon rc)"
proof -
  have "SaveProxies y readable senv path (PersistedConfigs reg) fs = (None, fs')"
    using assms(3) by (auto simp: runHeadless_def split: prod.splits option.splits)
  then show ?thesis by (rule SaveProxies_keeps [OF assms(1,2)])
qed

lemma headless_list:
  assumes "runHeadless y readable senv net_Listen cfg path fs = (Inr (reg, err), fs')"
  shows "\<exists>c. start_check cfg NewRegistry = Inr c \<and> PersistedConfigs reg = [c]"
proof -
  have s: "reg_Start net_Listen cfg NewRegistry = (None, reg)"
    using assms by (auto simp: runHeadless_def split: prod.splits option.splits)
  then obtain c where c: "start_check cfg NewRegistry = Inr c" "start_locked net_Listen c NewRegistry = (None, reg)"
    by (auto simp: reg_Start_def split: sum.splits)
  then show ?thesis
    by (auto simp: start_locked_def NewRegistry_def PersistedConfigs_def Let_def split: prod.splits option.splits)
qed

end
