(* ===== verification/ClientClaims.thy ===== *)
theory ClientClaims
  imports ClientUI
begin

text \<open>
  The client as a whole: the registry, the reverse manager and the file behind the web interface. What a
  restart brings back, and what it does not.
\<close>

declare map_of_eq_Some_iff [simp del]

section \<open>Reachable states\<close>

definition ui_ok :: "ui_state \<Rightarrow> bool" where
  "ui_ok s \<longleftrightarrow> reg_ok (ui_reg s) \<and> rm_ok (ui_rev s) \<and> rev_normal (ui_rev s)"

lemma ui_okD:
  assumes "ui_ok s"
  shows "reg_ok (ui_reg s)" "rm_ok (ui_rev s)" "rev_normal (ui_rev s)"
  using assms by (simp_all add: ui_ok_def)

definition ui_init :: "ui_state \<Rightarrow> bool" where
  "ui_init s \<longleftrightarrow> (\<exists>y readable net rmP rmC path fs.
     (\<forall>n. plain_id (re_newID (rmP n))) \<and> s = ui_Run y readable net rmP rmC path fs)"

text \<open>Requests, and in between what tunnels, listeners and connections do.\<close>

inductive ui_step :: "ui_state \<Rightarrow> ui_state \<Rightarrow> bool" where
  request: "plain_id (re_newID (ue_rm env)) \<Longrightarrow> ui_serve env path meth rt s = (rep, s') \<Longrightarrow> ui_step s s'"
| tunnels: "reg_step (ui_reg s) reg \<Longrightarrow> ui_step s (s\<lparr>ui_reg := reg\<rparr>)"
| provider_ends: "ui_step s (s\<lparr>ui_rev := provider_ended w i e (ui_rev s)\<rparr>)"
| consumer_ends: "ui_step s (s\<lparr>ui_rev := consumer_ended w i e (ui_rev s)\<rparr>)"
| bridge_opens: "mget (rm_consumers (ui_rev s)) i = Some b \<Longrightarrow>
    ui_step s (s\<lparr>ui_rev := put_consumer i (bridge_opened b) (ui_rev s)\<rparr>)"
| bridge_closes: "mget (rm_consumers (ui_rev s)) i = Some b \<Longrightarrow>
    ui_step s (s\<lparr>ui_rev := put_consumer i (bridge_closed b) (ui_rev s)\<rparr>)"

lemma rev_step_ok:
  assumes "ui_ok s" "rm_step (ui_rev s) r" "made_from (ui_rev s) r"
  shows "ui_ok (s\<lparr>ui_rev := r\<rparr>)"
  using assms rm_step_ok [OF assms(2)] rev_normal_from [OF _ assms(3)] by (simp add: ui_ok_def)

lemma reg_only_ok: "ui_ok s \<Longrightarrow> reg_ok reg \<Longrightarrow> ui_ok (s\<lparr>ui_reg := reg\<rparr>)"
  by (simp add: ui_ok_def)

lemma files_ok: "ui_ok (s\<lparr>ui_files := fs\<rparr>) = ui_ok s"
  by (simp add: ui_ok_def)

section \<open>Requests\<close>

text \<open>The end of an action writes the persisted entries; nothing else changes.\<close>

lemma finish_result:
  assumes "finish env path issued s = (rep, s')"
  obtains st fs err where "rep = OKReply st" "s' = s\<lparr>ui_files := fs\<rparr>" "ms_PersistWarning st = err"
    "SaveClientFile (ue_yaml env) (ue_save env) path (PersistedConfigs (ui_reg s)) (PersistedProviders (ui_rev s))
       (PersistedConsumers (ui_rev s)) (ui_files s) = (err, fs)"
proof -
  obtain err fs where e: "SaveClientFile (ue_yaml env) (ue_save env) path (PersistedConfigs (ui_reg s))
      (PersistedProviders (ui_rev s)) (PersistedConsumers (ui_rev s)) (ui_files s) = (err, fs)" by (meson surj_pair)
  have "\<exists>st. finish env path issued s = (OKReply st, s\<lparr>ui_files := fs\<rparr>) \<and> ms_PersistWarning st = err"
    by (cases err) (simp_all add: finish_def attachPersistResult_def e)
  with assms that e show thesis by auto
qed

text \<open>What a request does before it ends: nothing, or one operation of the registry or the manager.\<close>

definition reg_request :: "ui_env \<Rightarrow> registry \<Rightarrow> registry \<Rightarrow> bool" where
  "reg_request env reg reg' \<longleftrightarrow> (\<exists>cfg. reg' = snd (reg_Start (ue_listen env) cfg reg))
     \<or> (\<exists>i. reg' = snd (reg_Stop (ue_close env) i reg)) \<or> reg' = reg_StopAll reg \<or> (\<exists>i. reg' = snd (reg_Remove i reg))"

definition rev_request :: "ui_env \<Rightarrow> rev_manager \<Rightarrow> rev_manager \<Rightarrow> bool" where
  "rev_request env r r' \<longleftrightarrow> rm_step r r' \<and> (plain_id (re_newID (ue_rm env)) \<longrightarrow> made_from r r')"

lemma rev_requests:
  "rev_request env r (snd (StartProvider (ue_rm env) p r))" "rev_request env r (snd (StartConsumer (ue_rm env) c r))"
  "rev_request env r (StopProvider e i r)" "rev_request env r (StopConsumer e i r)"
  "rev_request env r (RemoveProvider e i r)" "rev_request env r (RemoveConsumer e i r)"
  "rev_request env r (rm_StopAll errs r)"
  using made_from_StartProvider made_from_StartConsumer made_from_Stop made_from_Remove made_from_StopAll
  by (auto simp: rev_request_def intro: rm_step.intros)

lemma reg_requests:
  "reg_request env reg (snd (reg_Start (ue_listen env) cfg reg))" "reg_request env reg (snd (reg_Stop (ue_close env) i reg))"
  "reg_request env reg (reg_StopAll reg)" "reg_request env reg (snd (reg_Remove i reg))"
  by (auto simp: reg_request_def)

definition acted :: "ui_env \<Rightarrow> ui_state \<Rightarrow> ui_state \<Rightarrow> bool" where
  "acted env s s1 \<longleftrightarrow> s1 = s \<or> (\<exists>reg. reg_request env (ui_reg s) reg \<and> s1 = s\<lparr>ui_reg := reg\<rparr>)
     \<or> (\<exists>r. rev_request env (ui_rev s) r \<and> s1 = s\<lparr>ui_rev := r\<rparr>)"

definition request_shape :: "ui_env \<Rightarrow> string \<Rightarrow> string \<Rightarrow> ui_state \<Rightarrow> ui_reply \<times> ui_state \<Rightarrow> bool" where
  "request_shape env path meth s res \<longleftrightarrow> (\<exists>s1. acted env s s1 \<and>
     ((snd res = s1 \<and> (meth = ''POST'' \<longrightarrow> (\<forall>st. fst res \<noteq> OKReply st)))
      \<or> (\<exists>issued. res = finish env path issued s1)))"

lemma shape_plain:
  "(meth = ''POST'' \<Longrightarrow> (\<forall>st. rep \<noteq> OKReply st)) \<Longrightarrow> acted env s s1 \<Longrightarrow> request_shape env path meth s (rep, s1)"
  by (auto simp: request_shape_def)

lemma shape_finish: "acted env s s1 \<Longrightarrow> request_shape env path meth s (finish env path issued s1)"
  by (auto simp: request_shape_def)

lemma acted_same: "acted env s s"
  by (simp add: acted_def)

lemma acted_reg: "reg_request env (ui_reg s) reg \<Longrightarrow> acted env s (s\<lparr>ui_reg := reg\<rparr>)"
  by (auto simp: acted_def)

lemma acted_rev: "rev_request env (ui_rev s) r \<Longrightarrow> acted env s (s\<lparr>ui_rev := r\<rparr>)"
  by (auto simp: acted_def)

lemmas shape_rules = shape_plain shape_finish acted_same acted_reg acted_rev reg_requests rev_requests

lemma tunnelStart_shape: "request_shape env path meth s (tunnelStart env path meth b s)"
proof (cases b)
  case (Some cfg)
  obtain err reg where r: "reg_Start (ue_listen env) cfg (ui_reg s) = (err, reg)" by (meson surj_pair)
  have a: "acted env s (s\<lparr>ui_reg := reg\<rparr>)"
    using acted_reg [OF reg_requests(1), of env s cfg] by (simp add: r)
  show ?thesis
    by (cases err) (auto simp: tunnelStart_def Some r intro: shape_plain acted_same shape_finish a)
qed (auto simp: tunnelStart_def intro: shape_plain acted_same)

lemma tunnelStop_shape: "request_shape env path meth s (tunnelStop env path meth raw s)"
proof -
  have a: "acted env s (s\<lparr>ui_reg := snd (reg_Stop (ue_close env) i (ui_reg s))\<rparr>)"
    "acted env s (s\<lparr>ui_reg := reg_StopAll (ui_reg s)\<rparr>)" for i
    by (rule acted_reg reg_requests)+
  show ?thesis
    by (auto simp: tunnelStop_def Let_def split: option.split intro: shape_plain acted_same shape_finish a)
qed

lemma tunnelRemove_shape: "request_shape env path meth s (tunnelRemove env path meth b s)"
proof (cases b)
  case (Some i)
  obtain err reg where r: "reg_Remove (trim_space i) (ui_reg s) = (err, reg)" by (meson surj_pair)
  have a: "acted env s (s\<lparr>ui_reg := reg\<rparr>)"
    using acted_reg [OF reg_requests(4), of env s "trim_space i"] by (simp add: r)
  show ?thesis
    by (cases err) (auto simp: tunnelRemove_def Some r Let_def intro: shape_plain acted_same shape_finish a)
qed (auto simp: tunnelRemove_def intro: shape_plain acted_same)

lemma providerStart_shape: "request_shape env path meth s (reverseProviderStart env path meth b s)"
proof (cases b)
  case (Some cfg)
  let ?cfg = "MergePreserveProviderTunnelID cfg (ui_rev s)"
  obtain res rev where r: "StartProvider (ue_rm env) ?cfg (ui_rev s) = (res, rev)" by (meson surj_pair)
  have a: "acted env s (s\<lparr>ui_rev := rev\<rparr>)"
    using acted_rev [OF rev_requests(1), of env s ?cfg] by (simp add: r)
  show ?thesis
    by (cases res) (auto simp: reverseProviderStart_def Some r intro: shape_plain acted_same shape_finish a)
qed (auto simp: reverseProviderStart_def intro: shape_plain acted_same)

lemma consumerStart_shape: "request_shape env path meth s (reverseConsumerStart env path meth b s)"
proof (cases b)
  case (Some cfg)
  obtain err rev where r: "StartConsumer (ue_rm env) cfg (ui_rev s) = (err, rev)" by (meson surj_pair)
  have a: "acted env s (s\<lparr>ui_rev := rev\<rparr>)"
    using acted_rev [OF rev_requests(2), of env s cfg] by (simp add: r)
  show ?thesis
    by (cases err) (auto simp: reverseConsumerStart_def Some r intro: shape_plain acted_same shape_finish a)
qed (auto simp: reverseConsumerStart_def intro: shape_plain acted_same)

lemma entry_action_shape:
  "(\<And>i. rev_request env (ui_rev s) (operation i (ui_rev s))) \<Longrightarrow>
     request_shape env path meth s (entry_action operation env path meth b s)"
  by (auto simp: entry_action_def split: option.split intro: shape_plain acted_same shape_finish acted_rev)

text \<open>Every request has this shape.\<close>

lemma ui_serve_shape: "request_shape env path meth s (ui_serve env path meth rt s)"
proof (cases "meth = ''OPTIONS'' \<or> rt = U_Status \<or> (\<exists>dist file. rt = U_Static dist file)")
  case True
  then have "\<exists>rep. ui_serve env path meth rt s = (rep, s) \<and> (meth = ''POST'' \<longrightarrow> (\<forall>st. rep \<noteq> OKReply st))"
    by (cases rt) (auto simp: cors_def tunnelAggregateStatus_def)
  then show ?thesis using shape_plain [OF _ acted_same] by metis
next
  case False
  then have m: "cors meth h s = h s" for h by (simp add: cors_def)
  have "request_shape env path meth s (reverseStopAll env path meth s)"
    by (auto simp: reverseStopAll_def intro: shape_plain acted_same shape_finish acted_rev rev_requests)
  with False show ?thesis
    by (cases rt) (auto simp: m tunnelStart_shape tunnelStop_shape tunnelRemove_shape providerStart_shape consumerStart_shape
        reverseProviderStop_def reverseProviderRemove_def reverseConsumerStop_def reverseConsumerRemove_def
        intro: entry_action_shape rev_requests)
qed

lemma reg_request_ok: "reg_request env reg reg' \<Longrightarrow> reg_ok reg \<Longrightarrow> reg_ok reg'"
  by (auto simp: reg_request_def reg_ok_Start reg_ok_Stop reg_ok_StopAll reg_ok_Remove)

lemma acted_ok:
  assumes "acted env s s1" "plain_id (re_newID (ue_rm env))" "ui_ok s"
  shows "ui_ok s1"
  using assms by (auto simp: acted_def rev_request_def intro: reg_only_ok rev_step_ok reg_request_ok dest: ui_okD)

lemma ui_serve_ok:
  assumes "ui_ok s" "plain_id (re_newID (ue_rm env))" "ui_serve env path meth rt s = (rep, s')"
  shows "ui_ok s'"
proof -
  have sh: "request_shape env path meth s (rep, s')" using ui_serve_shape [of env path meth s rt] assms(3) by simp
  obtain s1 where s1: "acted env s s1"
    "(s' = s1 \<and> (meth = ''POST'' \<longrightarrow> (\<forall>st. rep \<noteq> OKReply st))) \<or> (\<exists>issued. (rep, s') = finish env path issued s1)"
    using sh unfolding request_shape_def by auto
  have ok: "ui_ok s1" by (rule acted_ok [OF s1(1) assms(2,1)])
  from s1(2) show ?thesis
  proof
    assume "\<exists>issued. (rep, s') = finish env path issued s1"
    then obtain issued where "finish env path issued s1 = (rep, s')" by metis
    then show ?thesis by (rule finish_result) (simp add: files_ok ok)
  qed (use ok in simp)
qed

lemma ui_step_ok: "ui_step s s' \<Longrightarrow> ui_ok s \<Longrightarrow> ui_ok s'"
proof (induction rule: ui_step.induct)
  case (request env path meth rt s rep s')
  then show ?case using ui_serve_ok by blast
next
  case (tunnels s reg)
  then show ?case using reg_step_ok [OF tunnels(1)] by (simp add: ui_ok_def)
next
  case (bridge_opens s i b)
  then have "made_from (ui_rev s) (put_consumer i (bridge_opened b) (ui_rev s))"
    by (auto simp: prov_from_def cons_from_def put_consumer_def bridge_opened_def split: if_splits)
  with bridge_opens show ?case using rev_step_ok [OF _ rm_step.c_opened] by blast
next
  case (bridge_closes s i b)
  then have "made_from (ui_rev s) (put_consumer i (bridge_closed b) (ui_rev s))"
    by (auto simp: prov_from_def cons_from_def put_consumer_def bridge_closed_def split: if_splits)
  with bridge_closes show ?case using rev_step_ok [OF _ rm_step.c_closed] by blast
qed (rule rev_step_ok, assumption, rule rm_step.intros, rule made_from_ended)+

lemma rev_normal_new: "rev_normal NewReverseManager"
  by (simp add: rev_normal_def NewReverseManager_def)

lemma ui_Run_ok: "(\<And>n. plain_id (re_newID (rmP n))) \<Longrightarrow> ui_ok (ui_Run y readable net rmP rmC path fs)"
  using rev_normal_from [OF rev_normal_from [OF rev_normal_new made_from_Bootstrap(1)] made_from_Bootstrap(2)]
  by (auto simp: ui_Run_def tryBootstrapFromYAML_def ui_ok_def reg_ok_new rm_ok_new rev_normal_new reg_ok_Bootstrap
      rm_ok_BootstrapProviders rm_ok_BootstrapConsumers split: sum.split)

abbreviation ui_reachable :: "ui_state \<Rightarrow> bool" where
  "ui_reachable \<equiv> reachable_from ui_init ui_step"

interpretation ui: invariant_system ui_init ui_step ui_ok
  by unfold_locales (auto simp: ui_init_def intro: ui_Run_ok ui_step_ok)

text \<open>A request answered with a status and no warning has written the entries of the state it leaves.\<close>

lemma request_saved:
  assumes "ui_serve env path ''POST'' rt s = (OKReply st, s')" "ms_PersistWarning st = None"
  shows "\<exists>fs. SaveClientFile (ue_yaml env) (ue_save env) path (PersistedConfigs (ui_reg s'))
      (PersistedProviders (ui_rev s')) (PersistedConsumers (ui_rev s')) fs = (None, ui_files s')"
proof -
  have "request_shape env path ''POST'' s (OKReply st, s')" using ui_serve_shape [of env path "''POST''" s rt] assms(1) by simp
  then obtain s1 issued where "finish env path issued s1 = (OKReply st, s')"
    unfolding request_shape_def by (metis fst_conv)
  then show ?thesis by (rule finish_result) (use assms(2) in auto)
qed

section \<open>Reading the entries back\<close>

lemma saved_zero_skipped:
  "reg_Bootstrap net n (saved_cfg zero_config # cs) items = reg_Bootstrap net (n + 1) cs items"
  by (simp add: saved_cfg_def zero_config_def trimCfg_def trimCopy_def tc_validate_def Normalize_empty Let_def)

lemma Bootstrap_saved:
  "list_all (\<lambda>c. c = zero_config \<or> cfg_clean c) cs \<Longrightarrow>
     reg_Bootstrap net n (map saved_cfg cs) items = reg_Bootstrap net n cs items"
proof (induction cs arbitrary: n items)
  case (Cons c cs)
  show ?case
  proof (cases "cfg_clean c")
    case True
    with Cons show ?thesis by (simp add: saved_cfg_clean reg_Bootstrap_clean del: reg_Bootstrap.simps)
  next
    case False
    with Cons have "c = zero_config" by simp
    with Cons show ?thesis by (simp add: saved_zero_skipped zero_config_skipped del: reg_Bootstrap.simps)
  qed
qed simp

lemma PersistedConfigs_shape:
  "reg_ok items \<Longrightarrow> list_all (\<lambda>c. c = zero_config \<or> cfg_clean c) (PersistedConfigs items)"
  using cfgs_shape by (auto simp: list_all_iff PersistedConfigs_def)

lemma LoadClientFile_Clean: "LoadClientFile y readable (filepath_Clean path) fs = LoadClientFile y readable path fs"
  by (simp add: LoadClientFile_def Clean_idem)

lemma persisted_normal:
  assumes "rm_ok r" "rev_normal r"
  shows "map trimReverseProv (PersistedProviders r) = PersistedProviders r"
    "map trimReverseCon (PersistedConsumers r) = PersistedConsumers r"
proof -
  have "prov_normal p" if "p \<in> set (PersistedProviders r)" for p
    using prov_cfg_facts [OF assms, of p] that by (simp add: PersistedProviders_def)
  then show "map trimReverseProv (PersistedProviders r) = PersistedProviders r"
    by (auto simp: trimReverseProv_normal intro: map_idI)
  have "cons_normal c" if "c \<in> set (PersistedConsumers r)" for c
    using cons_cfg_facts [OF assms, of c] that by (simp add: PersistedConsumers_def)
  then show "map trimReverseCon (PersistedConsumers r) = PersistedConsumers r"
    by (auto simp: trimReverseCon_normal intro: map_idI)
qed

section \<open>A port that is taken\<close>

lemma cfgs_of_mput: "set (cfgs_of (mput i it items)) \<subseteq> insert (ri_cfg it) (set (cfgs_of items))"
proof -
  have "set (mput i it items) \<subseteq> insert (i, it) (set items)"
    by (induction items) (auto split: if_splits)
  then show ?thesis by auto
qed

lemma start_locked_shape:
  "\<exists>it. snd (start_locked net_Listen d items) = mput (tc_ID d) it items
     \<and> (ri_cfg it = ri_cfg (inst_of items (tc_ID d)) \<or> ri_cfg it = d \<and> \<not> isl (net_Listen (loopback (tc_LocalPort d))))"
  by (cases "tc_validate d"; cases "net_Listen (loopback (tc_LocalPort d))")
    (auto simp: start_locked_def tn_Start_def Let_def)

lemma inst_of_cfg: "ri_cfg (inst_of items i) = zero_config \<or> ri_cfg (inst_of items i) \<in> set (cfgs_of items)"
proof (cases "mget items i")
  case (Some it)
  then have "(i, it) \<in> set items" by (rule map_of_SomeD)
  with Some show ?thesis by (force simp: inst_of_def)
qed (simp add: inst_of_def)

text \<open>A configuration whose port the system refuses does not get into the registry.\<close>

definition absent :: "TunnelConfig \<Rightarrow> registry \<Rightarrow> bool" where
  "absent c items \<longleftrightarrow> c \<notin> set (cfgs_of items)"

lemma absent_Start:
  assumes "absent c items" "cfg_clean c" "isl (net_Listen (loopback (tc_LocalPort c)))"
  shows "absent c (snd (reg_Start net_Listen cfg items))"
proof (cases "start_check cfg items")
  case (Inr d)
  obtain it where it: "snd (start_locked net_Listen d items) = mput (tc_ID d) it items"
    "ri_cfg it = ri_cfg (inst_of items (tc_ID d)) \<or> ri_cfg it = d \<and> \<not> isl (net_Listen (loopback (tc_LocalPort d)))"
    using start_locked_shape by blast
  then have "ri_cfg it \<noteq> c"
    using inst_of_cfg [of items "tc_ID d"] assms clean_not_zero [OF assms(2)] by (auto simp: absent_def simp del: set_map)
  with it(1) assms(1) show ?thesis
    using cfgs_of_mput [of "tc_ID d" it items] by (auto simp: reg_Start_def Inr absent_def simp del: set_map)
qed (use assms in \<open>simp add: reg_Start_def\<close>)

lemma absent_keep: "absent c items \<Longrightarrow> mget items i = Some it \<Longrightarrow> absent c (mput i (it\<lparr>ri_tun := t\<rparr>) items)"
  using cfgs_of_mput [of i "it\<lparr>ri_tun := t\<rparr>" items] map_of_SomeD [of items i it]
  by (force simp: absent_def)

lemma absent_request:
  assumes "reg_request env items items'" "absent c items" "cfg_clean c" "isl (ue_listen env (loopback (tc_LocalPort c)))"
  shows "absent c items'"
proof -
  have "absent c (snd (reg_Stop e i items))" for e i
    using assms(2) by (auto simp: reg_Stop_def Let_def case_prod_unfold absent_keep split: option.split)
  moreover have "absent c (reg_StopAll items)"
    using assms(2) by (auto simp: absent_def reg_StopAll_def image_iff split: prod.splits)
  moreover have "absent c (snd (reg_Remove i items))" for i
  proof -
    have "set (mdel j items) \<subseteq> set items" for j by (induction items) auto
    then have "absent c (mdel j items)" for j using assms(2) unfolding absent_def by fastforce
    then show ?thesis using assms(2) by (auto simp: reg_Remove_def Let_def split: option.split)
  qed
  ultimately show ?thesis
    using assms(1) absent_Start [where net_Listen = "ue_listen env", OF assms(2,3,4)] by (auto simp: reg_request_def)
qed

lemma absent_Bootstrap:
  assumes "cfg_clean c" "\<And>n. isl (net n (loopback (tc_LocalPort c)))"
  shows "absent c items \<Longrightarrow> absent c (reg_Bootstrap net n cs items)"
proof (induction cs arbitrary: n items)
  case (Cons d cs)
  have "absent c (snd (reg_Start (net n) cc items))" for cc
    by (rule absent_Start [where net_Listen = "net n", OF Cons.prems assms(1) assms(2)])
  with Cons show ?case by (auto simp: Let_def split: option.split)
qed simp

section \<open>An example\<close>

abbreviation demo_tunnel :: TunnelConfig where
  "demo_tunnel \<equiv> demo_cfg ''a'' 1"

definition demo_ui_env :: ui_env where
  "demo_ui_env = \<lparr>ue_yaml = demo_yaml (file_of [demo_tunnel]) (file_of [saved_cfg zero_config]),
     ue_listen = (\<lambda>_. Inl ''in use''), ue_close = None, ue_rm = demo_env, ue_ends = (\<lambda>_. None),
     ue_save = save_works, ue_abs = None\<rparr>"

definition stop_all_state :: "registry \<Rightarrow> files \<Rightarrow> ui_state" where
  "stop_all_state reg fs = \<lparr>ui_reg = reg, ui_rev = NewReverseManager, ui_files = fs\<rparr>"

lemma demo_plain: "plain_id (re_newID demo_env)"
  by (simp add: plain_id_def demo_env_def trim_space_plain space_heads_code space_lasts_code)

lemma demo_ui_sel [simp]:
  "ue_yaml demo_ui_env = demo_yaml (file_of [demo_tunnel]) (file_of [saved_cfg zero_config])"
  "ue_save demo_ui_env = save_works" "ue_rm demo_ui_env = demo_env" "isl (ue_listen demo_ui_env a)"
  by (simp_all add: demo_ui_env_def)

text \<open>Stopping all reverse tunnels of a manager without any, which writes the file.\<close>

lemma demo_stop_all:
  assumes "PersistedConfigs reg = [demo_tunnel] \<or> PersistedConfigs reg = [zero_config]"
  obtains st fs' where "ui_serve demo_ui_env ''c'' ''POST'' U_StopAll (stop_all_state reg fs) = (OKReply st, stop_all_state reg fs')"
    "ms_PersistWarning st = None"
proof -
  let ?s = "stop_all_state reg fs"
  have r: "rm_StopAll e NewReverseManager = NewReverseManager" "PersistedProviders NewReverseManager = []"
    "PersistedConsumers NewReverseManager = []" for e
    by (simp_all add: rm_StopAll_def NewReverseManager_def PersistedProviders_def PersistedConsumers_def)
  obtain rep s' where f: "finish demo_ui_env ''c'' [] ?s = (rep, s')" by (meson surj_pair)
  then have u: "ui_serve demo_ui_env ''c'' ''POST'' U_StopAll ?s = (rep, s')"
    by (simp add: cors_def reverseStopAll_def stop_all_state_def r)
  have "fst (SaveClientFile (ue_yaml demo_ui_env) (ue_save demo_ui_env) ''c'' (PersistedConfigs (ui_reg ?s))
      (PersistedProviders (ui_rev ?s)) (PersistedConsumers (ui_rev ?s)) (ui_files ?s)) = None"
    using assms saved_cfg_clean [OF demo_cfgs(2)] by (auto simp: stop_all_state_def r intro!: demo_save)
  with f u that show thesis by (auto simp: stop_all_state_def elim!: finish_result)
qed

lemma demo_new_tunnel: "reg_Start (demo_net 0) demo_tunnel NewRegistry =
    (None, [(''a'', \<lparr>ri_tun = NewTunnel\<lparr>tn_listener := Some (loopback 1), tn_activeCfg := demo_tunnel\<rparr>, ri_cfg = demo_tunnel\<rparr>)])"
  using reg_Start_new [OF reg_ok_new demo_cfgs(2), of "demo_net 0"]
  by (simp add: NewRegistry_def port_free_def demo_net_def demo_cfg_def)

lemma ui_initI: "(\<And>n. plain_id (re_newID (rmP n))) \<Longrightarrow> ui_init (ui_Run y readable net rmP rmC path fs)"
  unfolding ui_init_def by blast

lemma demo_ui_reachable: "ui_reachable (stop_all_state (snd (reg_Start (demo_net 0) demo_tunnel NewRegistry)) Map.empty)"
proof -
  let ?s = "stop_all_state NewRegistry Map.empty"
  have "?s = ui_Run (ue_yaml demo_ui_env) True demo_net (\<lambda>_. demo_env) (\<lambda>_. demo_env) ''c'' Map.empty"
    by (simp add: ui_Run_def tryBootstrapFromYAML_def LoadClientFile_def stop_all_state_def)
  then have "ui_init ?s" using ui_initI [of "\<lambda>_. demo_env"] demo_plain by metis
  then have "ui_reachable ?s" by (rule reachable_from.start)
  moreover have "reg_step (ui_reg ?s) (snd (reg_Start (demo_net 0) demo_tunnel NewRegistry))"
    unfolding stop_all_state_def ui_state.select_convs by (rule reg_step.r_start)
  ultimately have "ui_reachable (?s\<lparr>ui_reg := snd (reg_Start (demo_net 0) demo_tunnel NewRegistry)\<rparr>)"
    using reachable_from.step ui_step.tunnels by metis
  then show ?thesis by (simp add: stop_all_state_def)
qed

section \<open>Properties\<close>



text \<open>C40: A tunnel whose port is taken when the client starts is lost. If the file holds a valid
  configuration and the system refuses its port at the start, then after any later action that is
  answered without a warning the file no longer holds that configuration, as long as the port stays
  taken: merely stopping another tunnel deletes it.\<close>

theorem taken_port_deletes_tunnel:
  assumes "yaml_ok (ue_yaml env)" "LoadClientFile (ue_yaml env) True path fs = Inr (cs, rp, rc)" "c \<in> set cs" "cfg_clean c"
    and "\<And>n. isl (net n (loopback (tc_LocalPort c)))" "isl (ue_listen env (loopback (tc_LocalPort c)))"
    and "ui_serve env path ''POST'' rt (ui_Run (ue_yaml env) True net rmP rmC path fs) = (OKReply st, s')"
    and "ms_PersistWarning st = None"
  shows "\<exists>cs' rp' rc'. LoadClientFile (ue_yaml env) True path (ui_files s') = Inr (cs', rp', rc') \<and> c \<notin> set cs'"
proof -
  let ?s = "ui_Run (ue_yaml env) True net rmP rmC path fs"
  have "absent c NewRegistry" by (simp add: absent_def NewRegistry_def)
  then have "absent c (ui_reg ?s)"
    using absent_Bootstrap [where net = net, OF assms(4) assms(5)] by (simp add: ui_Run_def tryBootstrapFromYAML_def LoadClientFile_Clean assms(2))
  moreover have "reg_ok (ui_reg ?s)"
    by (auto simp: ui_Run_def tryBootstrapFromYAML_def reg_ok_new reg_ok_Bootstrap split: sum.split)
  moreover obtain s1 issued where s1: "acted env ?s s1" "finish env path issued s1 = (OKReply st, s')"
    using ui_serve_shape [of env path "''POST''" ?s rt] assms(7) unfolding request_shape_def by (metis fst_conv)
  ultimately have a: "absent c (ui_reg s1)" "reg_ok (ui_reg s1)"
    using absent_request [OF _ _ assms(4,6)] reg_request_ok by (auto simp: acted_def)
  from s1(2) have reg: "ui_reg s' = ui_reg s1" by (rule finish_result) simp
  obtain fs1 where "SaveClientFile (ue_yaml env) (ue_save env) path (PersistedConfigs (ui_reg s'))
      (PersistedProviders (ui_rev s')) (PersistedConsumers (ui_rev s')) fs1 = (None, ui_files s')"
    using request_saved [OF assms(7,8)] by blast
  note l = LoadClientFile_saved [OF assms(1) this]
  have "c \<noteq> saved_cfg d" if "d \<in> set (PersistedConfigs (ui_reg s1))" for d
  proof (cases "cfg_clean d")
    case True
    with a(1) that show ?thesis by (auto simp: saved_cfg_clean absent_def PersistedConfigs_def)
  next
    case False
    then have "d = zero_config" using PersistedConfigs_shape [OF a(2)] that by (auto simp: list_all_iff)
    then have "tc_LocalPort (saved_cfg d) = 0"
      by (simp add: saved_cfg_def trimCfg_def zero_config_def Let_def)
    then show ?thesis using cfg_cleanD(4) [OF assms(4)] by auto
  qed
  with l reg show ?thesis by auto
qed

theorem taken_port_deletes_tunnel_witness:
  "LoadClientFile (ue_yaml demo_ui_env) True ''c'' [''c'' \<mapsto> ''y''] = Inr ([demo_tunnel], [], [])
   \<and> (\<exists>st s'. ui_serve demo_ui_env ''c'' ''POST'' U_StopAll
         (ui_Run (ue_yaml demo_ui_env) True (\<lambda>_ _. Inl ''in use'') (\<lambda>_. demo_env)
            (\<lambda>_. demo_env) ''c'' [''c'' \<mapsto> ''y'']) = (OKReply st, s')
       \<and> (\<exists>cs' rp' rc'. LoadClientFile (ue_yaml demo_ui_env) True ''c'' (ui_files s') = Inr (cs', rp', rc')
            \<and> demo_tunnel \<notin> set cs'))"
proof
  let ?run = "ui_Run (ue_yaml demo_ui_env) True (\<lambda>_ _. Inl ''in use'') (\<lambda>_. demo_env)
            (\<lambda>_. demo_env) ''c'' [''c'' \<mapsto> ''y'']"
  let ?ghost = "[(''a'', \<lparr>ri_tun = NewTunnel\<lparr>tn_runErr := ''in use''\<rparr>, ri_cfg = zero_config\<rparr>)]"
  have c: "filepath_Clean ''c'' = ''c''" by code_simp
  have t: "trimCfg demo_tunnel = demo_tunnel" using demo_cfgs(2) by (simp add: trimCfg_eq cfg_cleanD)
  show l: "LoadClientFile (ue_yaml demo_ui_env) True ''c'' [''c'' \<mapsto> ''y''] = Inr ([demo_tunnel], [], [])"
    by (simp add: LoadClientFile_def c demo_yaml_def file_of_def t)
  have g: "snd (reg_Start (\<lambda>_. Inl ''in use'') demo_tunnel NewRegistry) = ?ghost"
    using reg_Start_new [OF reg_ok_new demo_cfgs(2), of "\<lambda>_. Inl ''in use''"]
    by (simp add: NewRegistry_def port_free_def demo_cfg_def)
  have "reg_Bootstrap (\<lambda>_ _. Inl ''in use'') 0 [demo_tunnel] NewRegistry = ?ghost"
    unfolding reg_Bootstrap_clean [OF demo_cfgs(2)] g by simp
  then have r: "?run = stop_all_state ?ghost [''c'' \<mapsto> ''y'']"
    by (simp add: ui_Run_def tryBootstrapFromYAML_def LoadClientFile_Clean l [unfolded demo_ui_sel] stop_all_state_def
        del: reg_Bootstrap.simps(2))
  have "PersistedConfigs ?ghost = [demo_tunnel] \<or> PersistedConfigs ?ghost = [zero_config]" by (simp add: PersistedConfigs_def)
  then obtain st fs' where u: "ui_serve demo_ui_env ''c'' ''POST'' U_StopAll ?run = (OKReply st, stop_all_state ?ghost fs')"
    "ms_PersistWarning st = None" unfolding r by (rule demo_stop_all)
  with taken_port_deletes_tunnel [where net = "\<lambda>_ _. Inl ''in use''", OF _ l _ demo_cfgs(2) _ _ u]
  show "\<exists>st s'. ui_serve demo_ui_env ''c'' ''POST'' U_StopAll ?run = (OKReply st, s')
      \<and> (\<exists>cs' rp' rc'. LoadClientFile (ue_yaml demo_ui_env) True ''c'' (ui_files s') = Inr (cs', rp', rc')
            \<and> demo_tunnel \<notin> set cs')"
    by (auto simp: demo_yaml_ok)
qed

end
