(* ===== verification/Watcher.thy ===== *)
theory Watcher
  imports ServerConfig
begin

text \<open>
  Starting and stopping the file watcher, \<open>internal/config/watcher.go\<close> and the end of
  \<open>internal/config/config.go\<close>. The package fsnotify answers through arguments. A call that panics has
  no result.
\<close>

text \<open>\<open>wa_done\<close>: the channel \<open>done\<close> is closed.\<close>

record Watcher =
  wa_done :: bool

record watched_manager =
  wm_state :: cfg_state
  wm_watcher :: "Watcher option"

definition NewWatcher :: "bool \<Rightarrow> bool \<Rightarrow> Watcher option" where
  "NewWatcher new_ok add_ok =
     (if \<not> new_ok then None
      else if \<not> add_ok then None
      else Some \<lparr>wa_done = False\<rparr>)"

text \<open>Closing a closed channel panics.\<close>

definition Watcher_Stop :: "Watcher \<Rightarrow> Watcher option" where
  "Watcher_Stop w = (if wa_done w then None else Some (w\<lparr>wa_done := True\<rparr>))"

definition StartWatcher :: "bool \<Rightarrow> bool \<Rightarrow> watched_manager \<Rightarrow> bool \<times> watched_manager" where
  "StartWatcher new_ok add_ok m =
     (case NewWatcher new_ok add_ok of
        None \<Rightarrow> (False, m)
      | Some w \<Rightarrow> (True, m\<lparr>wm_watcher := Some w\<rparr>))"

text \<open>What the watcher calls back for each event it reacts to.\<close>

definition watch_callback ::
  "(Config \<Rightarrow> string option) \<Rightarrow> (string \<Rightarrow> Config option) \<Rightarrow> os_env \<Rightarrow> watched_manager \<Rightarrow> watched_manager" where
  "watch_callback ym yu env m = m\<lparr>wm_state := snd (cfg_Reload ym yu env (wm_state m))\<rparr>"

definition StopWatcher :: "watched_manager \<Rightarrow> watched_manager option" where
  "StopWatcher m =
     (case wm_watcher m of
        None \<Rightarrow> Some m
      | Some w \<Rightarrow> map_option (\<lambda>w. m\<lparr>wm_watcher := Some w\<rparr>) (Watcher_Stop w))"

text \<open>The stopped watcher stays in its field, so stopping twice panics.\<close>

lemma StopWatcher_once:
  "StartWatcher True True m = (True, m1) \<Longrightarrow> \<exists>m2. StopWatcher m1 = Some m2 \<and> StopWatcher m2 = None"
  by (auto simp: StartWatcher_def NewWatcher_def StopWatcher_def Watcher_Stop_def)

text \<open>An event on a readable file that parses puts the file into memory, with the defaults.\<close>

lemma callback_installs_file:
  assumes "read_ok env" "snd (wm_state m) (filePath (fst (wm_state m))) = Some data" "yu data = Some cfg"
  shows "config (fst (wm_state (watch_callback ym yu env m))) = apply_defaults cfg"
  using assms by (cases "wm_state m") (simp add: watch_callback_def cfg_Reload_def cfg_load_def)

end
