(* ===== verification/SessionOrder.thy ===== *)
theory SessionOrder
  imports ReverseProvider
begin

text \<open>
  What a provider is told about one session, in order. In every reachable state of the broker
  (\<open>internal/reversetunnel/broker.go\<close>) the messages written to a provider about a session id begin with
  its one attach message, and the frames of the session follow it.
\<close>

section \<open>Messages about a session\<close>

definition opens :: "(string \<Rightarrow> uuid option) \<Rightarrow> uuid \<Rightarrow> string \<Rightarrow> bool" where
  "opens up sid t \<longleftrightarrow> (case decode_command t of None \<Rightarrow> False | Some (c, s) \<Rightarrow> c = ''attach'' \<and> up s = Some sid)"

fun frame_of :: "uuid \<Rightarrow> wire \<Rightarrow> byte list option" where
  "frame_of sid (Txt t) = None"
| "frame_of sid (Bin f) =
     (case ParsePrefixedMessage f of None \<Rightarrow> None | Some (s, body) \<Rightarrow> if s = sid then Some body else None)"

fun about :: "(string \<Rightarrow> uuid option) \<Rightarrow> uuid \<Rightarrow> wire \<Rightarrow> bool" where
  "about up sid (Txt t) \<longleftrightarrow> opens up sid t"
| "about up sid (Bin f) \<longleftrightarrow> frame_of sid (Bin f) \<noteq> None"

fun is_text :: "wire \<Rightarrow> bool" where
  "is_text (Txt t) \<longleftrightarrow> True"
| "is_text (Bin f) \<longleftrightarrow> False"

text \<open>The first message about the session is the one that opens it, and no other is.\<close>

definition opened_once :: "(string \<Rightarrow> uuid option) \<Rightarrow> uuid \<Rightarrow> wire list \<Rightarrow> bool" where
  "opened_once up sid ms \<longleftrightarrow>
     (\<forall>xs m ys. ms = xs @ m # ys \<longrightarrow> about up sid m \<longrightarrow> (is_text m \<longleftrightarrow> (\<forall>x \<in> set xs. \<not> about up sid x)))"

lemma opened_once_Nil [simp]: "opened_once up sid []"
  by (simp add: opened_once_def)

lemma opened_once_snoc:
  "opened_once up sid (ms @ [m]) \<longleftrightarrow>
     opened_once up sid ms \<and> (about up sid m \<longrightarrow> (is_text m \<longleftrightarrow> (\<forall>x \<in> set ms. \<not> about up sid x)))"
proof
  assume o: "opened_once up sid (ms @ [m])"
  have "opened_once up sid ms"
    unfolding opened_once_def using o unfolding opened_once_def by (metis append_Cons append_assoc)
  with o show "opened_once up sid ms \<and> (about up sid m \<longrightarrow> (is_text m \<longleftrightarrow> (\<forall>x \<in> set ms. \<not> about up sid x)))"
    unfolding opened_once_def by blast
next
  assume o: "opened_once up sid ms \<and> (about up sid m \<longrightarrow> (is_text m \<longleftrightarrow> (\<forall>x \<in> set ms. \<not> about up sid x)))"
  show "opened_once up sid (ms @ [m])"
    unfolding opened_once_def
  proof (intro allI impI)
    fix xs m' ys
    assume s: "ms @ [m] = xs @ m' # ys" "about up sid m'"
    show "is_text m' \<longleftrightarrow> (\<forall>x \<in> set xs. \<not> about up sid x)"
    proof (cases ys rule: rev_cases)
      case Nil
      with s o show ?thesis by simp
    next
      case (snoc zs z)
      with s(1) have "ms = xs @ m' # zs" by simp
      with o s(2) show ?thesis unfolding opened_once_def by blast
    qed
  qed
qed

lemma about_messages:
  assumes "uuid_text up us"
  shows "about up sid (Txt (attach_msg us s)) \<longleftrightarrow> s = sid" "\<not> about up sid (Txt (detach_msg us s))"
    "\<not> about up sid (Txt (provider_ack us i))" "about up sid (Bin (PrependSessionID s p)) \<longleftrightarrow> s = sid"
proof -
  have "decode_command (provider_ack us i) = Some ([], [])"
    unfolding decode_command_def provider_ack_def
    by (subst json_members_print; simp add: utf8_fix_ascii uuid_text_ascii [OF assms])
  then show "\<not> about up sid (Txt (provider_ack us i))" by (simp add: opens_def)
qed (simp_all add: opens_def decode_attach_msg [OF assms] uuid_textD(1) [OF assms])

text \<open>What was written to the provider of a channel.\<close>

fun to_agent :: "nat \<Rightarrow> traffic list \<Rightarrow> wire list" where
  "to_agent ch [] = []"
| "to_agent ch (ToAgent c m # l) = (if c = ch then m # to_agent ch l else to_agent ch l)"
| "to_agent ch (_ # l) = to_agent ch l"

lemma to_agent_append [simp]: "to_agent ch (l @ l') = to_agent ch l @ to_agent ch l'"
  by (induction ch l rule: to_agent.induct) auto

section \<open>The invariant\<close>

fun task_open :: "(string \<Rightarrow> uuid option) \<Rightarrow> traffic list \<Rightarrow> task \<Rightarrow> bool" where
  "task_open up l (AttachStart ch sid _) \<longleftrightarrow> (\<forall>m \<in> set (to_agent ch l). \<not> about up sid m)"
| "task_open up l (AttachWrite ch sid _ _) \<longleftrightarrow> (\<forall>m \<in> set (to_agent ch l). \<not> about up sid m)"
| "task_open up l (AttachWait ch sid _ _) \<longleftrightarrow> (\<exists>m \<in> set (to_agent ch l). about up sid m)"
| "task_open up l (AttachInsert ch sid _) \<longleftrightarrow> (\<exists>m \<in> set (to_agent ch l). about up sid m)"
| "task_open up l (Pump ch sid _) \<longleftrightarrow> (\<exists>m \<in> set (to_agent ch l). about up sid m)"
| "task_open up l _ \<longleftrightarrow> True"

definition open_inv :: "(string \<Rightarrow> uuid option) \<Rightarrow> broker_world \<Rightarrow> bool" where
  "open_inv up w \<longleftrightarrow>
     (\<forall>ch sid. opened_once up sid (to_agent ch (bw_log w)))
     \<and> (\<forall>t \<in># bw_tasks w. task_open up (bw_log w) t)
     \<and> (\<forall>ch sid. bw_owner w sid = None \<longrightarrow> (\<forall>m \<in> set (to_agent ch (bw_log w)). \<not> about up sid m))"

lemma open_invD:
  assumes "open_inv up w"
  shows "opened_once up sid (to_agent ch (bw_log w))" "t \<in># bw_tasks w \<Longrightarrow> task_open up (bw_log w) t"
    "bw_owner w sid = None \<Longrightarrow> m \<in> set (to_agent ch (bw_log w)) \<Longrightarrow> \<not> about up sid m"
  using assms unfolding open_inv_def by blast+

text \<open>Most steps write nothing about a session.\<close>

definition silent :: "(string \<Rightarrow> uuid option) \<Rightarrow> traffic list \<Rightarrow> bool" where
  "silent up l \<longleftrightarrow> (\<forall>ch sid. \<forall>m \<in> set (to_agent ch l). \<not> about up sid m)"

definition log_silent :: "(string \<Rightarrow> uuid option) \<Rightarrow> broker_world \<Rightarrow> broker_world \<Rightarrow> bool" where
  "log_silent up w w' \<longleftrightarrow> bw_owner w' = bw_owner w \<and> (\<exists>l. bw_log w' = bw_log w @ l \<and> silent up l)"

lemma opened_once_silent:
  "opened_once up sid ms \<Longrightarrow> \<forall>m \<in> set l. \<not> about up sid m \<Longrightarrow> opened_once up sid (ms @ l)"
proof (induction l rule: rev_induct)
  case (snoc m l)
  then show ?case using opened_once_snoc [of up sid "ms @ l" m] by simp
qed simp

lemma task_open_silent: "silent up l' \<Longrightarrow> task_open up (l @ l') t = task_open up l t"
  unfolding silent_def by (cases "(up, l, t)" rule: task_open.cases) auto

lemma open_inv_silent:
  assumes "open_inv up w" "log_silent up w w'" "\<forall>t \<in># T. t \<in># bw_tasks w \<or> task_open up (bw_log w) t"
  shows "open_inv up (set_tasks T w')"
proof -
  obtain l where l: "bw_owner w' = bw_owner w" "bw_log w' = bw_log w @ l" "silent up l"
    using assms(2) by (auto simp: log_silent_def)
  have s: "\<not> about up sid m" if "m \<in> set (to_agent ch l)" for ch sid m
    using l(3) that by (auto simp: silent_def)
  show ?thesis
    using open_invD [OF assms(1)] assms(3) s
    unfolding open_inv_def by (auto simp: l task_open_silent [OF l(3)] intro: opened_once_silent)
qed

lemma open_inv_silent_tasks: "open_inv up w \<Longrightarrow> log_silent up w w' \<Longrightarrow> bw_tasks w' = bw_tasks w \<Longrightarrow> open_inv up w'"
  using open_inv_silent [of up w w' "bw_tasks w"] by (simp add: open_inv_def)

lemma silent_simps: "silent up []" "silent up [FromAgent ch s b]" "silent up [ToConsumer ch s c b]"
  "uuid_text up us \<Longrightarrow> silent up [ToAgent ch (Txt (detach_msg us s))]"
  "uuid_text up us \<Longrightarrow> silent up [ToAgent ch (Txt (provider_ack us i))]"
  using about_messages by (auto simp: silent_def split: if_splits)

lemma log_silent_ops:
  "log_silent up w w" "log_silent up w (ws_close c w)"
  "log_silent up w (log_traffic (FromAgent ch s b) w)" "log_silent up w (log_traffic (ToConsumer ch s c b) w)"
  "uuid_text up us \<Longrightarrow> log_silent up w (log_traffic (ToAgent ch (Txt (provider_ack us i))) w)"
  "log_silent up w (agent_text up ch data w)" "uuid_text up us \<Longrightarrow> log_silent up w (closeSession us ch sid ok w)"
  "log_silent up w (remove_sessions ch w)" "log_silent up w (remove_waiters ch w)"
  "log_silent up w (attach_fail ch sid cons w)"
  "log_silent up w (attach_fail ch sid cons (w\<lparr>bw_mail := m'\<rparr>))" "log_silent up w (w\<lparr>bw_mail := m'\<rparr>)"
  "log_silent up w (AbortProviderRegistration i w)" "log_silent up w (attach_insert ch sid cons w)"
  "attach_register ch sid w = (k, w') \<Longrightarrow> log_silent up w w'"
  "attach_lookup i cons w = (x, w') \<Longrightarrow> log_silent up w w'"
  "remove_take i w = (x, w') \<Longrightarrow> log_silent up w w'"
  "RegisterProvider up fresh conn off w = (z, w') \<Longrightarrow> log_silent up w w'"
  by (auto simp: log_silent_def agent_text_def closeSession_def remove_sessions_def remove_waiters_def
      attach_fail_def attach_insert_def attach_register_def attach_lookup_def silent_simps
      AbortProviderRegistration_def remove_take_def RegisterProvider_def Let_def split: option.splits if_splits)

lemma open_inv_gone [simp]: "open_inv up (w\<lparr>bw_gone := g\<rparr>) = open_inv up w"
  by (simp add: open_inv_def)

text \<open>Writing about one session.\<close>

lemma open_inv_write:
  assumes "open_inv up w" "bw_log w' = bw_log w @ [ToAgent ch m]" "bw_owner w' = bw_owner w"
    and "\<And>s. about up s m \<longleftrightarrow> s = sid"
    and "is_text m \<longleftrightarrow> (\<forall>x \<in> set (to_agent ch (bw_log w)). \<not> about up sid x)"
    and "bw_owner w sid \<noteq> None" "\<forall>t \<in># bw_tasks w'. task_open up (bw_log w') t"
  shows "open_inv up w'"
proof -
  note i = open_invD [OF assms(1)]
  have "opened_once up s (to_agent c (bw_log w'))" for c s
    using i(1) [of s c] assms(4,5) by (auto simp: assms(2) opened_once_snoc)
  moreover have "\<not> about up s x" if "bw_owner w s = None" "x \<in> set (to_agent c (bw_log w'))" for c s x
    using i(3) [OF that(1), of x c] that assms(4,6) by (auto simp: assms(2) split: if_splits)
  ultimately show ?thesis using assms(3,7) by (simp add: open_inv_def)
qed

lemma task_open_write:
  assumes "task_open up l t" "\<And>s. about up s m \<longleftrightarrow> s = sid" "sid \<notin># sid_of t"
  shows "task_open up (l @ [ToAgent ch m]) t"
  using assms by (cases "(up, l, t)" rule: task_open.cases) auto

lemma open_inv_step:
  "broker_step up us w w' \<Longrightarrow> uuid_text up us \<Longrightarrow> owner_inv w \<Longrightarrow> wait_inv w \<Longrightarrow> open_inv up w \<Longrightarrow> open_inv up w'"
proof (induction rule: broker_step.induct)
  case (register fresh conn off w i ch w')
  then show ?case by (intro open_inv_silent [OF register(5)]) (auto simp: log_silent_ops)
next
  case (register_refused fresh conn off w e w')
  then have "w' = w" by (intro register_error)
  then show ?case by (intro open_inv_silent_tasks [OF register_refused(5)]) (simp_all add: log_silent_ops)
next
  case (loop_text w ch T data)
  then show ?case by (intro open_inv_silent_tasks [OF loop_text(5)]) (simp_all add: log_silent_ops)
next
  case (loop_dropped w ch T data sid body)
  then show ?case by (intro open_inv_silent_tasks [OF loop_dropped(7)]) (simp_all add: log_silent_ops)
next
  case (attach_none chID cons w w')
  then show ?case by (intro open_inv_silent_tasks [OF attach_none(5)]) (simp_all add: log_silent_ops)
next
  case (attach chID cons w ch w' sid)
  then have w': "w' = w" by (auto simp: attach_lookup_def split: option.splits)
  note i = open_invD [OF attach(6)]
  show ?case
    using i(1,2) i(3) [OF attach(2)] i(3) by (auto simp: open_inv_def w' split: if_splits)
next
  case (attach_registered w ch sid cons T k w')
  have "task_open up (bw_log w) (AttachStart ch sid cons)"
    by (rule open_invD(2) [OF attach_registered(6)]) (simp add: attach_registered(1))
  then show ?case
    using attach_registered by (intro open_inv_silent [OF attach_registered(6)]) (auto simp: log_silent_ops)
next
  case (attach_sent w ch sid cons k T)
  let ?m = "Txt (attach_msg us sid)"
  note a = about_messages(1) [OF attach_sent(3)]
  have t: "task_open up (bw_log w) (AttachWrite ch sid cons k)"
    by (rule open_invD(2) [OF attach_sent(6)]) (simp add: attach_sent(1))
  have "sid \<notin># sid_of x" if "x \<in># T" for x
    using own_box_unique(2) [OF attach_sent(5,1), of sid] in_sids [OF that, of sid] by auto
  then have "task_open up (bw_log w @ [ToAgent ch ?m]) x" if "x \<in># T" for x
    using that open_invD(2) [OF attach_sent(6)] attach_sent(1) a by (intro task_open_write) auto
  moreover have "bw_owner w sid \<noteq> None"
    using owner_invD(3) [OF attach_sent(4), of "AttachWrite ch sid cons k"] attach_sent(1) by simp
  ultimately show ?case
    using t a by (intro open_inv_write [OF attach_sent(6), of _ ch ?m sid]) (auto simp: attach_send_def)
next
  case (attach_accepted w ch sid cons k T)
  have "task_open up (bw_log w) (AttachWait ch sid cons k)"
    by (rule open_invD(2) [OF attach_accepted(6)]) (simp add: attach_accepted(1))
  then show ?case
    using attach_accepted by (intro open_inv_silent [OF attach_accepted(6)]) (auto simp: log_silent_ops)
next
  case (attach_inserted w ch sid cons T)
  have "task_open up (bw_log w) (AttachInsert ch sid cons)"
    by (rule open_invD(2) [OF attach_inserted(5)]) (simp add: attach_inserted(1))
  then show ?case
    using attach_inserted by (intro open_inv_silent [OF attach_inserted(5)]) (auto simp: log_silent_ops)
next
  case (pump_sent w ch sid cons T payload)
  let ?m = "Bin (PrependSessionID sid payload)"
  note a = about_messages(4) [OF pump_sent(3)]
  have p: "Pump ch sid cons \<in># bw_tasks w" using pump_sent(1) by simp
  have t: "task_open up (bw_log w) (Pump ch sid cons)"
    by (rule open_invD(2) [OF pump_sent(6) p])
  have "sid \<notin># sid_of x" if "x \<in># T" for x
    using own_box_unique(2) [OF pump_sent(5,1), of sid] in_sids [OF that, of sid] by auto
  then have "task_open up (bw_log w @ [ToAgent ch ?m]) x" if "x \<in># T" for x
    using that open_invD(2) [OF pump_sent(6)] pump_sent(1) a by (intro task_open_write) auto
  moreover have "bw_owner w sid \<noteq> None" using owner_invD(3) [OF pump_sent(4) p] by simp
  ultimately show ?case
    using t a pump_sent(1) by (intro open_inv_write [OF pump_sent(6), of _ ch ?m sid]) (auto simp: pump_forward_def)
next
  case (remove_waking w ch T)
  have "open_inv up (set_tasks T (remove_waiters ch w))"
    using remove_waking by (intro open_inv_silent) (auto simp: log_silent_ops)
  then show ?case by simp
next
  case (remove_found w ch T ch' w')
  then show ?case by (intro open_inv_silent [OF remove_found(6)]) (auto simp: log_silent_ops)
next
  case (remove_not_found w ch T w')
  then show ?case by (intro open_inv_silent [OF remove_not_found(6)]) (auto simp: log_silent_ops)
qed (rule open_inv_silent, assumption, simp add: log_silent_ops, auto)+

lemma reachable_open:
  assumes "uuid_text up us" "broker_reachable up us w"
  shows "open_inv up w"
  using assms(2)
proof (induction rule: reachable_from.induct)
  case (start w)
  then show ?case by (simp add: open_inv_def NewBroker_sel)
next
  case (step w w')
  then show ?case using open_inv_step assms(1) reachable_invs by blast
qed

end
