(* ===== verification/ReverseTunnel.thy ===== *)
theory ReverseTunnel
  imports SessionOrder ReverseRun
begin

text \<open>
  A reverse tunnel from end to end: the consumer's pairing of a local connection, the broker, and the
  provider's loop with its connection to the local service. The three run on their own; what is in
  flight between two of them is a prefix of what was sent.
\<close>

section \<open>The provider's reads\<close>

text \<open>Which events happen: the loop reads when no answer is pending and it has not returned, and a
  goroutine's read needs the goroutine.\<close>

fun rp_enabled :: "rp_event \<Rightarrow> rprovider \<Rightarrow> bool" where
  "rp_enabled (RText payload dial) r \<longleftrightarrow> \<not> rp_done r \<and> rp_ack r = None"
| "rp_enabled (RBinary payload ok) r \<longleftrightarrow> \<not> rp_done r \<and> rp_ack r = None"
| "rp_enabled RError r \<longleftrightarrow> \<not> rp_done r \<and> rp_ack r = None"
| "rp_enabled (RAck ok) r \<longleftrightarrow> rp_ack r \<noteq> None"
| "rp_enabled (RPump sid tc data err ok) r \<longleftrightarrow> (sid, tc) \<in># rp_pumps r"

fun rp_schedule :: "(string \<Rightarrow> uuid option) \<Rightarrow> rp_event list \<Rightarrow> rprovider \<Rightarrow> bool" where
  "rp_schedule up [] r \<longleftrightarrow> True"
| "rp_schedule up (e # es) r \<longleftrightarrow> rp_enabled e r \<and> rp_schedule up es (rp_step up e r)"

lemma rp_schedule_snoc:
  "rp_schedule up (es @ [e]) r \<longleftrightarrow> rp_schedule up es r \<and> rp_enabled e (ServeReverseProvider up es r)"
  by (induction es arbitrary: r) auto

fun reads :: "rp_event list \<Rightarrow> wire list" where
  "reads [] = []"
| "reads (RText payload _ # es) = Txt payload # reads es"
| "reads (RBinary payload _ # es) = Bin payload # reads es"
| "reads (_ # es) = reads es"

lemma reads_append: "reads (es @ fs) = reads es @ reads fs"
  by (induction es rule: reads.induct) auto

definition frames :: "uuid \<Rightarrow> wire list \<Rightarrow> byte list list" where
  "frames sid ms = List.map_filter (frame_of sid) ms"

lemma frames_simps [simp]:
  "frames sid [] = []"
  "frames sid (m # ms) = (case frame_of sid m of None \<Rightarrow> frames sid ms | Some b \<Rightarrow> b # frames sid ms)"
  by (simp_all add: frames_def List.map_filter_simps split: option.split)

lemma frames_append: "frames sid (ms @ ns) = frames sid ms @ frames sid ns"
  by (induction ms) (auto split: option.split)

lemma frames_prefix: "prefix ms ns \<Longrightarrow> prefix (frames sid ms) (frames sid ns)"
  by (auto simp: prefix_def frames_append)

lemma frames_none: "\<forall>m \<in> set ms. \<not> about up sid m \<Longrightarrow> frames sid ms = []"
proof (induction ms)
  case (Cons m ms)
  then show ?case by (cases m) auto
qed simp

text \<open>Nothing about the session is read before it is opened.\<close>

definition opens_first :: "(string \<Rightarrow> uuid option) \<Rightarrow> uuid \<Rightarrow> wire list \<Rightarrow> bool" where
  "opens_first up sid ms \<longleftrightarrow>
     (\<forall>xs t ys. ms = xs @ Txt t # ys \<longrightarrow> opens up sid t \<longrightarrow> (\<forall>x \<in> set xs. \<not> about up sid x))"

lemma opens_firstD:
  "opens_first up sid (ms @ [m]) \<Longrightarrow> opens_first up sid ms"
  "opens_first up sid (ms @ [Txt t]) \<Longrightarrow> opens up sid t \<Longrightarrow> x \<in> set ms \<Longrightarrow> \<not> about up sid x"
  unfolding opens_first_def by (metis append_Cons append_assoc, blast)

lemma opened_once_first:
  assumes "opened_once up sid ms" "prefix (m0 # ns) ms"
  shows "opens_first up sid ns"
  unfolding opens_first_def
proof (intro allI impI ballI)
  fix xs t ys x
  assume "ns = xs @ Txt t # ys" "opens up sid t" "x \<in> set xs"
  moreover obtain zs where "ms = (m0 # ns) @ zs" using assms(2) by (auto simp: prefix_def)
  ultimately have "ms = (m0 # xs) @ Txt t # (ys @ zs)" "about up sid (Txt t)" by simp_all
  then have "\<forall>x \<in> set (m0 # xs). \<not> about up sid x"
    using assms(1) unfolding opened_once_def by (metis is_text.simps(1))
  with \<open>x \<in> set xs\<close> show "\<not> about up sid x" by simp
qed

lemma frames_after_first:
  assumes "opened_once up sid ms" "prefix (m0 # ns) ms"
  shows "prefix (frames sid ns) (frames sid ms)"
proof -
  obtain zs where ms: "ms = m0 # ns @ zs" using assms(2) by (auto simp: prefix_def)
  then have "about up sid m0 \<longrightarrow> is_text m0" using assms(1) unfolding opened_once_def by fastforce
  then have "frame_of sid m0 = None" by (cases m0) auto
  with ms show ?thesis by (simp add: frames_append)
qed

section \<open>What the service receives\<close>

text \<open>As long as the session's connection is in the table, every frame read so far was written to it;
  what was written before it left the table is a prefix.\<close>

definition sess_inv :: "(string \<Rightarrow> uuid option) \<Rightarrow> uuid \<Rightarrow> wire list \<Rightarrow> rprovider \<Rightarrow> bool" where
  "sess_inv up sid ms r \<longleftrightarrow>
     ((\<forall>x \<in> set ms. \<not> about up sid x) \<longrightarrow> sid \<notin> set (rp_opened r))
     \<and> (\<forall>tc < length (rp_opened r). rp_opened r ! tc = sid \<longrightarrow>
          prefix (written_to tc r) (frames sid ms)
          \<and> (mget (rp_sess r) sid = Some tc \<longrightarrow> written_to tc r = frames sid ms))"

lemma sess_inv_keep:
  assumes "sess_inv up sid ms r" "rp_written r' = rp_written r" "rp_opened r' = rp_opened r"
    and "\<And>tc. mget (rp_sess r') sid = Some tc \<Longrightarrow> mget (rp_sess r) sid = Some tc"
  shows "sess_inv up sid ms r'"
  using assms by (simp add: sess_inv_def written_to_def)

lemma sess_inv_read:
  assumes "sess_inv up sid ms r" "\<not> about up sid m"
  shows "sess_inv up sid (ms @ [m]) r"
proof -
  have "frame_of sid m = None" using assms(2) by (cases m) auto
  with assms show ?thesis by (simp add: sess_inv_def frames_append)
qed

lemma sess_inv_text:
  assumes i: "sess_inv up sid ms r" and r: "rp_inv r"
    and w: "\<And>tc b. (tc, b) \<in> set (rp_written r) \<Longrightarrow> tc < length (rp_opened r)"
    and first: "opens up sid t \<Longrightarrow> \<forall>x \<in> set ms. \<not> about up sid x"
  shows "sess_inv up sid (ms @ [Txt t]) (provider_text up t dial r)"
proof (cases "opens up sid t")
  case False
  then have read: "sess_inv up sid (ms @ [Txt t]) r" using sess_inv_read [OF i] by simp
  obtain c s where d: "decode_command t = Some (c, s) \<or> decode_command t = None" by (cases "decode_command t") auto
  show ?thesis
  proof (cases "c = ''attach'' \<and> dial = None \<and> decode_command t = Some (c, s) \<and> up s \<noteq> None")
    case True
    then obtain sid' where s: "up s = Some sid'" by auto
    with True False have n: "sid' \<noteq> sid" by (simp add: opens_def)
    have "provider_text up t dial r = r\<lparr>rp_sess := mput sid' (length (rp_opened r)) (rp_sess r),
        rp_opened := rp_opened r @ [sid'], rp_pumps := add_mset (sid', length (rp_opened r)) (rp_pumps r),
        rp_ack := Some (attached_ok s)\<rparr>"
      using True s by (simp add: provider_text_def Let_def)
    then show ?thesis
      using read n by (auto simp: sess_inv_def written_to_def nth_append)
  next
    case False
    then show ?thesis
      using d by (intro sess_inv_keep [OF read]) (auto simp: provider_text_def split: option.splits if_splits)
  qed
next
  case True
  then have none: "sid \<notin> set (rp_opened r)" "frames sid ms = []"
    using i first frames_none by (simp_all add: sess_inv_def)
  obtain s where s: "decode_command t = Some (''attach'', s)" "up s = Some sid"
    using True by (auto simp: opens_def split: option.splits)
  have "written_to (length (rp_opened r)) r = []"
    using w by (fastforce simp: written_to_def filter_empty_conv)
  moreover have "mget (rp_sess r) sid = None"
    using rp_invD(1,3,4) [OF r] none(1) by (metis nth_mem option.exhaust)
  ultimately show ?thesis
    using s none True by (cases dial) (auto simp: provider_text_def Let_def sess_inv_def frames_append written_to_def nth_append
        less_Suc_eq)
qed

lemma sess_inv_binary:
  assumes i: "sess_inv up sid ms r" and r: "rp_inv r"
  shows "sess_inv up sid (ms @ [Bin f]) (provider_binary f ok r)"
proof (cases "ParsePrefixedMessage f")
  case None
  then show ?thesis using sess_inv_read [OF i, of "Bin f"] by (simp add: provider_binary_def)
next
  case (Some p)
  then obtain s body where p: "ParsePrefixedMessage f = Some (s, body)" by (cases p) auto
  show ?thesis
  proof (cases "s = sid")
    case False
    with p have read: "sess_inv up sid (ms @ [Bin f]) r" using sess_inv_read [OF i, of "Bin f"] by simp
    show ?thesis
    proof (cases "mget (rp_sess r) s")
      case None
      with read p show ?thesis by (simp add: provider_binary_def)
    next
      case (Some tc)
      have "rp_opened r ! tc = s" using rp_invD(1,4) [OF r] Some by blast
      then show ?thesis
        using read p Some False by (auto simp: provider_binary_def sess_inv_def written_to_def)
    qed
  next
    case True
    show ?thesis
    proof (cases "mget (rp_sess r) sid")
      case None
      with i p True show ?thesis by (auto simp: provider_binary_def sess_inv_def frames_append)
    next
      case (Some tc)
      with i p True show ?thesis
        by (auto simp: provider_binary_def sess_inv_def frames_append written_to_def)
    qed
  qed
qed

lemma sess_inv_run:
  "rp_schedule up es rp_init \<Longrightarrow> opens_first up sid (reads es) \<Longrightarrow>
     sess_inv up sid (reads es) (ServeReverseProvider up es rp_init)"
proof (induction es rule: rev_induct)
  case Nil
  then show ?case by (simp add: sess_inv_def rp_init_def)
next
  case (snoc e es)
  let ?r = "ServeReverseProvider up es rp_init"
  have en: "rp_schedule up es rp_init" "rp_enabled e ?r" using snoc.prems(1) by (simp_all add: rp_schedule_snoc)
  have inv: "rp_inv ?r" by (rule ServeReverseProvider_inv) simp
  have first: "opens_first up sid (reads es)"
    using snoc.prems(2) by (cases e) (auto simp: reads_append dest: opens_firstD(1))
  note IH = snoc.IH [OF en(1) first]
  show ?case
  proof (cases e)
    case (RText t dial)
    have "sess_inv up sid (reads es @ [Txt t]) (provider_text up t dial ?r)"
      using sess_inv_text [OF IH inv written_bound] opens_firstD(2) snoc.prems(2)
      by (fastforce simp: RText reads_append)
    with en RText show ?thesis by (simp add: ServeReverseProvider_snoc reads_append)
  next
    case (RBinary f ok)
    with en sess_inv_binary [OF IH inv] show ?thesis by (simp add: ServeReverseProvider_snoc reads_append)
  next
    case RError
    then show ?thesis
      using IH by (auto simp: ServeReverseProvider_snoc reads_append intro!: sess_inv_keep [OF IH])
  next
    case (RAck ok)
    then show ?thesis
      using IH by (auto simp: ServeReverseProvider_snoc reads_append intro!: sess_inv_keep [OF IH] split: option.split)
  next
    case (RPump s tc data err ok)
    then show ?thesis
      using IH by (auto simp: ServeReverseProvider_snoc reads_append pump_read_def pump_end_def pump_out_def Let_def
          intro!: sess_inv_keep [OF IH] split: if_splits)
  qed
qed

section \<open>What the service sends\<close>

text \<open>What the goroutine of the session read and forwarded.\<close>

fun pump_data :: "uuid \<Rightarrow> rp_event list \<Rightarrow> byte list list" where
  "pump_data sid [] = []"
| "pump_data sid (RPump s tc data err ok # es) =
     (if s = sid \<and> data \<noteq> [] \<and> ok then data # pump_data sid es else pump_data sid es)"
| "pump_data sid (_ # es) = pump_data sid es"

lemma pump_data_append: "pump_data sid (es @ fs) = pump_data sid es @ pump_data sid fs"
  by (induction sid es rule: pump_data.induct) auto

lemma provider_text_sent [simp]:
  "rp_sent (provider_text up t dial r) = rp_sent r" "rp_sent (provider_binary f ok r) = rp_sent r"
  by (auto simp: provider_text_def provider_binary_def Let_def split: option.splits)

lemma sent_frames:
  "rp_schedule up es rp_init \<Longrightarrow> frames sid (rp_sent (ServeReverseProvider up es rp_init)) = pump_data sid es"
proof (induction es rule: rev_induct)
  case (snoc e es)
  then have "rp_schedule up es rp_init" "rp_enabled e (ServeReverseProvider up es rp_init)"
    by (simp_all add: rp_schedule_snoc)
  with snoc.IH show ?case
    by (cases e) (auto simp: ServeReverseProvider_snoc pump_data_append frames_append pump_read_def pump_end_def
        pump_out_def Let_def split: option.split)
qed (simp add: rp_init_def)

lemma sublist_concat: "sublist xss yss \<Longrightarrow> sublist (concat xss) (concat yss)"
  unfolding sublist_def by (metis concat_append)

section \<open>End to end\<close>


text \<open>A run with one session, in which the consumer sends two bytes and the service one.\<close>

definition sid0 :: uuid where
  "sid0 = mk_uuid [2]"

definition relay_log :: "traffic list" where
  "relay_log = [ToAgent 0 (Txt (provider_ack hex_uuid_string (mk_uuid [1]))),
     ToAgent 0 (Txt (attach_msg hex_uuid_string sid0))]"

lemma relay_attached:
  "broker_reachable hex_uuid_parse hex_uuid_string (demo_world (mk_uuid [1]) [] [(sid0, 0)] True None 1 {}
     {#AttachWait 0 sid0 9 0, Loop 0#} relay_log (demo_own sid0) {})"
proof -
  let ?w = "\<lambda>aw nm T l own. demo_world (mk_uuid [1]) [] aw True None nm {} T l own {}"
  have "broker_reachable hex_uuid_parse hex_uuid_string (?w [] 0 {#Loop 0#} (take 1 relay_log) (\<lambda>_. None))"
    by (rule run_step [OF demo_registered broker_step.ack_sent [where ch = 0 and T = "{#}"]])
      (auto simp: relay_log_def demo_ops)
  then have "broker_reachable hex_uuid_parse hex_uuid_string
      (?w [] 0 {#AttachStart 0 sid0 9, Loop 0#} (take 1 relay_log) (demo_own sid0))"
    by (rule run_step [OF _ broker_step.attach [of "mk_uuid [1]" 9 _ 0]])
      (auto simp: attach_lookup_def demo_own_def demo_ops)
  then have "broker_reachable hex_uuid_parse hex_uuid_string
      (?w [(sid0, 0)] 1 {#AttachWrite 0 sid0 9 0, Loop 0#} (take 1 relay_log) (demo_own sid0))"
    by (rule run_step [OF _ broker_step.attach_registered [OF demo_sel(6) surjective_pairing]])
      (auto simp: attach_register_def Let_def demo_ops)
  then show ?thesis
    by (rule run_step [OF _ broker_step.attach_sent [OF demo_sel(6)]])
      (auto simp: attach_send_def relay_log_def demo_ops)
qed

definition relayed :: broker_world where
  "relayed = demo_world (mk_uuid [1]) [(sid0, 9)] [] True None 1 {} {#Loop 0, Pump 0 sid0 9#}
     (relay_log @ [ToAgent 0 (Bin (PrependSessionID sid0 [1, 2])), FromAgent 0 sid0 [9], ToConsumer 0 sid0 9 [9]])
     (demo_own sid0) {}"

lemma relayed_reachable: "broker_reachable hex_uuid_parse hex_uuid_string relayed"
proof -
  let ?w = "\<lambda>ss m T l. demo_world (mk_uuid [1]) ss [] True m 1 {} T (relay_log @ l) (demo_own sid0) {}"
  let ?b = "ToAgent 0 (Bin (PrependSessionID sid0 [1, 2]))"
  let ?up = hex_uuid_parse and ?us = hex_uuid_string
  note d = decode_attached_ok(1) [OF hex_uuid_text, of sid0] uuid_textD(1) [OF hex_uuid_text, of sid0]
  have "broker_reachable ?up ?us (?w [] (Some None) {#AttachWait 0 sid0 9 0, Loop 0#} [])"
    by (rule run_step [OF relay_attached broker_step.loop_text [where data = "attached_ok (?us sid0)" and ch = 0
            and T = "{#AttachWait 0 sid0 9 0#}"]])
      (auto simp: agent_text_def post_def demo_ops d)
  then have "broker_reachable ?up ?us (?w [] None {#AttachInsert 0 sid0 9, Loop 0#} [])"
    by (rule run_step [OF _ broker_step.attach_accepted [where ch = 0 and T = "{#Loop 0#}"]]) (auto simp: demo_ops)
  then have "broker_reachable ?up ?us (?w [(sid0, 9)] None {#Pump 0 sid0 9, Loop 0#} [])"
    by (rule run_step [OF _ broker_step.attach_inserted [where ch = 0 and T = "{#Loop 0#}"]])
      (auto simp: attach_insert_def demo_ops)
  then have "broker_reachable ?up ?us (?w [(sid0, 9)] None {#Pump 0 sid0 9, Loop 0#} [?b])"
    by (rule run_step [OF _ broker_step.pump_sent [where ch = 0 and T = "{#Loop 0#}" and payload = "[1, 2]"]])
      (auto simp: pump_forward_def demo_ops)
  then have "broker_reachable ?up ?us (?w [(sid0, 9)] None {#LoopWrite 0 sid0 9 [9], Pump 0 sid0 9#} [?b, FromAgent 0 sid0 [9]])"
    by (rule run_step [OF _ broker_step.loop_binary [where ch = 0 and T = "{#Pump 0 sid0 9#}"
            and data = "PrependSessionID sid0 [9]"]])
      (auto simp: agent_binary_def demo_ops)
  then show ?thesis
    unfolding relayed_def
    by (rule run_step [OF _ broker_step.loop_written [where ch = 0 and T = "{#Pump 0 sid0 9#}"]]) (auto simp: demo_ops)
qed

definition relay_events :: "rp_event list" where
  "relay_events = [RText (attach_msg hex_uuid_string sid0) None, RAck True,
     RBinary (PrependSessionID sid0 [1, 2]) True, RPump sid0 0 [9] False True]"

lemma relay_provider:
  "rp_schedule hex_uuid_parse relay_events rp_init"
  "rp_opened (ServeReverseProvider hex_uuid_parse relay_events rp_init) = [sid0]"
  "written_to 0 (ServeReverseProvider hex_uuid_parse relay_events rp_init) = [[1, 2]]"
  "frames sid0 (rp_sent (ServeReverseProvider hex_uuid_parse relay_events rp_init)) = [[9]]"
proof -
  note d = decode_attach_msg(1) [OF hex_uuid_text, of sid0] uuid_textD(1) [OF hex_uuid_text, of sid0]
  show "rp_schedule hex_uuid_parse relay_events rp_init"
    "rp_opened (ServeReverseProvider hex_uuid_parse relay_events rp_init) = [sid0]"
    "written_to 0 (ServeReverseProvider hex_uuid_parse relay_events rp_init) = [[1, 2]]"
    "frames sid0 (rp_sent (ServeReverseProvider hex_uuid_parse relay_events rp_init)) = [[9]]"
    by (simp_all add: relay_events_def rp_init_def provider_text_def provider_binary_def d Let_def pump_read_def
        pump_out_def written_to_def)
qed

definition relay_conn :: wsConnWrapper where
  "relay_conn = \<lparr>ws_in = [[9]], ws_out = [], ws_reader = None\<rparr>"

lemma relay_consumer:
  "\<exists>p. reverseConsumerBridgeTCP (\<lambda>_. Some \<lparr>Scheme = ''ws'', Host = ''h'', Path = [], RawQuery = []\<rparr>) (\<lambda>_ _. Dialed) 0
       (\<lambda>_. relay_conn) byteReader_Read demo_local 2 [Up True, Down True] ''h'' ''/ws/x'' [] = Some p
     \<and> messages_out p = [[1, 2]] \<and> delivered_local p = [[9]]"
  by (simp add: reverseConsumerBridgeTCP_pair DialWebSocketPath_def dial_loop.simps handlePair_def demo_local_def duplex_init_def
      copy_step_def byteReader_Read_def relay_conn_def ws_Read_simps Let_def)


end
