(* ===== verification/BrokerDrain.thy ===== *)
theory BrokerDrain
  imports BrokerProps
begin

text \<open>
  The broker's connections are always in somebody's hands, and the broker can come to rest: from every
  reachable state the failure of its connections ends all goroutines, with every connection closed.
\<close>

section \<open>Who closes a connection\<close>

text \<open>A consumer that is being attached.\<close>

fun attaching :: "nat \<Rightarrow> uuid \<Rightarrow> nat \<Rightarrow> task \<Rightarrow> bool" where
  "attaching ch sid c (AttachStart x s y) \<longleftrightarrow> x = ch \<and> s = sid \<and> y = c"
| "attaching ch sid c (AttachWrite x s y _) \<longleftrightarrow> x = ch \<and> s = sid \<and> y = c"
| "attaching ch sid c (AttachWait x s y _) \<longleftrightarrow> x = ch \<and> s = sid \<and> y = c"
| "attaching ch sid c (AttachInsert x s y) \<longleftrightarrow> x = ch \<and> s = sid \<and> y = c"
| "attaching ch sid c _ \<longleftrightarrow> False"

definition held :: "broker_world \<Rightarrow> nat \<Rightarrow> uuid \<Rightarrow> nat \<Rightarrow> bool" where
  "held w ch sid c \<longleftrightarrow> (\<exists>t \<in># bw_tasks w. attaching ch sid c t)
     \<or> Pump ch sid c \<in># bw_tasks w \<and> mget (sessions (bw_chan w ch)) sid = Some c"

definition leak_inv :: "broker_world \<Rightarrow> bool" where
  "leak_inv w \<longleftrightarrow>
     (\<forall>sid ch c. bw_owner w sid = Some (ch, c) \<longrightarrow> c \<in> bw_closed w \<or> held w ch sid c)
     \<and> (\<forall>ch < bw_next w. agent (bw_chan w ch) \<in> bw_closed w \<or> ch \<in># served (bw_tasks w))"

lemma leak_invD:
  assumes "leak_inv w"
  shows "bw_owner w sid = Some (ch, c) \<Longrightarrow> c \<in> bw_closed w \<or> held w ch sid c"
    "ch < bw_next w \<Longrightarrow> agent (bw_chan w ch) \<in> bw_closed w \<or> ch \<in># served (bw_tasks w)"
  using assms unfolding leak_inv_def by blast+

text \<open>Operations close connections, and take a session from a table only with its connection closed.\<close>

definition close_grow :: "broker_world \<Rightarrow> broker_world \<Rightarrow> bool" where
  "close_grow w w' \<longleftrightarrow> bw_owner w' = bw_owner w \<and> bw_next w' = bw_next w \<and> bw_closed w \<subseteq> bw_closed w'
     \<and> (\<forall>ch. agent (bw_chan w' ch) = agent (bw_chan w ch))
     \<and> (\<forall>ch s c. mget (sessions (bw_chan w ch)) s = Some c \<longrightarrow>
          mget (sessions (bw_chan w' ch)) s = Some c \<or> c \<in> bw_closed w')"

lemma close_grow_ops [simp]:
  "close_grow w w" "close_grow w (ws_close c w)" "close_grow w (log_traffic t w)"
  "close_grow w (agent_text up ch data w)" "close_grow w (closeSession us ch sid ok w)"
  "close_grow w (remove_waiters ch w)"
  "close_grow w (attach_send us ch sid w)" "close_grow w (attach_fail ch sid cons w)"
  "close_grow w (attach_fail ch sid cons (w\<lparr>bw_mail := m'\<rparr>))" "close_grow w (w\<lparr>bw_mail := m'\<rparr>)"
  "close_grow w (AbortProviderRegistration i w)" "close_grow w (pump_forward ch sid payload w)"
  "attach_register ch sid w = (k, w') \<Longrightarrow> close_grow w w'"
  "attach_lookup i cons w = (x, w') \<Longrightarrow> close_grow w w'"
  "remove_take i w = (x, w') \<Longrightarrow> close_grow w w'"
  by (auto simp: close_grow_def agent_text_def closeSession_def remove_waiters_def
      attach_send_def attach_fail_def pump_forward_def attach_register_def attach_lookup_def
      AbortProviderRegistration_def remove_take_def Let_def split: option.splits if_splits)

lemma close_grow_sessions [simp]: "close_grow w (remove_sessions ch w)"
  by (auto simp: close_grow_def remove_sessions_def dest: in_mvals)

lemma leak_inv_grow:
  assumes inv: "leak_inv w" and grow: "close_grow w w'"
    and att: "\<And>t ch sid c. t \<in># bw_tasks w \<Longrightarrow> attaching ch sid c t \<Longrightarrow>
      (\<exists>t' \<in># T. attaching ch sid c t') \<or> c \<in> bw_closed w'"
    and pump: "\<And>ch sid c. Pump ch sid c \<in># bw_tasks w \<Longrightarrow>
      Pump ch sid c \<in># T \<or> mget (sessions (bw_chan w' ch)) sid = None"
    and serv: "\<And>ch. ch \<in># served (bw_tasks w) \<Longrightarrow> ch \<in># served T \<or> agent (bw_chan w ch) \<in> bw_closed w'"
  shows "leak_inv (set_tasks T w')"
proof -
  have g: "bw_owner w' = bw_owner w" "bw_next w' = bw_next w" "\<And>c. c \<in> bw_closed w \<Longrightarrow> c \<in> bw_closed w'"
    "\<And>ch. agent (bw_chan w' ch) = agent (bw_chan w ch)"
    "\<And>ch s c. mget (sessions (bw_chan w ch)) s = Some c \<Longrightarrow>
       mget (sessions (bw_chan w' ch)) s = Some c \<or> c \<in> bw_closed w'"
    using grow unfolding close_grow_def by blast+
  have 1: "c \<in> bw_closed w' \<or> held (set_tasks T w') ch sid c" if o: "bw_owner w sid = Some (ch, c)" for sid ch c
    using leak_invD(1) [OF inv o]
  proof
    assume "held w ch sid c"
    then consider (att) t where "t \<in># bw_tasks w" "attaching ch sid c t"
      | (pump) "Pump ch sid c \<in># bw_tasks w" "mget (sessions (bw_chan w ch)) sid = Some c"
      unfolding held_def by blast
    then show ?thesis
    proof cases
      case att
      then show ?thesis using assms(3) unfolding held_def by auto
    next
      case pump
      then show ?thesis using g(5) [OF pump(2)] assms(4) [OF pump(1)] unfolding held_def by auto
    qed
  qed (use g(3) in blast)
  have 2: "agent (bw_chan w' ch) \<in> bw_closed w' \<or> ch \<in># served T" if "ch < bw_next w'" for ch
    using leak_invD(2) [OF inv, of ch] that g serv [of ch] by auto
  show ?thesis unfolding leak_inv_def using 1 2 by (simp add: g(1))
qed

lemma leak_inv_grow_tasks:
  assumes "leak_inv w" "close_grow w w'" "bw_tasks w' = bw_tasks w"
  shows "leak_inv w'"
proof -
  have "leak_inv (set_tasks (bw_tasks w) w')" by (rule leak_inv_grow [OF assms(1,2)]) auto
  then show ?thesis by (simp only: set_tasks_id [OF assms(3)])
qed

lemma leak_inv_gone [simp]: "leak_inv (w\<lparr>bw_gone := g\<rparr>) = leak_inv w"
  by (simp add: leak_inv_def held_def)

lemma attach_fail_closes [simp]: "cons \<in> bw_closed (attach_fail ch sid cons w)"
  by (simp add: attach_fail_def)

lemma leak_inv_step:
  "broker_step up us w w' \<Longrightarrow> map_inv w \<Longrightarrow> wait_inv w \<Longrightarrow> early_inv w \<Longrightarrow> leak_inv w \<Longrightarrow> leak_inv w'"
proof (induction rule: broker_step.induct)
  case (register fresh conn off w i ch w')
  from register_ok [OF register(1)] obtain off' where r: "ch = bw_next w"
    "w' = w\<lparr>bw_chan := (bw_chan w)(ch := \<lparr>co_id = i, agent = conn, offer = off', sessions = [], ackWait = []\<rparr>),
       bw_next := ch + 1, bw_channels := mput i ch (bw_channels w)\<rparr>" by blast
  have lt: "ch \<noteq> bw_next w" if "Pump ch sid c \<in># bw_tasks w" for ch sid c
    using wait_invD(1) [OF register(3) that] by simp
  let ?w = "set_tasks (add_mset (Registered ch) (bw_tasks w)) w'"
  have h: "held ?w x sid c" if "held w x sid c" for x sid c
    using that lt by (auto simp: held_def r)
  have o: "bw_owner ?w = bw_owner w" "bw_closed ?w = bw_closed w" by (simp_all add: r)
  have "agent (bw_chan ?w x) \<in> bw_closed w \<or> x \<in># served (bw_tasks ?w)" if "x < bw_next ?w" for x
    using leak_invD(2) [OF register(5), of x] that by (auto simp: r less_Suc_eq)
  then show ?case unfolding leak_inv_def o using leak_invD(1) [OF register(5)] h by blast
next
  case (register_refused fresh conn off w e w')
  then have "w' = w" by (intro register_error)
  then show ?case by (intro leak_inv_grow_tasks [OF register_refused(5)]) simp_all
next
  case (ack_failed w ch T)
  then have "mget (bw_channels w) (co_id (bw_chan w ch)) = Some ch" by (intro served_registered) simp_all
  then have "agent (bw_chan w ch) \<in> bw_closed (AbortProviderRegistration (co_id (bw_chan w ch)) w)"
    by (simp add: AbortProviderRegistration_def)
  then show ?case
    using ack_failed(1) by (intro leak_inv_grow [OF ack_failed(5)]) auto
next
  case (loop_text w ch T data)
  then show ?case by (intro leak_inv_grow_tasks [OF loop_text(5)]) auto
next
  case (loop_dropped w ch T data sid body)
  then show ?case by (intro leak_inv_grow_tasks [OF loop_dropped(7)]) auto
next
  case (remove_found w ch T ch' w')
  then show ?case
    using wait_invD(2) [OF remove_found(4), of "Remove1 ch"]
    by (intro leak_inv_grow [OF remove_found(6)]) (auto simp: remove_take_def)
next
  case (remove_not_found w ch T w')
  then show ?case
    using wait_invD(2) [OF remove_not_found(4), of "Remove1 ch"]
    by (intro leak_inv_grow [OF remove_not_found(6)]) (auto simp: remove_take_def)
next
  case (remove_waking w ch T)
  have "leak_inv (set_tasks T (remove_waiters ch w))"
    using remove_waking(1) by (intro leak_inv_grow [OF remove_waking(5)]) auto
  then show ?case by simp
next
  case (attach_none chID cons w w')
  then show ?case by (intro leak_inv_grow_tasks [OF attach_none(5)]) auto
next
  case (attach chID cons w ch w' sid)
  then have w': "w' = w" by (auto simp: attach_lookup_def split: option.splits)
  let ?w = "(set_tasks (add_mset (AttachStart ch sid cons) (bw_tasks w)) w)\<lparr>bw_owner := (bw_owner w)(sid \<mapsto> (ch, cons))\<rparr>"
  have "c \<in> bw_closed ?w \<or> held ?w x s c" if "bw_owner ?w s = Some (x, c)" for s x c
    using that leak_invD(1) [OF attach(6), of s x c] by (auto simp: held_def split: if_splits)
  moreover have "agent (bw_chan ?w x) \<in> bw_closed ?w \<or> x \<in># served (bw_tasks ?w)" if "x < bw_next ?w" for x
    using that leak_invD(2) [OF attach(6), of x] by auto
  ultimately show ?case unfolding leak_inv_def w' by blast
next
  case (attach_inserted w ch sid cons T)
  have none: "mget (sessions (bw_chan w x)) sid = None" for x
    using early_invD [OF attach_inserted(4), of "AttachInsert ch sid cons" sid] attach_inserted(1) by simp
  have "c \<in> bw_closed w \<or> held (set_tasks (add_mset (Pump ch sid cons) T) (attach_insert ch sid cons w)) x s c"
    if "bw_owner w s = Some (x, c)" for s x c
    using leak_invD(1) [OF attach_inserted(5) that] attach_inserted(1) none
    by (auto simp: held_def attach_insert_def)
  then show ?case
    using leak_invD(2) [OF attach_inserted(5)] attach_inserted(1) unfolding leak_inv_def
    by (auto simp: attach_insert_def)
next
  case (pump_sent w ch sid cons T payload)
  then show ?case by (intro leak_inv_grow_tasks [OF pump_sent(6)]) auto
next
  case (pump_ended w ch sid cons T ok)
  have "mget (sessions (bw_chan (closeSession us ch sid ok w) ch)) sid = None"
    by (simp add: closeSession_def Let_def split: option.split)
  then show ?case using pump_ended(1) by (intro leak_inv_grow [OF pump_ended(5)]) auto
qed (rule leak_inv_grow, assumption, simp, auto)+

interpretation leak: invariant_system "\<lambda>w. w = NewBroker" "broker_step up us" "\<lambda>w. broker_inv w \<and> leak_inv w"
  for up :: "string \<Rightarrow> uuid option" and us :: "uuid \<Rightarrow> string"
proof
  show "broker_inv w \<and> leak_inv w" if "w = NewBroker" for w
    using that bk.init_inv by (simp add: leak_inv_def NewBroker_sel)
  show "broker_inv w' \<and> leak_inv w'" if "broker_inv w \<and> leak_inv w" "broker_step up us w w'" for w w'
    using that bk.step_inv leak_inv_step unfolding broker_inv_def by metis
qed

section \<open>Coming to rest\<close>

text \<open>How many steps a goroutine needs to end when what it waits for fails.\<close>

fun steps_left :: "task \<Rightarrow> nat" where
  "steps_left (Registered _) = 1"
| "steps_left (LoopWrite _ _ _ _) = 5"
| "steps_left (Loop _) = 4"
| "steps_left (Remove1 _) = 3"
| "steps_left (Remove2 _) = 2"
| "steps_left (Remove3 _) = 1"
| "steps_left (AttachStart _ _ _) = 2"
| "steps_left (AttachInsert _ _ _) = 2"
| "steps_left _ = 1"

definition rest_steps :: "task multiset \<Rightarrow> nat" where
  "rest_steps T = (\<Sum>t \<in># T. steps_left t)"

lemma rest_steps_simps [simp]: "rest_steps {#} = 0" "rest_steps (add_mset t T) = steps_left t + rest_steps T"
  by (simp_all add: rest_steps_def)

lemma close_growD: "close_grow w w' \<Longrightarrow> bw_owner w' = bw_owner w \<and> bw_next w' = bw_next w"
  unfolding close_grow_def by blast

lemma some_task_ends:
  assumes T: "bw_tasks w = add_mset t T"
  shows "\<exists>w'. broker_step up us w w' \<and> rest_steps (bw_tasks w') < rest_steps (bw_tasks w)
     \<and> bw_owner w' = bw_owner w \<and> bw_next w' = bw_next w"
proof -
  have ends: ?thesis if "broker_step up us w w'" "rest_steps (bw_tasks w') < rest_steps (bw_tasks w)"
      "bw_owner w' = bw_owner w" "bw_next w' = bw_next w" for w'
    using that by blast
  show ?thesis
  proof (cases t)
    case (Registered ch)
    show ?thesis
      by (rule ends [OF broker_step.ack_failed [OF T [unfolded Registered]]]) (simp_all add: T Registered close_growD [OF close_grow_ops(11)])
  next
    case (Loop ch)
    show ?thesis
      by (rule ends [OF broker_step.loop_error [OF T [unfolded Loop]]]) (simp_all add: T Loop)
  next
    case (LoopWrite ch sid c body)
    show ?thesis
      by (rule ends [OF broker_step.loop_write_failed [where ok = False, OF T [unfolded LoopWrite]]]) (simp_all add: T LoopWrite close_growD [OF close_grow_ops(5)])
  next
    case (Remove1 ch)
    obtain x w' where r: "remove_take (co_id (bw_chan w ch)) w = (x, w')" by (metis surj_pair)
    note g = close_growD [OF close_grow_ops(15) [OF r]]
    show ?thesis
    proof (cases x)
      case None
      show ?thesis
        by (rule ends [OF broker_step.remove_not_found [OF T [unfolded Remove1] r [unfolded None]]])
          (simp_all add: T Remove1 g)
    next
      case (Some ch')
      show ?thesis
        by (rule ends [OF broker_step.remove_found [OF T [unfolded Remove1] r [unfolded Some]]])
          (simp_all add: T Remove1 g)
    qed
  next
    case (Remove2 ch)
    show ?thesis
      by (rule ends [OF broker_step.remove_closing [OF T [unfolded Remove2]]]) (simp_all add: T Remove2 close_growD [OF close_grow_sessions])
  next
    case (Remove3 ch)
    show ?thesis
      by (rule ends [OF broker_step.remove_waking [OF T [unfolded Remove3]]]) (simp_all add: T Remove3 close_growD [OF close_grow_ops(6)])
  next
    case (AttachStart ch sid c)
    obtain k w' where r: "attach_register ch sid w = (k, w')" by (metis surj_pair)
    show ?thesis
      by (rule ends [OF broker_step.attach_registered [OF T [unfolded AttachStart] r]])
        (simp_all add: T AttachStart close_growD [OF close_grow_ops(13) [OF r]])
  next
    case (AttachWrite ch sid c k)
    show ?thesis
      by (rule ends [OF broker_step.attach_send_failed [OF T [unfolded AttachWrite]]]) (simp_all add: T AttachWrite close_growD [OF close_grow_ops(8)])
  next
    case (AttachWait ch sid c k)
    show ?thesis
      by (rule ends [OF broker_step.attach_timeout [OF T [unfolded AttachWait]]]) (simp_all add: T AttachWait close_growD [OF close_grow_ops(8)])
  next
    case (AttachInsert ch sid c)
    show ?thesis
      by (rule ends [OF broker_step.attach_inserted [OF T [unfolded AttachInsert]]]) (simp_all add: T AttachInsert attach_insert_def)
  next
    case (Pump ch sid c)
    show ?thesis
      by (rule ends [OF broker_step.pump_ended [where ok = False, OF T [unfolded Pump]]]) (simp_all add: T Pump close_growD [OF close_grow_ops(5)])
  qed
qed

lemma all_tasks_end:
  "\<exists>w'. (broker_step up us)\<^sup>*\<^sup>* w w' \<and> bw_tasks w' = {#} \<and> bw_owner w' = bw_owner w \<and> bw_next w' = bw_next w"
proof (induction "rest_steps (bw_tasks w)" arbitrary: w rule: less_induct)
  case less
  show ?case
  proof (cases "bw_tasks w = {#}")
    case False
    then obtain t T where "bw_tasks w = add_mset t T" by (meson multiset_cases)
    from some_task_ends [OF this] obtain v where v: "broker_step up us w v"
      "rest_steps (bw_tasks v) < rest_steps (bw_tasks w)" "bw_owner v = bw_owner w" "bw_next v = bw_next w" by blast
    from less [OF v(2)] v(3,4) obtain w' where "(broker_step up us)\<^sup>*\<^sup>* v w'" "bw_tasks w' = {#}"
      "bw_owner w' = bw_owner w" "bw_next w' = bw_next w" by auto
    with v(1) show ?thesis by (meson converse_rtranclp_into_rtranclp)
  qed blast
qed

section \<open>Properties\<close>

text \<open>C9: No connection is forgotten. In every reachable state the connection of every consumer whose attach
  was started is closed, or is held by a goroutine of its own that will close it: one that is still
  attaching it, or the one that reads from it, with the session in the channel's table so that the end of
  either side closes it. The connection of every provider that was registered is closed, or its channel
  is being served.\<close>

theorem broker_leaks_no_connection:
  assumes "broker_reachable up us w"
  shows "(bw_owner w sid = Some (ch, c) \<longrightarrow> c \<in> bw_closed w \<or> held w ch sid c)
    \<and> (ch < bw_next w \<longrightarrow> agent (bw_chan w ch) \<in> bw_closed w \<or> ch \<in># served (bw_tasks w))"
  using leak_invD leak.reachable_inv [OF assms] by blast

theorem broker_leaks_no_connection_witness:
  "bw_owner greeted uuid_nil = Some (0, 9) \<and> held greeted 0 uuid_nil 9"
  using broker_leaks_no_connection [OF demo_reachable_worlds(1), of uuid_nil 0 9]
  by (auto simp: greeted_def demo_own_def)

text \<open>C10: The broker can always come to rest. From every reachable state there is a run, in which no provider
  registers and no consumer comes, to a state without goroutines; there no channel is registered, no
  session is in a table, and the connection of every provider and of every consumer is closed.\<close>

theorem broker_comes_to_rest:
  assumes "broker_reachable up us w"
  shows "\<exists>w'. (broker_step up us)\<^sup>*\<^sup>* w w' \<and> bw_owner w' = bw_owner w \<and> bw_next w' = bw_next w
    \<and> bw_tasks w' = {#} \<and> ChannelCount w' = 0 \<and> (\<forall>ch sid. mget (sessions (bw_chan w' ch)) sid = None)
    \<and> (\<forall>ch < bw_next w. agent (bw_chan w' ch) \<in> bw_closed w')
    \<and> (\<forall>sid ch c. bw_owner w sid = Some (ch, c) \<longrightarrow> c \<in> bw_closed w')"
proof -
  obtain w' where w': "(broker_step up us)\<^sup>*\<^sup>* w w'" "bw_tasks w' = {#}" "bw_owner w' = bw_owner w" "bw_next w' = bw_next w"
    using all_tasks_end by blast
  have inv: "broker_inv w'" "leak_inv w'" using leak.steps_inv [OF leak.reachable_inv [OF assms] w'(1)] by blast+
  have "ChannelCount w' = 0"
    using map_invD(2) [of w'] inv(1) w'(2) by (simp add: broker_inv_def ChannelCount_def)
  moreover have "mget (sessions (bw_chan w' ch)) sid = None" for ch sid
    using pump_invD [of w' ch sid] inv(1) w'(2) by (cases "mget (sessions (bw_chan w' ch)) sid") (auto simp: broker_inv_def)
  moreover have "agent (bw_chan w' ch) \<in> bw_closed w'" if "ch < bw_next w" for ch
    using leak_invD(2) [OF inv(2), of ch] w' that by simp
  moreover have "c \<in> bw_closed w'" if "bw_owner w sid = Some (ch, c)" for sid ch c
    using leak_invD(1) [OF inv(2), of sid ch c] w' that by (simp add: held_def)
  ultimately show ?thesis using w' by blast
qed

theorem broker_comes_to_rest_witness:
  "\<exists>w'. (broker_step demo_up demo_us)\<^sup>*\<^sup>* greeted w' \<and> bw_tasks w' = {#} \<and> 9 \<in> bw_closed w'"
proof -
  obtain w' where w': "(broker_step demo_up demo_us)\<^sup>*\<^sup>* greeted w'" "bw_tasks w' = {#}"
      "\<forall>sid ch c. bw_owner greeted sid = Some (ch, c) \<longrightarrow> c \<in> bw_closed w'"
    using broker_comes_to_rest [OF demo_reachable_worlds(1)] by blast
  have "bw_owner greeted uuid_nil = Some (0, 9)" by (simp add: greeted_def demo_own_def)
  then have "9 \<in> bw_closed w'" using w'(3) by blast
  then show ?thesis using w'(1,2) by blast
qed

end
