(* ===== verification/Build.thy ===== *)
theory Build
  imports BuildTree StaticFiles
begin

text \<open>
  The build script \<open>build.go\<close>, as a program over the tree of the repository. The commands it runs (npm,
  go, git, the built server) change the tree in ways of their own: \<open>be_perform\<close> says how, and whether the
  command succeeds. A step answers \<open>False\<close> when the script exits with an error; the partial result of a
  copy that failed is left out, and so is what the script prints. Paths are those of Unix.
\<close>

record command =
  cmd_dir :: "path option"
  cmd_env :: "string list"
  cmd_argv :: "string list"

record build_env =
  be_perform :: "command \<Rightarrow> node \<Rightarrow> bool \<times> node"
  be_io :: "path \<Rightarrow> bool"
  be_goos :: string
  be_goproxy :: string
  be_git :: "string option"

text \<open>The tree, and the commands so far, each with the tree it was run on.\<close>

record build_world =
  bt_tree :: node
  bt_log :: "(command \<times> node) list"

type_synonym build_step = "build_world \<Rightarrow> bool \<times> build_world"

text \<open>Steps in sequence; the first failure ends the program.\<close>

fun run_steps :: "build_step list \<Rightarrow> build_step" where
  "run_steps [] w = (True, w)"
| "run_steps (s # ss) w = (case s w of (True, w) \<Rightarrow> run_steps ss w | (False, w) \<Rightarrow> (False, w))"

definition pure_step :: "(node \<Rightarrow> node) \<Rightarrow> build_step" where
  "pure_step f w = (True, w\<lparr>bt_tree := f (bt_tree w)\<rparr>)"

definition run_command :: "build_env \<Rightarrow> command \<Rightarrow> build_step" where
  "run_command env c w =
     (let (ok, t) = be_perform env c (bt_tree w)
      in (ok, w\<lparr>bt_tree := t, bt_log := bt_log w @ [(c, bt_tree w)]\<rparr>))"

definition runCmd :: "build_env \<Rightarrow> string list \<Rightarrow> build_step" where
  "runCmd env argv = run_command env \<lparr>cmd_dir = None, cmd_env = [], cmd_argv = argv\<rparr>"

definition runCmdDir :: "build_env \<Rightarrow> path \<Rightarrow> string list \<Rightarrow> build_step" where
  "runCmdDir env dir argv = run_command env \<lparr>cmd_dir = Some dir, cmd_env = [], cmd_argv = argv\<rparr>"

text \<open>\<open>vars\<close>: what is added to the environment of the script.\<close>

definition runCmdWithEnv :: "build_env \<Rightarrow> string list \<Rightarrow> string list \<Rightarrow> build_step" where
  "runCmdWithEnv env vars argv = run_command env \<lparr>cmd_dir = None, cmd_env = vars, cmd_argv = argv\<rparr>"

definition copy_step_dir :: "build_env \<Rightarrow> path \<Rightarrow> path \<Rightarrow> build_step" where
  "copy_step_dir env src dst w =
     (case copyDir (be_io env) src dst (bt_tree w) of
        None \<Rightarrow> (False, w)
      | Some t \<Rightarrow> (True, w\<lparr>bt_tree := t\<rparr>))"

section \<open>The frontends\<close>

definition frontendApp :: "string \<Rightarrow> path" where
  "frontendApp name = [''frontend'', name]"

text \<open>The directories are constants of the script, so that cleaning them changes nothing.\<close>

definition npmBuild :: "build_env \<Rightarrow> path \<Rightarrow> build_step" where
  "npmBuild env dir w =
     (if \<exists>c \<in> set dir. contains_str c ''..'' then (False, w)
      else if \<not> fileExists (dir @ [''package.json'']) (bt_tree w) then (False, w)
      else run_steps
        ((if \<not> fileExists (dir @ [''node_modules'']) (bt_tree w)
          then [runCmdDir env dir [''npm'', ''config'', ''set'', ''registry'', ''https://registry.npmmirror.com''],
                runCmdDir env dir [''npm'', ''install'']]
          else [])
         @ [runCmdDir env dir [''npm'', ''run'', ''build'']]) w)"

definition admin_dist :: path where
  "admin_dist = [''internal'', ''embed'', ''admin'', ''dist'']"

definition client_dist :: path where
  "client_dist = [''internal'', ''embed'', ''client'', ''dist'']"

definition buildWebAdmin :: "build_env \<Rightarrow> build_step" where
  "buildWebAdmin env =
     (let dir = frontendApp ''web-admin'';
          dest = admin_dist
      in run_steps [npmBuild env dir, pure_step (mkdir_all dest), copy_step_dir env (dir @ [''dist'']) dest])"

definition buildWebClient :: "build_env \<Rightarrow> build_step" where
  "buildWebClient env =
     (let dir = frontendApp ''web-client'';
          dest = client_dist
      in run_steps [npmBuild env dir, pure_step (mkdir_all dest), copy_step_dir env (dir @ [''dist'']) dest])"

section \<open>The programs\<close>

definition getLDFlags :: "build_env \<Rightarrow> string" where
  "getLDFlags env =
     (let version = (case be_git env of None \<Rightarrow> ''dev'' | Some out \<Rightarrow> trim_space out)
      in ''-s -w -X main.Version='' @ version)"

definition exeExt :: "build_env \<Rightarrow> string" where
  "exeExt env = (if be_goos env = ''windows'' then ''.exe'' else [])"

definition go_env :: "build_env \<Rightarrow> string list \<Rightarrow> string list" where
  "go_env env vars = vars @ (if be_goproxy env = [] then [''GOPROXY=https://goproxy.cn,direct''] else [])"

definition server_binary :: "build_env \<Rightarrow> string" where
  "server_binary env = ''build/tcp-proxy-server'' @ exeExt env"

definition server_command :: "build_env \<Rightarrow> command" where
  "server_command env = \<lparr>cmd_dir = None, cmd_env = go_env env [''CGO_ENABLED=0''],
     cmd_argv = [''go'', ''build'', ''-ldflags'', getLDFlags env, ''-o'', server_binary env, ''./cmd/server'']\<rparr>"

definition buildServer :: "build_env \<Rightarrow> build_step" where
  "buildServer env = run_steps
     [buildWebAdmin env, pure_step (mkdir_all [''build'']),
      runCmdWithEnv env (cmd_env (server_command env)) (cmd_argv (server_command env))]"

record Target =
  tg_Name :: string
  tg_GOOS :: string
  tg_GOARCH :: string
  tg_Ext :: string

definition clientTargets :: "Target list" where
  "clientTargets =
     [\<lparr>tg_Name = ''tcp-proxy-client-windows-amd64'', tg_GOOS = ''windows'', tg_GOARCH = ''amd64'', tg_Ext = ''.exe''\<rparr>,
      \<lparr>tg_Name = ''tcp-proxy-client-linux-amd64'', tg_GOOS = ''linux'', tg_GOARCH = ''amd64'', tg_Ext = []\<rparr>]"

definition client_command :: "build_env \<Rightarrow> Target \<Rightarrow> command" where
  "client_command env t = \<lparr>cmd_dir = None,
     cmd_env = go_env env [''GOOS='' @ tg_GOOS t, ''GOARCH='' @ tg_GOARCH t, ''CGO_ENABLED=0''],
     cmd_argv = [''go'', ''build'', ''-ldflags'', getLDFlags env, ''-o'', ''build/'' @ tg_Name t @ tg_Ext t, ''./cmd/client'']\<rparr>"

definition buildClients :: "build_env \<Rightarrow> build_step" where
  "buildClients env = run_steps
     ([buildWebClient env, pure_step (mkdir_all [''build''])]
      @ map (\<lambda>t. runCmdWithEnv env (cmd_env (client_command env t)) (cmd_argv (client_command env t))) clientTargets)"

definition clean :: "build_env \<Rightarrow> build_step" where
  "clean env = run_steps
     [pure_step (remove_all [''build'']), pure_step (remove_all (frontendApp ''web-admin'' @ [''dist''])),
      pure_step (remove_all (frontendApp ''web-client'' @ [''dist'']))]"

definition runServer :: "build_env \<Rightarrow> build_step" where
  "runServer env = runCmd env [server_binary env]"

text \<open>The dispatch; the usage message and the exit for anything else.\<close>

definition build_main :: "build_env \<Rightarrow> string list \<Rightarrow> build_step" where
  "build_main env args w =
     (case args of
        [] \<Rightarrow> (False, w)
      | cmd # _ \<Rightarrow>
          if cmd = ''web-admin'' then buildWebAdmin env w
          else if cmd = ''web-client'' then buildWebClient env w
          else if cmd = ''web'' then run_steps [buildWebAdmin env, buildWebClient env] w
          else if cmd = ''server'' then buildServer env w
          else if cmd = ''clients'' then buildClients env w
          else if cmd = ''all'' then run_steps [buildWebAdmin env, buildWebClient env, buildServer env, buildClients env] w
          else if cmd = ''clean'' then clean env w
          else if cmd = ''run'' then run_steps [buildWebAdmin env, buildServer env, runServer env] w
          else (False, w))"

section \<open>What the compiler finds\<close>

text \<open>What the script relies on: npm, go, git and the server leave trees without repeated names, and
  \<open>go build\<close> writes below the directory \<open>build\<close> only.\<close>

definition tools_ok :: "build_env \<Rightarrow> bool" where
  "tools_ok env \<longleftrightarrow>
     (\<forall>c t. wf_node t \<longrightarrow> wf_node (snd (be_perform env c t)))
     \<and> (\<forall>c t p. take 2 (cmd_argv c) = [''go'', ''build''] \<longrightarrow> take 1 p \<noteq> [''build''] \<longrightarrow>
          file_at p (snd (be_perform env c t)) = file_at p t)"

abbreviation admin_embedded :: "node \<Rightarrow> bool" where
  "admin_embedded \<equiv> embedded (frontendApp ''web-admin'' @ [''dist'']) admin_dist"

abbreviation client_embedded :: "node \<Rightarrow> bool" where
  "client_embedded \<equiv> embedded (frontendApp ''web-client'' @ [''dist'']) client_dist"

definition good_run :: "build_env \<Rightarrow> command \<times> node \<Rightarrow> bool" where
  "good_run env ct \<longleftrightarrow>
     (fst ct = server_command env \<longrightarrow> admin_embedded (snd ct))
     \<and> (fst ct \<in> client_command env ` set clientTargets \<longrightarrow> client_embedded (snd ct))"

definition build_inv :: "build_env \<Rightarrow> build_world \<Rightarrow> bool" where
  "build_inv env w \<longleftrightarrow> wf_node (bt_tree w) \<and> (\<forall>ct \<in> set (bt_log w). good_run env ct \<and> wf_node (snd ct))"

text \<open>From a state with \<open>pre\<close>, the step keeps the invariant, and establishes \<open>post\<close> if it succeeds.\<close>

definition step_ok :: "build_env \<Rightarrow> (node \<Rightarrow> bool) \<Rightarrow> build_step \<Rightarrow> (node \<Rightarrow> bool) \<Rightarrow> bool" where
  "step_ok env pre s post \<longleftrightarrow>
     (\<forall>w b w'. build_inv env w \<longrightarrow> pre (bt_tree w) \<longrightarrow> s w = (b, w') \<longrightarrow> build_inv env w' \<and> (b \<longrightarrow> post (bt_tree w')))"

lemma step_okD:
  "step_ok env pre s post \<Longrightarrow> build_inv env w \<Longrightarrow> pre (bt_tree w) \<Longrightarrow> s w = (b, w') \<Longrightarrow>
     build_inv env w' \<and> (b \<longrightarrow> post (bt_tree w'))"
  unfolding step_ok_def by blast

lemma step_ok_weaken: "step_ok env pre s post \<Longrightarrow> (\<And>t. pre' t \<Longrightarrow> pre t) \<Longrightarrow> (\<And>t. post t \<Longrightarrow> post' t) \<Longrightarrow> step_ok env pre' s post'"
  unfolding step_ok_def by blast

lemma steps_Nil: "step_ok env pre (run_steps []) pre"
  by (simp add: step_ok_def)

lemma steps_Cons: "step_ok env pre s mid \<Longrightarrow> step_ok env mid (run_steps ss) post \<Longrightarrow> step_ok env pre (run_steps (s # ss)) post"
  unfolding step_ok_def [of env pre "run_steps (s # ss)"]
proof (intro allI impI)
  fix w b w'
  assume s: "step_ok env pre s mid" "step_ok env mid (run_steps ss) post"
    and w: "build_inv env w" "pre (bt_tree w)" "run_steps (s # ss) w = (b, w')"
  obtain b1 w1 where 1: "s w = (b1, w1)" by (metis surj_pair)
  note m = step_okD [OF s(1) w(1,2) 1]
  show "build_inv env w' \<and> (b \<longrightarrow> post (bt_tree w'))"
  proof (cases b1)
    case True
    with w(3) 1 have "run_steps ss w1 = (b, w')" by simp
    with True m show ?thesis using step_okD [OF s(2)] by blast
  next
    case False
    with w(3) 1 m show ?thesis by simp
  qed
qed

lemma steps_all:
  "(\<And>s. s \<in> set ss \<Longrightarrow> step_ok env pre s pre) \<Longrightarrow> step_ok env pre (run_steps ss) pre"
  by (induction ss) (auto intro: steps_Nil steps_Cons)

lemma pure_ok:
  "(\<And>t. wf_node t \<Longrightarrow> pre t \<Longrightarrow> wf_node (f t) \<and> post (f t)) \<Longrightarrow> step_ok env pre (pure_step f) post"
  by (auto simp: step_ok_def pure_step_def build_inv_def)

lemma command_ok:
  assumes "tools_ok env" "\<And>t. pre t \<Longrightarrow> good_run env (c, t)"
    and "\<And>t b t'. pre t \<Longrightarrow> be_perform env c t = (b, t') \<Longrightarrow> post t'"
  shows "step_ok env pre (run_command env c) post"
  unfolding step_ok_def
proof (intro allI impI)
  fix w b w'
  assume w: "build_inv env w" "pre (bt_tree w)" "run_command env c w = (b, w')"
  obtain b' t' where p: "be_perform env c (bt_tree w) = (b', t')" by (metis surj_pair)
  have "wf_node t'" using assms(1) w(1) p unfolding tools_ok_def build_inv_def by (metis snd_conv)
  with w p assms(2,3) show "build_inv env w' \<and> (b \<longrightarrow> post (bt_tree w'))"
    by (auto simp: run_command_def build_inv_def)
qed

lemma mkdir_ok: "step_ok env (\<lambda>t. True) (pure_step (mkdir_all p)) (\<lambda>t. True)"
  "step_ok env (embedded src dst) (pure_step (mkdir_all p)) (embedded src dst)"
  by (auto intro!: pure_ok simp: wf_mkdir embedded_def)

lemma copy_ok:
  "src \<noteq> [] \<Longrightarrow> dst \<noteq> [] \<Longrightarrow> hd src \<noteq> hd dst \<Longrightarrow> step_ok env (\<lambda>t. True) (copy_step_dir env src dst) (embedded src dst)"
  using copyDir_embeds(1,3) [of "be_io env" src dst]
  by (auto simp: step_ok_def copy_step_dir_def build_inv_def split: option.splits)

lemma npm_ok: "tools_ok env \<Longrightarrow> step_ok env (\<lambda>t. True) (npmBuild env dir) (\<lambda>t. True)"
proof -
  assume t: "tools_ok env"
  have c: "step_ok env (\<lambda>t. True) (runCmdDir env dir (''npm'' # argv)) (\<lambda>t. True)" for argv
    unfolding runCmdDir_def
    by (rule command_ok [OF t]) (auto simp: good_run_def server_command_def client_command_def)
  have "step_ok env (\<lambda>t. True) (run_steps ((if b
          then [runCmdDir env dir [''npm'', ''config'', ''set'', ''registry'', ''https://registry.npmmirror.com''],
                runCmdDir env dir [''npm'', ''install'']]
          else []) @ [runCmdDir env dir [''npm'', ''run'', ''build'']])) (\<lambda>t. True)" for b
    by (rule steps_all) (use c in \<open>auto split: if_splits\<close>)
  then show ?thesis
    unfolding step_ok_def npmBuild_def by (auto split: if_splits)
qed

lemma web_ok:
  assumes "tools_ok env"
  shows "step_ok env (\<lambda>t. True) (buildWebAdmin env) admin_embedded"
    "step_ok env (\<lambda>t. True) (buildWebClient env) client_embedded"
  unfolding buildWebAdmin_def buildWebClient_def Let_def
  by (intro steps_Cons [OF npm_ok [OF assms]] steps_Cons [OF mkdir_ok(1)] steps_Cons [OF copy_ok] steps_Nil;
    simp add: frontendApp_def admin_dist_def client_dist_def)+

lemma go_keeps:
  assumes "tools_ok env" "take 2 (cmd_argv c) = [''go'', ''build'']" "be_perform env c t = (b, t')"
    and "src \<noteq> []" "dst \<noteq> []" "hd src \<noteq> ''build''" "hd dst \<noteq> ''build''" "embedded src dst t"
  shows "embedded src dst t'"
proof -
  have "take 1 (p @ q) \<noteq> [''build'']" if "p \<noteq> []" "hd p \<noteq> ''build''" for p q :: path
    using that by (cases p) auto
  then have "file_at (src @ q) t' = file_at (src @ q) t" "file_at (dst @ q) t' = file_at (dst @ q) t" for q
    using assms unfolding tools_ok_def by (metis snd_conv)+
  with assms(8) show ?thesis by (simp add: embedded_def)
qed

lemma server_ok:
  assumes "tools_ok env"
  shows "step_ok env (\<lambda>t. True) (buildServer env) (\<lambda>t. True)"
proof -
  have "step_ok env admin_embedded (runCmdWithEnv env (cmd_env (server_command env)) (cmd_argv (server_command env))) (\<lambda>t. True)"
    unfolding runCmdWithEnv_def
    by (rule command_ok [OF assms]) (auto simp: good_run_def server_command_def client_command_def)
  then show ?thesis
    unfolding buildServer_def
    by (intro steps_Cons [OF web_ok(1) [OF assms]] steps_Cons [OF mkdir_ok(2)] steps_Cons [OF _ steps_Nil])
qed

lemma clients_ok:
  assumes "tools_ok env"
  shows "step_ok env (\<lambda>t. True) (buildClients env) (\<lambda>t. True)"
proof -
  have g: "step_ok env client_embedded (runCmdWithEnv env (cmd_env (client_command env g)) (cmd_argv (client_command env g)))
      client_embedded" for g
    unfolding runCmdWithEnv_def
  proof (rule command_ok [OF assms])
    fix t b t'
    assume e: "client_embedded t" and p: "be_perform env \<lparr>cmd_dir = None, cmd_env = cmd_env (client_command env g),
      cmd_argv = cmd_argv (client_command env g)\<rparr> t = (b, t')"
    then show "client_embedded t'"
      by (intro go_keeps [OF assms _ p _ _ _ _ e]) (simp_all add: client_command_def frontendApp_def client_dist_def)
  qed (auto simp: good_run_def server_command_def client_command_def)
  have "step_ok env client_embedded (run_steps (map (\<lambda>t. runCmdWithEnv env (cmd_env (client_command env t))
      (cmd_argv (client_command env t))) clientTargets)) client_embedded"
    by (rule steps_all) (use g in auto)
  then have "step_ok env client_embedded (run_steps (map (\<lambda>t. runCmdWithEnv env (cmd_env (client_command env t))
      (cmd_argv (client_command env t))) clientTargets)) (\<lambda>t. True)"
    by (rule step_ok_weaken) simp_all
  then show ?thesis
    unfolding buildClients_def append_Cons append_Nil
    by (intro steps_Cons [OF web_ok(2) [OF assms]] steps_Cons [OF mkdir_ok(2)])
qed

lemma main_ok:
  assumes "tools_ok env"
  shows "step_ok env (\<lambda>t. True) (build_main env args) (\<lambda>t. True)"
proof -
  have w: "step_ok env (\<lambda>t. True) (buildWebAdmin env) (\<lambda>t. True)" "step_ok env (\<lambda>t. True) (buildWebClient env) (\<lambda>t. True)"
    by (rule step_ok_weaken [OF web_ok(1) [OF assms]] step_ok_weaken [OF web_ok(2) [OF assms]]; simp)+
  have r: "step_ok env (\<lambda>t. True) (runServer env) (\<lambda>t. True)"
    unfolding runServer_def runCmd_def
    by (rule command_ok [OF assms]) (auto simp: good_run_def server_command_def client_command_def)
  have c: "step_ok env (\<lambda>t. True) (clean env) (\<lambda>t. True)"
    unfolding clean_def by (rule steps_all) (auto intro!: pure_ok simp: wf_remove)
  note parts = w server_ok [OF assms] clients_ok [OF assms] r
  have "step_ok env (\<lambda>t. True) (run_steps ss) (\<lambda>t. True)"
    if "set ss \<subseteq> {buildWebAdmin env, buildWebClient env, buildServer env, buildClients env, runServer env}" for ss
    by (rule steps_all) (use that parts in auto)
  note seqs = this [of "[buildWebAdmin env, buildWebClient env]"] this [of "[buildWebAdmin env, buildWebClient env, buildServer env, buildClients env]"]
    this [of "[buildWebAdmin env, buildServer env, runServer env]"]
  show ?thesis
    unfolding step_ok_def
  proof (intro allI impI)
    fix v b v'
    assume v: "build_inv env v" "build_main env args v = (b, v')"
    show "build_inv env v' \<and> (b \<longrightarrow> True)"
    proof (cases args)
      case Nil
      with v show ?thesis by (simp add: build_main_def)
    next
      case (Cons cmd rest)
      show ?thesis
        using v(2) parts seqs c step_okD [where pre = "\<lambda>t. True", OF _ v(1)]
        unfolding build_main_def Cons by (simp split: if_splits)
          (use v(1) in \<open>blast+\<close>)
    qed
  qed
qed

section \<open>Properties\<close>

text \<open>Whenever the script runs the compiler, the directory to embed has what npm left.\<close>

lemma build_embeds_frontends:
  assumes "tools_ok env" "wf_node (bt_tree w)" "bt_log w = []"
    and "(c, t) \<in> set (bt_log (snd (build_main env args w)))"
  shows "wf_node t"
    and "c = server_command env \<Longrightarrow> admin_embedded t"
    and "c \<in> client_command env ` set clientTargets \<Longrightarrow> client_embedded t"
proof -
  have "build_inv env w" using assms(2,3) by (simp add: build_inv_def)
  then have "build_inv env (snd (build_main env args w))"
    using step_okD [OF main_ok [OF assms(1)], of w args] by (metis prod.collapse)
  then have "good_run env (c, t)" "wf_node t" using assms(4) by (auto simp: build_inv_def)
  then show "wf_node t" "c = server_command env \<Longrightarrow> admin_embedded t"
    "c \<in> client_command env ` set clientTargets \<Longrightarrow> client_embedded t"
    by (auto simp: good_run_def)
qed

text \<open>The address of a file of a frontend: its start page is at the root.\<close>

definition file_url :: "path \<Rightarrow> string" where
  "file_url q = (if q = [''index.html''] then ''/'' else slash # join_path q)"

lemma spa_reply_file:
  assumes "file_at q m = Some d" "q \<noteq> []" "list_all elem_ok q" "last q = ''index.html'' \<longrightarrow> q = [''index.html'']"
    and "file_at [''index.html''] m = Some page"
  shows "spa_reply m page (file_url q) = Contents d"
proof (cases "q = [''index.html'']")
  case True
  then show ?thesis
    using assms(1,5) by (simp add: file_url_def spa_reply_def trim_prefix_def has_prefix_def dist_Open_def ValidPath_def Let_def)
next
  case False
  have p: "list_all path_elem q" using assms(3) by (auto simp: list_all_iff)
  have s: "split_on slash (join_path q) = q" by (rule split_join_path [OF assms(2) p])
  then have "join_path q \<noteq> ''.''" using p by auto
  moreover have "node_at q m = Some (File d)" using assms(1) by (auto simp: file_at_def split: option.splits node.splits)
  ultimately show ?thesis
    using False assms(4) s dist_Open_join [OF assms(2,3)]
    by (simp add: file_url_def spa_reply_def trim_prefix_def has_prefix_def Let_def)
qed

lemma embedded_served:
  assumes "embedded src dst t" "wf_node t"
    and "file_at (src @ q) t = Some d" "q \<noteq> []" "list_all (\<lambda>e. elem_ok e \<and> visible e) q"
    and "last q = ''index.html'' \<longrightarrow> q = [''index.html'']" "file_at (src @ [''index.html'']) t = Some page"
  obtains m where "go_embed ''dist'' (node_at dst t) = Some (Dir [(''dist'', m)])"
    "file_at [''index.html''] m = Some page" "spa_reply m page (file_url q) = Contents d"
proof -
  have e: "file_at (dst @ q) t = Some d" "file_at (dst @ [''index.html'']) t = Some page"
    using assms(1,3,7) by (simp_all add: embedded_def)
  have v: "list_all visible q" "list_all elem_ok q" using assms(5) by (auto simp: list_all_iff)
  obtain m where m: "go_embed ''dist'' (node_at dst t) = Some (Dir [(''dist'', m)])" "file_at q m = Some d"
    by (rule go_embed_file [OF assms(2) e(1) v(1)])
  have "list_all visible [''index.html'']" by (simp add: visible_def)
  then obtain m' where "go_embed ''dist'' (node_at dst t) = Some (Dir [(''dist'', m')])" "file_at [''index.html''] m' = Some page"
    by (rule go_embed_file [OF assms(2) e(2)])
  with m show thesis using that [OF m(1)] spa_reply_file [OF m(2) assms(4) v(2) assms(6)] by simp
qed


definition demo_build :: build_env where
  "demo_build = \<lparr>be_perform = (\<lambda>c t. (True, t)), be_io = (\<lambda>p. True), be_goos = ''linux'', be_goproxy = [], be_git = None\<rparr>"

definition demo_tree :: node where
  "demo_tree = Dir [(''frontend'', Dir [(''web-admin'', Dir [(''package.json'', File []), (''node_modules'', Dir []),
     (''dist'', Dir [(''index.html'', File ''page''), (''app.js'', File ''code'')])])])]"

lemma demo_server_build:
  "\<exists>t. bt_log (snd (build_main demo_build [''server''] \<lparr>bt_tree = demo_tree, bt_log = []\<rparr>)) =
     [(\<lparr>cmd_dir = Some (frontendApp ''web-admin''), cmd_env = [], cmd_argv = [''npm'', ''run'', ''build'']\<rparr>, demo_tree),
      (server_command demo_build, t)]
     \<and> file_at [''frontend'', ''web-admin'', ''dist'', ''index.html''] t = Some ''page''
     \<and> file_at [''frontend'', ''web-admin'', ''dist'', ''app.js''] t = Some ''code''"
  by (simp add: build_main_def buildServer_def buildWebAdmin_def npmBuild_def run_command_def runCmdDir_def
      runCmdWithEnv_def pure_step_def copy_step_dir_def copyDir_def demo_build_def demo_tree_def frontendApp_def
      admin_dist_def fileExists_def has_prefix_def server_command_def Let_def)


end
